(* ===== verification/Rust_Base.thy ===== *)
theory Rust_Base
  imports Main "HOL-Library.Word"
begin

text \<open>
  Prelude of the LiveCDN edge agent development: machine integers of the Rust code
  as words, big-endian byte strings (\<open>to_be_bytes\<close>, \<open>from_be_bytes\<close>, \<open>put_u32\<close>, \<dots> of
  the standard library and of \<open>bytes::BufMut\<close>), saturating subtraction, the casts of
  the source (\<open>as u64\<close> of a signed value), and list lemmas shared by the components.

  Conventions of the whole development. Counters and protocol fields keep their width
  (\<open>u8\<close>, \<open>u16\<close>, \<open>u32\<close>, \<open>u64\<close> are words; \<open>+\<close> wraps, which is what the release profile of the
  crate does: it does not turn overflow checks on). A panic ends the process
  (\<open>panic = "abort"\<close>); it is the value \<open>None\<close>, or a constructor of the result, where the
  code can panic. \<open>usize\<close> values that are lengths of
  buffers in memory are \<open>nat\<close>. \<open>i32\<close> values are \<open>int\<close>, wrapped by \<open>i32_wrap\<close> where
  the code does arithmetic on them. A \<open>Result\<close> is a sum, with \<open>Inl\<close> for the error.
\<close>

unbundle bit_operations_syntax

type_synonym u8 = "8 word"
type_synonym u16 = "16 word"
type_synonym u32 = "32 word"
type_synonym u64 = "64 word"
type_synonym bytes = "8 word list"

named_theorems byte_simps \<open>facts about big-endian byte strings\<close>
named_theorems fold_simps \<open>facts about runs (folds) of component operations\<close>

section \<open>Casts and arithmetic of the source\<close>

definition i32_wrap :: "int \<Rightarrow> int" where
  "i32_wrap i = (i + 2 ^ 31) mod 2 ^ 32 - 2 ^ 31"

definition i32_range :: "int \<Rightarrow> bool" where
  "i32_range i \<longleftrightarrow> - (2 ^ 31) \<le> i \<and> i < 2 ^ 31"

text \<open>\<open>i as u64\<close> and \<open>i as usize\<close> (64-bit targets) of a signed value: sign extension.\<close>

definition as_u64 :: "int \<Rightarrow> nat" where
  "as_u64 i = nat (i mod 2 ^ 64)"

definition saturating_sub :: "'a::len word \<Rightarrow> 'a word \<Rightarrow> 'a word" where
  "saturating_sub a b = (if a < b then 0 else a - b)"

lemma i32_wrap_id: "i32_range i \<Longrightarrow> i32_wrap i = i"
  by (simp add: i32_wrap_def i32_range_def)

lemma i32_wrap_range: "i32_range (i32_wrap i)"
proof -
  have "0 \<le> (i + 2 ^ 31) mod (2 ^ 32 :: int)" "(i + 2 ^ 31) mod (2 ^ 32 :: int) < 2 ^ 32"
    by simp_all
  then show ?thesis by (simp add: i32_wrap_def i32_range_def)
qed

lemma as_u64_nonneg: "0 \<le> i \<Longrightarrow> i < 2 ^ 64 \<Longrightarrow> as_u64 i = nat i"
  by (simp add: as_u64_def)

lemma as_u64_neg:
  assumes "i < 0" "i32_range i"
  shows "2 ^ 63 \<le> as_u64 i"
proof -
  have "i mod 2 ^ 64 = (i + 2 ^ 64) mod 2 ^ 64" by simp
  also have "\<dots> = i + 2 ^ 64"
    using assms by (intro mod_pos_pos_trivial) (auto simp: i32_range_def)
  finally show ?thesis using assms by (simp add: as_u64_def i32_range_def)
qed

lemma unat_less_exp: "unat (w :: 'a::len word) < 2 ^ LENGTH('a)"
  by (rule unsigned_less)

lemma word_of_nat_unat: "word_of_nat (unat (w :: 'a::len word)) = w"
  by simp

lemma unat_inc: "unat (w :: 'a::len word) + 1 < 2 ^ LENGTH('a) \<Longrightarrow> unat (w + 1) = unat w + 1"
  by (simp add: unat_word_ariths)

section \<open>Big-endian byte strings\<close>

primrec to_be :: "nat \<Rightarrow> nat \<Rightarrow> bytes" where
  "to_be 0 n = []"
| "to_be (Suc k) n = to_be k (n div 256) @ [word_of_nat n]"

definition from_be :: "bytes \<Rightarrow> nat" where
  "from_be bs = foldl (\<lambda>a b. a * 256 + unat b) 0 bs"

definition put_u32 :: "u32 \<Rightarrow> bytes" where
  "put_u32 w = to_be 4 (unat w)"

definition put_u64 :: "u64 \<Rightarrow> bytes" where
  "put_u64 w = to_be 8 (unat w)"

definition get_u32 :: "bytes \<Rightarrow> u32" where
  "get_u32 bs = word_of_nat (from_be bs)"

definition get_u64 :: "bytes \<Rightarrow> u64" where
  "get_u64 bs = word_of_nat (from_be bs)"

lemma length_to_be [simp, byte_simps]: "length (to_be k n) = k"
  by (induction k arbitrary: n) auto

lemma from_be_Nil [simp]: "from_be [] = 0"
  by (simp add: from_be_def)

lemma from_be_snoc [simp]: "from_be (bs @ [b]) = from_be bs * 256 + unat b"
  by (simp add: from_be_def)

lemma from_be_to_be [byte_simps]: "from_be (to_be k n) = n mod 256 ^ k"
proof (induction k arbitrary: n)
  case 0
  then show ?case by simp
next
  case (Suc k)
  have "n mod 256 ^ Suc k = n div 256 mod 256 ^ k * 256 + n mod 256"
    by (metis add.commute mod_mult2_eq mult.commute power_Suc)
  with Suc show ?case by (simp add: unat_of_nat)
qed

lemma from_be_bound: "from_be bs < 256 ^ length bs"
proof (induction bs rule: rev_induct)
  case Nil
  then show ?case by simp
next
  case (snoc b bs)
  have "unat b < 256" using unat_less_exp [of b] by simp
  with snoc show ?case by simp
qed

lemma to_be_from_be [byte_simps]: "to_be (length bs) (from_be bs) = bs"
proof (induction bs rule: rev_induct)
  case Nil
  then show ?case by simp
next
  case (snoc b bs)
  have lt: "unat b < 256" using unat_less_exp [of b] by simp
  then have "(from_be bs * 256 + unat b) div 256 = from_be bs" by simp
  moreover have "(word_of_nat (from_be bs * 256 + unat b) :: u8) = b"
  proof (rule word_unat_eq_iff [THEN iffD2])
    show "unat (word_of_nat (from_be bs * 256 + unat b) :: u8) = unat b"
      unfolding unat_of_nat using lt by simp
  qed
  ultimately show ?case using snoc by simp
qed

lemma length_put [simp, byte_simps]: "length (put_u32 w) = 4" "length (put_u64 v) = 8"
  by (simp_all add: put_u32_def put_u64_def)

lemma get_put_u32 [simp, byte_simps]: "get_u32 (put_u32 w) = w"
  using unat_less_exp [of w] by (simp add: get_u32_def put_u32_def from_be_to_be)

lemma get_put_u64 [simp, byte_simps]: "get_u64 (put_u64 w) = w"
  using unat_less_exp [of w] by (simp add: get_u64_def put_u64_def from_be_to_be)

lemma put_get_u32: "length bs = 4 \<Longrightarrow> put_u32 (get_u32 bs) = bs"
proof -
  assume len: "length bs = 4"
  with from_be_bound [of bs] have "unat (get_u32 bs) = from_be bs"
    by (simp add: get_u32_def unat_of_nat)
  with len to_be_from_be [of bs] show ?thesis by (simp add: put_u32_def)
qed

lemma put_get_u64: "length bs = 8 \<Longrightarrow> put_u64 (get_u64 bs) = bs"
proof -
  assume len: "length bs = 8"
  with from_be_bound [of bs] have "unat (get_u64 bs) = from_be bs"
    by (simp add: get_u64_def unat_of_nat)
  with len to_be_from_be [of bs] show ?thesis by (simp add: put_u64_def)
qed

lemma take_map_nth: "n \<le> length xs \<Longrightarrow> take n xs = map ((!) xs) [0..<n]"
  by (rule nth_equalityI) auto

lemma list4_nth: "length xs = 4 \<Longrightarrow> xs = [xs ! 0, xs ! 1, xs ! 2, xs ! 3]"
  by (rule nth_equalityI) (auto simp: numeral_eq_Suc less_Suc_eq)

lemma list8_nth:
  "length xs = 8 \<Longrightarrow> xs = [xs ! 0, xs ! 1, xs ! 2, xs ! 3, xs ! 4, xs ! 5, xs ! 6, xs ! 7]"
  by (rule nth_equalityI) (auto simp: numeral_eq_Suc less_Suc_eq)

lemma put_u32_list:
  obtains b0 b1 b2 b3 where "put_u32 w = [b0, b1, b2, b3]" "get_u32 [b0, b1, b2, b3] = w"
  using list4_nth [of "put_u32 w"] get_put_u32 [of w] by (metis length_put(1))

lemma put_u64_list:
  obtains b0 b1 b2 b3 b4 b5 b6 b7 where
    "put_u64 w = [b0, b1, b2, b3, b4, b5, b6, b7]" "get_u64 [b0, b1, b2, b3, b4, b5, b6, b7] = w"
  using list8_nth [of "put_u64 w"] get_put_u64 [of w] by (metis length_put(2))

lemma put_get_u32_list: "put_u32 (get_u32 [a, b, c, d]) = [a, b, c, d]"
  by (simp add: put_get_u32)

lemma put_get_u64_list:
  "put_u64 (get_u64 [a, b, c, d, e, f, g, h]) = [a, b, c, d, e, f, g, h]"
  by (simp add: put_get_u64)

section \<open>Slices\<close>

text \<open>\<open>data[a..b]\<close> for \<open>a \<le> b \<le> data.len()\<close>; the callers check the bounds first.\<close>

definition subslice :: "nat \<Rightarrow> nat \<Rightarrow> 'a list \<Rightarrow> 'a list" where
  "subslice a b xs = take (b - a) (drop a xs)"

lemma length_subslice [simp]: "b \<le> length xs \<Longrightarrow> length (subslice a b xs) = b - a"
  by (simp add: subslice_def)

lemma subslice_append1 [simp]: "b \<le> length xs \<Longrightarrow> subslice a b (xs @ ys) = subslice a b xs"
  by (simp add: subslice_def)

lemma subslice_append2: "length xs \<le> a \<Longrightarrow> subslice a b (xs @ ys) = subslice (a - length xs) (b - length xs) ys"
  by (simp add: subslice_def)

lemma subslice_0: "subslice 0 b xs = take b xs"
  by (simp add: subslice_def)

lemma subslice_whole [simp]: "b = length xs \<Longrightarrow> subslice 0 b xs = xs"
  by (simp add: subslice_def)

section \<open>Keeping the last \<open>n\<close> elements\<close>

text \<open>
  \<open>while v.len() > n { v.remove(0) }\<close>: the eviction loop of the GOP ring
  (\<open>pop_front\<close>) and of the segment cache (\<open>remove(0)\<close>).
\<close>

fun evict_front :: "nat \<Rightarrow> 'a list \<Rightarrow> 'a list" where
  "evict_front n [] = []"
| "evict_front n (x # xs) = (if n < length (x # xs) then evict_front n xs else x # xs)"

definition last_n :: "nat \<Rightarrow> 'a list \<Rightarrow> 'a list" where
  "last_n n xs = drop (length xs - n) xs"

lemma evict_front_last_n: "evict_front n xs = last_n n xs"
  by (induction xs) (auto simp: last_n_def Suc_diff_le)

lemma length_last_n [simp]: "length (last_n n xs) = min n (length xs)"
  by (simp add: last_n_def)

lemma last_n_id [simp]: "length xs \<le> n \<Longrightarrow> last_n n xs = xs"
  by (simp add: last_n_def)

lemma last_n_snoc: "last_n n (last_n n xs @ [x]) = last_n n (xs @ [x])"
proof (cases "length xs \<le> n")
  case True
  then show ?thesis by simp
next
  case False
  then have "Suc (length xs - n) = Suc (length xs) - n" by simp
  with False show ?thesis by (cases n) (auto simp: last_n_def)
qed

lemma set_last_n: "set (last_n n xs) \<subseteq> set xs"
  by (simp add: last_n_def set_drop_subset)

lemma last_n_suffix: "\<exists>ys. xs = ys @ last_n n xs"
  by (metis append_take_drop_id last_n_def)

lemma map_last_n: "map f (last_n n xs) = last_n n (map f xs)"
  by (simp add: last_n_def drop_map)

end
