(* ===== verification/Framing.thy ===== *)
theory Framing
  imports Rust_Base
begin

text \<open>
  Incremental decoding of a byte stream, shared by the protocol decoder
  (\<open>FrameDecoder\<close> of protocol/mod.rs) and the FLV pull loop (\<open>pull_flv_stream\<close> of
  relay/flv.rs): both append each received chunk to a buffer and then decode items off
  its front until the bytes run out or an error ends the stream.

  \<open>drain nx s b\<close> is that inner loop over a one-item decoder \<open>nx\<close>, whose answer on a
  buffer is an error, "more bytes needed", or an item, the next decoder state and the
  number of bytes it consumed. The locale \<open>framing\<close> states what such a decoder owes
  its loop; the consequences (the items do not depend on how the network cut the stream
  into chunks, an error is final) are proved here once and obtained for each decoder by
  interpretation.
\<close>

type_synonym ('s, 'e, 'f) decoder = "'s \<Rightarrow> bytes \<Rightarrow> 'e + ('f \<times> 's \<times> nat) option"

function drain :: "('s, 'e, 'f) decoder \<Rightarrow> 's \<Rightarrow> bytes \<Rightarrow> 'f list \<times> 's \<times> bytes \<times> 'e option" where
  "drain nx s b =
     (case nx s b of
        Inl e \<Rightarrow> ([], s, b, Some e)
      | Inr None \<Rightarrow> ([], s, b, None)
      | Inr (Some (f, s', n)) \<Rightarrow>
          (if n = 0 \<or> b = [] then ([], s, b, None)
           else (case drain nx s' (drop n b) of (fs, t, r, e) \<Rightarrow> (f # fs, t, r, e))))"
  by pat_completeness auto
termination
  by (relation "measure (\<lambda>(nx, s, b). length b)") auto

declare drain.simps [simp del]

text \<open>Feeding chunk after chunk; an error ends the stream.\<close>

fun feed_chunks :: "('s, 'e, 'f) decoder \<Rightarrow> 's \<Rightarrow> bytes \<Rightarrow> bytes list
    \<Rightarrow> 'f list \<times> 's \<times> bytes \<times> 'e option" where
  "feed_chunks nx s b [] = ([], s, b, None)"
| "feed_chunks nx s b (c # cs) =
     (case drain nx s (b @ c) of
        (fs, t, r, Some e) \<Rightarrow> (fs, t, r, Some e)
      | (fs, t, r, None) \<Rightarrow>
          (case feed_chunks nx t r cs of (gs, u, q, e) \<Rightarrow> (fs @ gs, u, q, e)))"

text \<open>What a run delivers to its consumer: the items and the error that ended it.\<close>

definition delivered :: "'f list \<times> 's \<times> bytes \<times> 'e option \<Rightarrow> 'f list \<times> 'e option" where
  "delivered x = (case x of (fs, s, r, e) \<Rightarrow> (fs, e))"

lemma delivered_simp [simp]: "delivered (fs, s, r, e) = (fs, e)"
  by (simp add: delivered_def)

locale framing =
  fixes nx :: "('s, 'e, 'f) decoder"
  assumes consumed: "nx s b = Inr (Some (f, s', n)) \<Longrightarrow> 0 < n \<and> n \<le> length b"
    and item_stable: "nx s b = Inr (Some (f, s', n)) \<Longrightarrow> nx s (b @ x) = Inr (Some (f, s', n))"
    and error_stable: "nx s b = Inl e \<Longrightarrow> nx s (b @ x) = Inl e"
begin

lemma drain_error: "nx s b = Inl e \<Longrightarrow> drain nx s b = ([], s, b, Some e)"
  by (simp add: drain.simps)

lemma drain_wait: "nx s b = Inr None \<Longrightarrow> drain nx s b = ([], s, b, None)"
  by (simp add: drain.simps)

lemma drain_item:
  "nx s b = Inr (Some (f, s', n)) \<Longrightarrow>
   drain nx s b = (case drain nx s' (drop n b) of (fs, t, r, e) \<Rightarrow> (f # fs, t, r, e))"
  using consumed [of s b f s' n] by (auto simp: drain.simps [of nx s b])

text \<open>One step of the loop at a time: the three answers of the decoder.\<close>

lemma decoder_cases:
  obtains (error) e where "nx s b = Inl e"
  | (wait) "nx s b = Inr None"
  | (item) f s' n where "nx s b = Inr (Some (f, s', n))"
proof (cases "nx s b")
  case (Inl e)
  then show ?thesis by (rule error)
next
  case (Inr o1)
  show ?thesis
  proof (cases o1)
    case None
    with Inr show ?thesis by (simp add: wait)
  next
    case (Some a)
    with Inr show ?thesis by (cases a) (auto intro: item)
  qed
qed

lemma drain_stops:
  "drain nx s b = (fs, t, r, e) \<Longrightarrow>
   (case e of None \<Rightarrow> nx t r = Inr None | Some x \<Rightarrow> nx t r = Inl x)"
proof (induction "length b" arbitrary: s b fs rule: less_induct)
  case less
  show ?case
  proof (cases rule: decoder_cases [of s b])
    case (item f s' n)
    obtain gs where gs: "drain nx s' (drop n b) = (gs, t, r, e)"
      using less.prems item by (auto simp: drain_item split: prod.splits)
    have "length (drop n b) < length b" using consumed [OF item] by auto
    from less.hyps [OF this gs] show ?thesis .
  qed (use less.prems in \<open>auto simp: drain_error drain_wait\<close>)
qed

text \<open>Bytes that arrive later do not change what has been decoded.\<close>

lemma drain_append_None:
  "drain nx s b = (fs, t, r, None) \<Longrightarrow>
   drain nx s (b @ x) = (case drain nx t (r @ x) of (gs, u, q, e) \<Rightarrow> (fs @ gs, u, q, e))"
proof (induction "length b" arbitrary: s b fs rule: less_induct)
  case less
  show ?case
  proof (cases rule: decoder_cases [of s b])
    case (error e)
    with less.prems show ?thesis by (simp add: drain_error)
  next
    case wait
    with less.prems show ?thesis by (simp add: drain_wait split: prod.splits)
  next
    case (item f s' n)
    from consumed [OF item] have n: "0 < n" "n \<le> length b" by auto
    obtain gs where gs: "drain nx s' (drop n b) = (gs, t, r, None)" and fs: "fs = f # gs"
      using less.prems item by (auto simp: drain_item split: prod.splits)
    have "length (drop n b) < length b" using n by auto
    from less.hyps [OF this gs]
    have IH: "drain nx s' (drop n b @ x) =
      (case drain nx t (r @ x) of (hs, u, q, e) \<Rightarrow> (gs @ hs, u, q, e))" .
    have "drain nx s (b @ x) =
      (case drain nx s' (drop n b @ x) of (hs, u, q, e) \<Rightarrow> (f # hs, u, q, e))"
      using drain_item [OF item_stable [OF item]] n by simp
    with IH fs show ?thesis by (simp split: prod.splits)
  qed
qed

lemma drain_append_Some:
  "drain nx s b = (fs, t, r, Some e) \<Longrightarrow> drain nx s (b @ x) = (fs, t, r @ x, Some e)"
proof (induction "length b" arbitrary: s b fs rule: less_induct)
  case less
  show ?case
  proof (cases rule: decoder_cases [of s b])
    case (error e')
    with less.prems show ?thesis by (simp add: drain_error error_stable)
  next
    case wait
    with less.prems show ?thesis by (simp add: drain_wait)
  next
    case (item f s' n)
    from consumed [OF item] have n: "0 < n" "n \<le> length b" by auto
    obtain gs where gs: "drain nx s' (drop n b) = (gs, t, r, Some e)" and fs: "fs = f # gs"
      using less.prems item by (auto simp: drain_item split: prod.splits)
    have "length (drop n b) < length b" using n by auto
    from less.hyps [OF this gs] have "drain nx s' (drop n b @ x) = (gs, t, r @ x, Some e)" .
    with drain_item [OF item_stable [OF item]] n fs show ?thesis by simp
  qed
qed

text \<open>
  Chunking is invisible: the items and the error delivered are those of the whole
  stream decoded at once, whatever the cuts.
\<close>

theorem feed_chunks_concat:
  assumes "nx s b = Inr None"
  shows "delivered (feed_chunks nx s b cs) = delivered (drain nx s (b @ concat cs))"
  using assms
proof (induction cs arbitrary: s b)
  case Nil
  then show ?case by (simp add: drain_wait)
next
  case (Cons c cs)
  obtain fs t r e where d: "drain nx s (b @ c) = (fs, t, r, e)"
    by (cases "drain nx s (b @ c)") auto
  show ?case
  proof (cases e)
    case (Some x)
    with d show ?thesis
      using drain_append_Some [of s "b @ c" fs t r x "concat cs"] by simp
  next
    case None
    with drain_stops [OF d] have w: "nx t r = Inr None" by simp
    from Cons.IH [OF w] d None show ?thesis
      using drain_append_None [of s "b @ c" fs t r "concat cs"]
      by (auto simp: delivered_def split: prod.splits)
  qed
qed

corollary chunking_irrelevant:
  assumes "nx s [] = Inr None" "concat cs = concat ds"
  shows "delivered (feed_chunks nx s [] cs) = delivered (feed_chunks nx s [] ds)"
  using assms by (simp add: feed_chunks_concat)

text \<open>
  Round trip of a whole stream: if an encoder puts one item on the wire so that the
  decoder, on any continuation, answers with that item and the encoding's length, then
  decoding the concatenation gives the items back.
\<close>

lemma drain_encoded:
  assumes enc: "\<And>f y. P f \<Longrightarrow> nx s (wire f @ y) = Inr (Some (g f, s, length (wire f)))"
  shows "(\<forall>f \<in> set fs. P f) \<Longrightarrow>
    drain nx s (concat (map wire fs) @ y) =
      (case drain nx s y of (gs, t, r, e) \<Rightarrow> (map g fs @ gs, t, r, e))"
proof (induction fs)
  case Nil
  then show ?case by (simp split: prod.splits)
next
  case (Cons f fs)
  then have "nx s (wire f @ concat (map wire fs) @ y) = Inr (Some (g f, s, length (wire f)))"
    by (intro enc) simp
  from drain_item [OF this] Cons show ?case by (simp split: prod.splits)
qed

end

end
