(* ===== verification/Protocol.thy ===== *)
theory Protocol
  imports Framing
begin

text \<open>
  The binary frame protocol, agent-rust/src/protocol/mod.rs: frame types, the v3 frame
  and its encoder, the decoder with its v2 branch, and the incremental \<open>FrameDecoder\<close>.
  JSON message structs of that file are serde data and appear where the agent builds
  them (theory \<open>Agent\<close>).
\<close>

section \<open>Frame types and errors\<close>

datatype frame_type = Handshake | Data | Heartbeat | Close | KeyUpdate | Wakeup | Sleep

fun frame_type_u8 :: "frame_type \<Rightarrow> u8" where
  "frame_type_u8 Handshake = 0x01"
| "frame_type_u8 Data = 0x02"
| "frame_type_u8 Heartbeat = 0x03"
| "frame_type_u8 Close = 0x04"
| "frame_type_u8 KeyUpdate = 0x05"
| "frame_type_u8 Wakeup = 0x06"
| "frame_type_u8 Sleep = 0x07"

datatype protocol_error =
    InvalidMagic u8 u8
  | UnsupportedVersion u8 u8
  | InvalidFrameType u8
  | PayloadTooLarge nat
  | IncompleteFrame nat nat
  | Io string

definition frame_type_try_from :: "u8 \<Rightarrow> protocol_error + frame_type" where
  "frame_type_try_from v =
     (if v = 0x01 then Inr Handshake
      else if v = 0x02 then Inr Data
      else if v = 0x03 then Inr Heartbeat
      else if v = 0x04 then Inr Close
      else if v = 0x05 then Inr KeyUpdate
      else if v = 0x06 then Inr Wakeup
      else if v = 0x07 then Inr Sleep
      else Inl (InvalidFrameType v))"

definition PROTOCOL_VERSION :: u8 where "PROTOCOL_VERSION = 3"
definition MAGIC :: bytes where "MAGIC = [0x48, 0x54]"
definition HEADER_SIZE :: nat where "HEADER_SIZE = 21"
definition MAX_FRAME_SIZE :: nat where "MAX_FRAME_SIZE = 2 ^ 20"
definition V2_HEADER_SIZE :: nat where "V2_HEADER_SIZE = 20"

lemmas protocol_consts = PROTOCOL_VERSION_def MAGIC_def HEADER_SIZE_def MAX_FRAME_SIZE_def
  V2_HEADER_SIZE_def

section \<open>Frames\<close>

record frame =
  fr_version :: u8
  fr_type :: frame_type
  fr_flags :: u8
  fr_seq :: u32
  fr_origin_ts :: u64
  fr_payload :: bytes

definition frame_new :: "frame_type \<Rightarrow> u32 \<Rightarrow> bytes \<Rightarrow> frame" where
  "frame_new ty sq pl = \<lparr>fr_version = PROTOCOL_VERSION, fr_type = ty, fr_flags = 0,
     fr_seq = sq, fr_origin_ts = 0, fr_payload = pl\<rparr>"

definition frame_new_with_ts :: "frame_type \<Rightarrow> u32 \<Rightarrow> u64 \<Rightarrow> bytes \<Rightarrow> frame" where
  "frame_new_with_ts ty sq ts pl = \<lparr>fr_version = PROTOCOL_VERSION, fr_type = ty, fr_flags = 0,
     fr_seq = sq, fr_origin_ts = ts, fr_payload = pl\<rparr>"

definition frame_heartbeat :: "u32 \<Rightarrow> frame" where
  "frame_heartbeat sq = frame_new Heartbeat sq []"

definition frame_close :: "bytes \<Rightarrow> frame" where
  "frame_close reason = frame_new Close 0 reason"

definition frame_encode :: "frame \<Rightarrow> bytes" where
  "frame_encode f =
     MAGIC @ [fr_version f] @ [frame_type_u8 (fr_type f)] @ [fr_flags f]
       @ put_u32 (fr_seq f) @ put_u64 (fr_origin_ts f)
       @ put_u32 (word_of_nat (length (fr_payload f))) @ fr_payload f"

text \<open>The v2 decoder: a 20-byte header with no version byte.\<close>

definition decode_v2 :: "bytes \<Rightarrow> protocol_error + (frame \<times> nat) option" where
  "decode_v2 data =
     (if length data < V2_HEADER_SIZE then Inr None
      else case frame_type_try_from (data ! 2) of
        Inl e \<Rightarrow> Inl e
      | Inr ty \<Rightarrow>
          (let flags = data ! 3;
               sq = get_u32 [data ! 4, data ! 5, data ! 6, data ! 7];
               ts = get_u64 [data ! 8, data ! 9, data ! 10, data ! 11,
                             data ! 12, data ! 13, data ! 14, data ! 15];
               payload_len = unat (get_u32 [data ! 16, data ! 17, data ! 18, data ! 19])
           in if MAX_FRAME_SIZE < payload_len then Inl (PayloadTooLarge payload_len)
              else let total_len = V2_HEADER_SIZE + payload_len
                   in if length data < total_len then Inr None
                      else Inr (Some (\<lparr>fr_version = 2, fr_type = ty, fr_flags = flags,
                             fr_seq = sq, fr_origin_ts = ts,
                             fr_payload = subslice V2_HEADER_SIZE total_len data\<rparr>, total_len))))"

definition frame_decode :: "bytes \<Rightarrow> protocol_error + (frame \<times> nat) option" where
  "frame_decode data =
     (if length data < HEADER_SIZE then Inr None
      else if data ! 0 \<noteq> MAGIC ! 0 \<or> data ! 1 \<noteq> MAGIC ! 1
        then Inl (InvalidMagic (data ! 0) (data ! 1))
      else if data ! 2 < 3 then decode_v2 data
      else case frame_type_try_from (data ! 3) of
        Inl e \<Rightarrow> Inl e
      | Inr ty \<Rightarrow>
          (let flags = data ! 4;
               sq = get_u32 [data ! 5, data ! 6, data ! 7, data ! 8];
               ts = get_u64 [data ! 9, data ! 10, data ! 11, data ! 12,
                             data ! 13, data ! 14, data ! 15, data ! 16];
               payload_len = unat (get_u32 [data ! 17, data ! 18, data ! 19, data ! 20])
           in if MAX_FRAME_SIZE < payload_len then Inl (PayloadTooLarge payload_len)
              else let total_len = HEADER_SIZE + payload_len
                   in if length data < total_len then Inr None
                      else Inr (Some (\<lparr>fr_version = data ! 2, fr_type = ty, fr_flags = flags,
                             fr_seq = sq, fr_origin_ts = ts,
                             fr_payload = subslice HEADER_SIZE total_len data\<rparr>, total_len))))"

section \<open>The incremental decoder\<close>

record frame_decoder =
  fd_buffer :: bytes

definition decoder_new :: frame_decoder where
  "decoder_new = \<lparr>fd_buffer = []\<rparr>"

definition decoder_feed :: "frame_decoder \<Rightarrow> bytes \<Rightarrow> frame_decoder" where
  "decoder_feed d data = d\<lparr>fd_buffer := fd_buffer d @ data\<rparr>"

definition decoder_decode :: "frame_decoder \<Rightarrow> (protocol_error + frame option) \<times> frame_decoder" where
  "decoder_decode d =
     (case frame_decode (fd_buffer d) of
        Inl e \<Rightarrow> (Inl e, d)
      | Inr (Some (f, n)) \<Rightarrow> (Inr (Some f), d\<lparr>fd_buffer := drop n (fd_buffer d)\<rparr>)
      | Inr None \<Rightarrow> (Inr None, d))"

definition decoder_buffer_len :: "frame_decoder \<Rightarrow> nat" where
  "decoder_buffer_len d = length (fd_buffer d)"

text \<open>A client of the decoder calls the two operations in any order.\<close>

datatype decoder_op = Feed bytes | Decode

fun decoder_run :: "frame_decoder \<Rightarrow> decoder_op list
    \<Rightarrow> (protocol_error + frame option) list \<times> frame_decoder" where
  "decoder_run d [] = ([], d)"
| "decoder_run d (Feed x # ops) = decoder_run (decoder_feed d x) ops"
| "decoder_run d (Decode # ops) =
     (case decoder_decode d of (r, d') \<Rightarrow>
        (case decoder_run d' ops of (rs, d'') \<Rightarrow> (r # rs, d'')))"

fun fed_bytes :: "decoder_op list \<Rightarrow> bytes" where
  "fed_bytes [] = []"
| "fed_bytes (Feed x # ops) = x @ fed_bytes ops"
| "fed_bytes (Decode # ops) = fed_bytes ops"

definition frames_of :: "(protocol_error + frame option) list \<Rightarrow> frame list" where
  "frames_of rs = concat (map (\<lambda>r. case r of Inr (Some f) \<Rightarrow> [f] | _ \<Rightarrow> []) rs)"

lemma frames_of_simps [simp]:
  "frames_of [] = []"
  "frames_of (Inl e # rs) = frames_of rs"
  "frames_of (Inr None # rs) = frames_of rs"
  "frames_of (Inr (Some f) # rs) = f # frames_of rs"
  by (simp_all add: frames_of_def)

text \<open>The wire layout of a v2 frame, as the comment in the decoder gives it.\<close>

definition v2_wire :: "frame \<Rightarrow> bytes" where
  "v2_wire f =
     MAGIC @ [frame_type_u8 (fr_type f)] @ [fr_flags f] @ put_u32 (fr_seq f)
       @ put_u64 (fr_origin_ts f) @ put_u32 (word_of_nat (length (fr_payload f))) @ fr_payload f"

section \<open>Library\<close>

lemma try_from_u8 [simp]: "frame_type_try_from (frame_type_u8 t) = Inr t"
  by (cases t) (simp_all add: frame_type_try_from_def)

lemma try_from_Inr: "frame_type_try_from v = Inr t \<Longrightarrow> frame_type_u8 t = v"
  by (auto simp: frame_type_try_from_def split: if_splits)

lemma length_frame_encode: "length (frame_encode f) = HEADER_SIZE + length (fr_payload f)"
  by (simp add: frame_encode_def protocol_consts)

lemma length_v2_wire: "length (v2_wire f) = V2_HEADER_SIZE + length (fr_payload f)"
  by (simp add: v2_wire_def protocol_consts)

lemma payload_len_word:
  "n < 2 ^ 32 \<Longrightarrow> unat (word_of_nat n :: u32) = n"
  unfolding unat_of_nat by simp

text \<open>What a decoded frame tells about the bytes, branch by branch.\<close>

lemma decode_v3_Some:
  assumes "frame_decode data = Inr (Some (f, n))" "\<not> data ! 2 < 3"
  shows "n = HEADER_SIZE + length (fr_payload f)" "n \<le> length data"
    "length (fr_payload f) \<le> MAX_FRAME_SIZE" "fr_version f = data ! 2"
  using assms
  by (auto simp: frame_decode_def Let_def split: if_splits sum.splits)

lemma decode_v2_Some:
  assumes "decode_v2 data = Inr (Some (f, n))"
  shows "n = V2_HEADER_SIZE + length (fr_payload f)" "n \<le> length data"
    "length (fr_payload f) \<le> MAX_FRAME_SIZE" "fr_version f = 2"
  using assms
  by (auto simp: decode_v2_def Let_def split: if_splits sum.splits)

lemma frame_decode_v2: "frame_decode data = Inr (Some (f, n)) \<Longrightarrow> data ! 2 < 3 \<Longrightarrow>
    decode_v2 data = Inr (Some (f, n))"
  by (auto simp: frame_decode_def split: if_splits)

lemma frame_decode_bounds:
  assumes "frame_decode data = Inr (Some (f, n))"
  shows "0 < n" "n \<le> length data" "length (fr_payload f) \<le> MAX_FRAME_SIZE"
proof -
  have "0 < n \<and> n \<le> length data \<and> length (fr_payload f) \<le> MAX_FRAME_SIZE"
  proof (cases "data ! 2 < 3")
    case True
    from decode_v2_Some [OF frame_decode_v2 [OF assms True]] show ?thesis
      by (simp add: V2_HEADER_SIZE_def)
  next
    case False
    from decode_v3_Some [OF assms False] show ?thesis
      by (simp add: HEADER_SIZE_def)
  qed
  then show "0 < n" "n \<le> length data" "length (fr_payload f) \<le> MAX_FRAME_SIZE" by simp_all
qed

lemma decode_v2_short: "length b < V2_HEADER_SIZE \<Longrightarrow> decode_v2 b = Inr None"
  and frame_decode_short: "length b < HEADER_SIZE \<Longrightarrow> frame_decode b = Inr None"
  by (simp_all add: decode_v2_def frame_decode_def)

lemma decode_v2_stable:
  assumes "decode_v2 b \<noteq> Inr None"
  shows "decode_v2 (b @ x) = decode_v2 b"
proof -
  from assms have "V2_HEADER_SIZE \<le> length b"
    using decode_v2_short [of b] by linarith
  then have "\<And>i. i < 20 \<Longrightarrow> (b @ x) ! i = b ! i"
    by (simp add: nth_append protocol_consts)
  with assms show ?thesis
    by (auto simp: decode_v2_def Let_def split: if_splits sum.splits)
qed

lemma frame_decode_stable:
  assumes "frame_decode b \<noteq> Inr None"
  shows "frame_decode (b @ x) = frame_decode b"
proof -
  from assms have "HEADER_SIZE \<le> length b"
    using frame_decode_short [of b] by linarith
  then have "\<And>i. i < 21 \<Longrightarrow> (b @ x) ! i = b ! i"
    by (simp add: nth_append protocol_consts)
  with assms show ?thesis
    by (auto simp: frame_decode_def Let_def decode_v2_stable split: if_splits sum.splits)
qed

text \<open>\<open>Frame::decode\<close> is a framing decoder (it has no state of its own).\<close>

definition frame_nx :: "(unit, protocol_error, frame) decoder" where
  "frame_nx s b =
     (case frame_decode b of
        Inl e \<Rightarrow> Inl e
      | Inr None \<Rightarrow> Inr None
      | Inr (Some (f, n)) \<Rightarrow> Inr (Some (f, (), n)))"

lemma frame_nx_Inl: "frame_nx s b = Inl e \<longleftrightarrow> frame_decode b = Inl e"
  and frame_nx_wait: "frame_nx s b = Inr None \<longleftrightarrow> frame_decode b = Inr None"
  and frame_nx_item: "frame_nx s b = Inr (Some (f, s', n)) \<longleftrightarrow> frame_decode b = Inr (Some (f, n))"
  by (auto simp: frame_nx_def split: sum.splits option.splits)

lemmas frame_nx_iff = frame_nx_Inl frame_nx_wait frame_nx_item

interpretation frames: framing frame_nx
proof unfold_locales
  fix s s' :: unit and b x f n
  assume "frame_nx s b = Inr (Some (f, s', n))"
  then have d: "frame_decode b = Inr (Some (f, n))" by (simp add: frame_nx_iff)
  from frame_decode_bounds [OF d] show "0 < n \<and> n \<le> length b" by simp
  from d show "frame_nx s (b @ x) = Inr (Some (f, s', n))"
    by (simp add: frame_nx_iff frame_decode_stable)
next
  fix s :: unit and b x e
  assume "frame_nx s b = Inl e"
  then show "frame_nx s (b @ x) = Inl e"
    by (simp add: frame_nx_iff frame_decode_stable)
qed

lemma frame_nx_Nil [simp]: "frame_nx s [] = Inr None"
  by (simp add: frame_nx_iff frame_decode_def protocol_consts)

section \<open>Encoding and decoding\<close>

text \<open>
  What the receiving side accepts: a v3 header and a payload of at most 1 MiB. The
  encoder checks neither.
\<close>

definition sendable :: "frame \<Rightarrow> bool" where
  "sendable f \<longleftrightarrow> \<not> fr_version f < 3 \<and> length (fr_payload f) \<le> MAX_FRAME_SIZE"

lemma decode_encode:
  assumes v: "\<not> fr_version f < 3" and len: "length (fr_payload f) < 2 ^ 32"
  shows "frame_decode (frame_encode f @ rest) =
    (if MAX_FRAME_SIZE < length (fr_payload f) then Inl (PayloadTooLarge (length (fr_payload f)))
     else Inr (Some (f, length (frame_encode f))))"
proof -
  let ?len = "word_of_nat (length (fr_payload f)) :: u32"
  obtain s0 s1 s2 s3 where s: "put_u32 (fr_seq f) = [s0, s1, s2, s3]"
    "get_u32 [s0, s1, s2, s3] = fr_seq f" by (rule put_u32_list)
  obtain t0 t1 t2 t3 t4 t5 t6 t7 where
    t: "put_u64 (fr_origin_ts f) = [t0, t1, t2, t3, t4, t5, t6, t7]"
    "get_u64 [t0, t1, t2, t3, t4, t5, t6, t7] = fr_origin_ts f" by (rule put_u64_list)
  obtain l0 l1 l2 l3 where l: "put_u32 ?len = [l0, l1, l2, l3]" "get_u32 [l0, l1, l2, l3] = ?len"
    by (rule put_u32_list)
  have n: "unat ?len = length (fr_payload f)" using len by (rule payload_len_word)
  have enc: "frame_encode f @ rest = [0x48, 0x54, fr_version f, frame_type_u8 (fr_type f),
      fr_flags f, s0, s1, s2, s3, t0, t1, t2, t3, t4, t5, t6, t7, l0, l1, l2, l3]
      @ fr_payload f @ rest"
    by (simp add: frame_encode_def s(1) t(1) l(1) MAGIC_def)
  show ?thesis
    unfolding frame_decode_def length_frame_encode enc
    using v n by (simp add: s(2) t(2) l(2) protocol_consts subslice_def Let_def)
qed

lemma encode_decode_v3:
  assumes d: "frame_decode data = Inr (Some (f, n))" and v: "\<not> data ! 2 < 3"
  shows "take n data = frame_encode f"
proof -
  from decode_v3_Some [OF d v] have n: "n = 21 + length (fr_payload f)" "n \<le> length data"
    by (simp_all add: HEADER_SIZE_def)
  have pl: "fr_payload f = subslice 21 n data"
    and hd: "data ! 0 = 0x48" "data ! Suc 0 = 0x54" "frame_type_u8 (fr_type f) = data ! 3"
      "fr_flags f = data ! 4" "fr_version f = data ! 2"
    and sq: "fr_seq f = get_u32 [data ! 5, data ! 6, data ! 7, data ! 8]"
    and ts: "fr_origin_ts f = get_u64 [data ! 9, data ! 10, data ! 11, data ! 12,
                             data ! 13, data ! 14, data ! 15, data ! 16]"
    and ln: "length (fr_payload f) = unat (get_u32 [data ! 17, data ! 18, data ! 19, data ! 20])"
    using d v by (auto simp: frame_decode_def Let_def protocol_consts try_from_Inr
        split: if_splits sum.splits)
  have len: "put_u32 (word_of_nat (length (fr_payload f)))
      = [data ! 17, data ! 18, data ! 19, data ! 20]"
    by (simp add: ln put_get_u32_list)
  have "take n data = take 21 data @ subslice 21 n data"
    using n by (simp add: subslice_def flip: take_add)
  also have "take 21 data = [data ! 0, data ! 1, data ! 2, data ! 3, data ! 4, data ! 5, data ! 6,
     data ! 7, data ! 8, data ! 9, data ! 10, data ! 11, data ! 12, data ! 13, data ! 14,
     data ! 15, data ! 16, data ! 17, data ! 18, data ! 19, data ! 20]"
    using n by (simp add: take_map_nth upt_rec numeral_eq_Suc)
  finally show ?thesis
    by (simp add: frame_encode_def MAGIC_def hd sq ts put_get_u32_list put_get_u64_list len flip: pl)
qed

lemma encode_decode_v2:
  assumes d: "frame_decode data = Inr (Some (f, n))" and v: "data ! 2 < 3"
  shows "take n data = v2_wire f"
proof -
  note d2 = frame_decode_v2 [OF d v]
  from decode_v2_Some [OF d2] have n: "n = 20 + length (fr_payload f)" "n \<le> length data"
    by (simp_all add: V2_HEADER_SIZE_def)
  have mg: "data ! 0 = 0x48" "data ! Suc 0 = 0x54"
    using d by (auto simp: frame_decode_def MAGIC_def split: if_splits)
  have pl: "fr_payload f = subslice 20 n data"
    and hd: "frame_type_u8 (fr_type f) = data ! 2" "fr_flags f = data ! 3"
    and sq: "fr_seq f = get_u32 [data ! 4, data ! 5, data ! 6, data ! 7]"
    and ts: "fr_origin_ts f = get_u64 [data ! 8, data ! 9, data ! 10, data ! 11,
                             data ! 12, data ! 13, data ! 14, data ! 15]"
    and ln: "length (fr_payload f) = unat (get_u32 [data ! 16, data ! 17, data ! 18, data ! 19])"
    using d2 by (auto simp: decode_v2_def Let_def protocol_consts try_from_Inr
        split: if_splits sum.splits)
  have len: "put_u32 (word_of_nat (length (fr_payload f)))
      = [data ! 16, data ! 17, data ! 18, data ! 19]"
    by (simp add: ln put_get_u32_list)
  have "take n data = take 20 data @ subslice 20 n data"
    using n by (simp add: subslice_def flip: take_add)
  also have "take 20 data = [data ! 0, data ! 1, data ! 2, data ! 3, data ! 4, data ! 5, data ! 6,
     data ! 7, data ! 8, data ! 9, data ! 10, data ! 11, data ! 12, data ! 13, data ! 14,
     data ! 15, data ! 16, data ! 17, data ! 18, data ! 19]"
    using n by (simp add: take_map_nth upt_rec numeral_eq_Suc)
  finally show ?thesis
    by (simp add: v2_wire_def MAGIC_def mg hd sq ts put_get_u32_list put_get_u64_list len flip: pl)
qed

text \<open>A v2 frame whose type byte is below 3 and that meets the v3 length check.\<close>

lemma decode_v2_wire:
  assumes len: "length (fr_payload f) \<le> MAX_FRAME_SIZE"
    and long: "HEADER_SIZE \<le> length (v2_wire f @ rest)"
    and ty: "frame_type_u8 (fr_type f) < 3"
  shows "frame_decode (v2_wire f @ rest) = Inr (Some (f\<lparr>fr_version := 2\<rparr>, length (v2_wire f)))"
proof -
  let ?len = "word_of_nat (length (fr_payload f)) :: u32"
  obtain s0 s1 s2 s3 where s: "put_u32 (fr_seq f) = [s0, s1, s2, s3]"
    "get_u32 [s0, s1, s2, s3] = fr_seq f" by (rule put_u32_list)
  obtain t0 t1 t2 t3 t4 t5 t6 t7 where
    t: "put_u64 (fr_origin_ts f) = [t0, t1, t2, t3, t4, t5, t6, t7]"
    "get_u64 [t0, t1, t2, t3, t4, t5, t6, t7] = fr_origin_ts f" by (rule put_u64_list)
  obtain l0 l1 l2 l3 where l: "put_u32 ?len = [l0, l1, l2, l3]" "get_u32 [l0, l1, l2, l3] = ?len"
    by (rule put_u32_list)
  have n: "unat ?len = length (fr_payload f)"
    using len by (intro payload_len_word) (simp add: MAX_FRAME_SIZE_def)
  have enc: "v2_wire f @ rest = [0x48, 0x54, frame_type_u8 (fr_type f),
      fr_flags f, s0, s1, s2, s3, t0, t1, t2, t3, t4, t5, t6, t7, l0, l1, l2, l3]
      @ fr_payload f @ rest"
    by (simp add: v2_wire_def s(1) t(1) l(1) MAGIC_def)
  have "decode_v2 (v2_wire f @ rest) = Inr (Some (f\<lparr>fr_version := 2\<rparr>, length (v2_wire f)))"
    unfolding decode_v2_def length_v2_wire enc
    using n len by (simp add: s(2) t(2) l(2) protocol_consts subslice_def Let_def)
  moreover have "frame_decode (v2_wire f @ rest) = decode_v2 (v2_wire f @ rest)"
    using long ty unfolding frame_decode_def length_append length_v2_wire enc
    by (simp add: MAGIC_def)
  ultimately show ?thesis by simp
qed

section \<open>Runs of the incremental decoder\<close>

lemma decoder_decode_error: "frame_decode (fd_buffer d) = Inl e \<Longrightarrow> decoder_decode d = (Inl e, d)"
  and decoder_decode_wait: "frame_decode (fd_buffer d) = Inr None \<Longrightarrow> decoder_decode d = (Inr None, d)"
  and decoder_decode_item: "frame_decode (fd_buffer d) = Inr (Some (f, n)) \<Longrightarrow>
    decoder_decode d = (Inr (Some f), d\<lparr>fd_buffer := drop n (fd_buffer d)\<rparr>)"
  by (simp_all add: decoder_decode_def)

lemmas decoder_decode_eqs = decoder_decode_error decoder_decode_wait decoder_decode_item

lemma decoder_run_append:
  "decoder_run d (xs @ ys) =
     (case decoder_run d xs of (rs, d') \<Rightarrow>
        (case decoder_run d' ys of (qs, d'') \<Rightarrow> (rs @ qs, d'')))"
  by (induction d xs rule: decoder_run.induct) (auto split: prod.splits)

lemma fed_bytes_append: "fed_bytes (xs @ ys) = fed_bytes xs @ fed_bytes ys"
  by (induction xs rule: fed_bytes.induct) auto

lemma decoder_run_drain:
  "decoder_run d ops = (rs, d') \<Longrightarrow>
   drain frame_nx () (fd_buffer d @ fed_bytes ops) =
     (case drain frame_nx () (fd_buffer d') of (gs, t, q, e) \<Rightarrow> (frames_of rs @ gs, t, q, e))"
proof (induction d ops arbitrary: rs rule: decoder_run.induct)
  case (1 d)
  then show ?case by (simp split: prod.splits)
next
  case (2 d x ops)
  then show ?case by (simp add: decoder_feed_def)
next
  case (3 d ops)
  show ?case
  proof (cases rule: frames.decoder_cases [of "()" "fd_buffer d"])
    case (error e)
    with 3 show ?thesis
      by (auto simp: frame_nx_iff decoder_decode_eqs split: prod.splits)
  next
    case wait
    with 3 show ?thesis
      by (auto simp: frame_nx_iff decoder_decode_eqs split: prod.splits)
  next
    case (item f s n)
    then have dec: "decoder_decode d = (Inr (Some f), d\<lparr>fd_buffer := drop n (fd_buffer d)\<rparr>)"
      by (simp add: frame_nx_iff decoder_decode_eqs)
    then obtain qs where qs: "decoder_run (d\<lparr>fd_buffer := drop n (fd_buffer d)\<rparr>) ops = (qs, d')"
      "rs = Inr (Some f) # qs" using "3.prems" by (auto split: prod.splits)
    from "3.IH" [OF dec [symmetric] qs(1)] frames.drain_item [OF frames.item_stable [OF item]]
      frames.consumed [OF item] qs(2)
    show ?thesis by (auto split: prod.splits)
  qed
qed

text \<open>An error leaves the buffer alone, so it is the answer to every later call.\<close>

lemma decoder_error_sticky:
  "frame_decode (fd_buffer d) = Inl e \<Longrightarrow> decoder_run d ops = (rs, d') \<Longrightarrow>
   frame_decode (fd_buffer d') = Inl e \<and> (\<forall>r \<in> set rs. r = Inl e)"
  by (induction d ops arbitrary: rs rule: decoder_run.induct)
    (auto simp: decoder_feed_def frame_decode_stable decoder_decode_eqs split: prod.splits)

lemma decoder_run_error:
  "decoder_run d ops = (rs, d') \<Longrightarrow> Inl e \<in> set rs \<Longrightarrow> frame_decode (fd_buffer d') = Inl e"
proof (induction d ops arbitrary: rs rule: decoder_run.induct)
  case (3 d ops)
  obtain r d1 where r: "decoder_decode d = (r, d1)" by (cases "decoder_decode d") auto
  obtain qs where qs: "decoder_run d1 ops = (qs, d')" "rs = r # qs"
    using "3.prems"(1) r by (auto split: prod.splits)
  from "3.IH" [OF r [symmetric] qs(1)] "3.prems"(2) qs decoder_error_sticky [OF _ qs(1)] r show ?case
    by (auto simp: decoder_decode_def split: sum.splits option.splits)
qed auto

lemma sendable_nx:
  "sendable f \<Longrightarrow> frame_nx s (frame_encode f @ y) = Inr (Some (f, s, length (frame_encode f)))"
  by (simp add: sendable_def frame_nx_iff decode_encode MAX_FRAME_SIZE_def)

lemma drain_frames:
  assumes "\<forall>f \<in> set fs. sendable f"
  shows "drain frame_nx () (concat (map frame_encode fs)) = (fs, (), [], None)"
  using frames.drain_encoded [where P = sendable and wire = frame_encode and g = id and s = "()"
      and y = "[]" and fs = fs] assms
  by (simp add: sendable_nx frames.drain_wait)

lemma decoder_run_feeds:
  "decoder_run d (map Feed cs @ ops) = decoder_run (d\<lparr>fd_buffer := fd_buffer d @ concat cs\<rparr>) ops"
  by (induction cs arbitrary: d) (simp_all add: decoder_feed_def)

lemma decoder_run_decodes:
  assumes "\<forall>f \<in> set fs. sendable f" "length fs \<le> k"
  shows "decoder_run \<lparr>fd_buffer = concat (map frame_encode fs)\<rparr> (replicate k Decode) =
    (map (\<lambda>f. Inr (Some f)) fs @ replicate (k - length fs) (Inr None), \<lparr>fd_buffer = []\<rparr>)"
  using assms
proof (induction k arbitrary: fs)
  case 0
  then show ?case by simp
next
  case (Suc k)
  show ?case
  proof (cases fs)
    case Nil
    with Suc.IH [of "[]"] show ?thesis
      by (simp add: decoder_decode_def frame_decode_short HEADER_SIZE_def)
  next
    case (Cons f gs)
    then have "frame_decode (frame_encode f @ concat (map frame_encode gs))
        = Inr (Some (f, length (frame_encode f)))"
      using sendable_nx [of f "()"] Suc.prems by (simp add: frame_nx_iff)
    with Cons Suc show ?thesis by (simp add: decoder_decode_def)
  qed
qed

section \<open>Properties\<close>

text \<open>
  C1: encoding a frame and decoding it gives the frame back and consumes exactly its
  bytes, whatever follows in the buffer, for every v3 frame whose payload fits the
  receiver's limit.
\<close>

theorem frame_roundtrip:
  assumes "\<not> fr_version f < 3" "length (fr_payload f) \<le> MAX_FRAME_SIZE"
  shows "frame_decode (frame_encode f @ rest) = Inr (Some (f, length (frame_encode f)))"
  using assms by (simp add: decode_encode MAX_FRAME_SIZE_def)

theorem frame_roundtrip_witness:
  "frame_decode (frame_encode (frame_new Data 42 [1, 2, 3]) @ [7])
     = Inr (Some (frame_new Data 42 [1, 2, 3], 24))"
  using frame_roundtrip [of "frame_new Data 42 [1, 2, 3]" "[7]"]
  by (simp add: frame_new_def protocol_consts length_frame_encode)

text \<open>
  C3: the decoder is sound. Whatever frame it returns, the bytes it consumed are exactly
  that frame's encoding (the v3 layout, or the documented v2 layout when it reports
  version 2), it never consumes more than it was given, and the payload is within the
  limit.
\<close>

theorem frame_decode_sound:
  assumes "frame_decode data = Inr (Some (f, n))"
  shows "take n data = (if fr_version f < 3 then v2_wire f else frame_encode f)
    \<and> 0 < n \<and> n \<le> length data \<and> length (fr_payload f) \<le> MAX_FRAME_SIZE"
proof (intro conjI)
  show "take n data = (if fr_version f < 3 then v2_wire f else frame_encode f)"
  proof (cases "data ! 2 < 3")
    case True
    from decode_v2_Some(4) [OF frame_decode_v2 [OF assms True]] encode_decode_v2 [OF assms True]
    show ?thesis by simp
  next
    case False
    with decode_v3_Some(4) [OF assms False] encode_decode_v3 [OF assms False] show ?thesis by simp
  qed
qed (rule frame_decode_bounds [OF assms])+

theorem frame_decode_sound_witness:
  "take 21 (frame_encode (frame_heartbeat 99) @ [5]) = frame_encode (frame_heartbeat 99)"
proof -
  have "frame_decode (frame_encode (frame_heartbeat 99) @ [5]) = Inr (Some (frame_heartbeat 99, 21))"
    by (simp add: decode_encode frame_heartbeat_def frame_new_def protocol_consts length_frame_encode)
  from frame_decode_sound [OF this] show ?thesis
    by (simp add: frame_heartbeat_def frame_new_def protocol_consts)
qed

text \<open>
  The sender does not enforce the receiver's limit. A v3 frame with a payload above
  1 MiB is encoded without complaint and makes the peer's decoder fail with
  \<open>PayloadTooLarge\<close>; from then on that decoder answers every call with the same error,
  whatever is fed to it, because the rejected frame is never removed from its buffer.
\<close>

theorem oversized_frame_poisons_decoder:
  assumes "\<not> fr_version f < 3" "MAX_FRAME_SIZE < length (fr_payload f)"
    and "length (fr_payload f) < 2 ^ 32"
    and "decoder_run (decoder_feed decoder_new (frame_encode f)) ops = (rs, d)"
    and "r \<in> set rs"
  shows "r = Inl (PayloadTooLarge (length (fr_payload f)))"
proof -
  have "frame_decode (fd_buffer (decoder_feed decoder_new (frame_encode f)))
      = Inl (PayloadTooLarge (length (fr_payload f)))"
    using decode_encode [OF assms(1,3), of "[]"] assms(2)
    by (simp add: decoder_feed_def decoder_new_def)
  from decoder_error_sticky [OF this assms(4)] assms(5) show ?thesis by simp
qed

theorem oversized_frame_poisons_decoder_witness:
  "fst (decoder_run (decoder_feed decoder_new (frame_encode (frame_new Data 0 (replicate 1048577 0))))
     [Decode]) = [Inl (PayloadTooLarge 1048577)]"
proof -
  let ?f = "frame_new Data 0 (replicate 1048577 0)"
  obtain r d where "decoder_decode (decoder_feed decoder_new (frame_encode ?f)) = (r, d)"
    by (cases "decoder_decode (decoder_feed decoder_new (frame_encode ?f))")
  then have run: "decoder_run (decoder_feed decoder_new (frame_encode ?f)) [Decode] = ([r], d)"
    by simp
  have "r = Inl (PayloadTooLarge (length (fr_payload ?f)))"
    by (rule oversized_frame_poisons_decoder [OF _ _ _ run])
      (simp_all add: frame_new_def protocol_consts)
  with run show ?thesis by (simp add: frame_new_def)
qed

text \<open>
  The incremental decoder is safe at every moment. If what has been fed so far is a
  prefix of the encodings of acceptable frames, cut into chunks in any way and
  interleaved with \<open>decode\<close> calls in any way, then the frames returned so far are a
  prefix of the frames sent, in order, and no call returned an error.
\<close>

theorem decoder_delivers_prefix:
  assumes ok: "\<forall>f \<in> set fs. sendable f"
    and fed: "fed_bytes ops @ missing = concat (map frame_encode fs)"
    and run: "decoder_run decoder_new ops = (rs, d)"
  shows "(\<exists>later. fs = frames_of rs @ later) \<and> (\<forall>e. Inl e \<notin> set rs)"
proof (intro conjI)
  obtain gs t q x where dr: "drain frame_nx () (fd_buffer d) = (gs, t, q, x)"
    by (cases "drain frame_nx () (fd_buffer d)") auto
  with decoder_run_drain [OF run]
  have dl: "drain frame_nx () (fed_bytes ops) = (frames_of rs @ gs, t, q, x)"
    by (simp add: decoder_new_def)
  have all: "drain frame_nx () (fed_bytes ops @ missing) = (fs, (), [], None)"
    unfolding fed by (rule drain_frames [OF ok])
  have x: "x = None"
    using frames.drain_append_Some [of "()" "fed_bytes ops" _ t q _ missing] dl all by (cases x) auto
  with frames.drain_append_None [of "()" "fed_bytes ops" _ t q missing] dl all
  show "\<exists>later. fs = frames_of rs @ later" by (auto split: prod.splits)
  show "\<forall>e. Inl e \<notin> set rs"
    using decoder_run_error [OF run] frames.drain_error dr x by (force simp: frame_nx_iff)
qed

theorem decoder_delivers_prefix_witness:
  "\<exists>later. [frame_heartbeat 1] = frames_of (fst (decoder_run decoder_new
      [Feed (take 9 (frame_encode (frame_heartbeat 1))), Decode])) @ later"
proof -
  let ?ops = "[Feed (take 9 (frame_encode (frame_heartbeat 1))), Decode]"
  obtain rs d where run: "decoder_run decoder_new ?ops = (rs, d)" by (cases "decoder_run decoder_new ?ops")
  have "\<exists>later. [frame_heartbeat 1] = frames_of rs @ later"
    by (rule decoder_delivers_prefix [where missing = "drop 9 (frame_encode (frame_heartbeat 1))",
        OF _ _ run, THEN conjunct1])
      (simp_all add: sendable_def frame_heartbeat_def frame_new_def protocol_consts)
  with run show ?thesis by simp
qed

text \<open>
  C2: and it is complete. Once every byte of the frames has been fed, in whatever
  chunks, as many \<open>decode\<close> calls as there are frames return exactly those frames, in
  order; further calls report that more bytes are needed, and the buffer is empty.
\<close>

theorem decoder_delivers_all:
  assumes "\<forall>f \<in> set fs. sendable f" "concat chunks = concat (map frame_encode fs)"
    and "length fs \<le> k"
  shows "decoder_run decoder_new (map Feed chunks @ replicate k Decode) =
    (map (\<lambda>f. Inr (Some f)) fs @ replicate (k - length fs) (Inr None), decoder_new)"
  using decoder_run_decodes [OF assms(1,3)] assms(2)
  by (simp add: decoder_run_feeds decoder_new_def)

theorem decoder_delivers_all_witness:
  "decoder_run decoder_new
     (map Feed [[], frame_encode (frame_heartbeat 1), []] @ replicate 2 Decode)
     = ([Inr (Some (frame_heartbeat 1)), Inr None], decoder_new)"
  using decoder_delivers_all [of "[frame_heartbeat 1]"
      "[[], frame_encode (frame_heartbeat 1), []]" 2]
  by (simp add: sendable_def frame_heartbeat_def frame_new_def protocol_consts)

text \<open>
  The v2 compatibility of the decoder is partial. A v2 frame (20-byte header, the
  layout its own comment documents) decodes as a version 2 frame only when its type is
  Handshake or Data and at least one byte beyond its header is in the buffer; a v2 frame
  of any other type with zero flags is taken for a v3 frame and rejected as having
  frame type 0; and a v2 frame without payload is never decoded on its own.
\<close>

theorem v2_compatibility_is_partial:
  assumes "length (fr_payload f) \<le> MAX_FRAME_SIZE"
  shows "(fr_payload f @ rest \<noteq> [] \<longrightarrow> fr_type f \<in> {Handshake, Data} \<longrightarrow>
      frame_decode (v2_wire f @ rest) = Inr (Some (f\<lparr>fr_version := 2\<rparr>, length (v2_wire f))))
    \<and> (fr_payload f @ rest \<noteq> [] \<longrightarrow> fr_type f \<notin> {Handshake, Data} \<longrightarrow> fr_flags f = 0 \<longrightarrow>
      frame_decode (v2_wire f @ rest) = Inl (InvalidFrameType 0))
    \<and> (fr_payload f = [] \<longrightarrow> frame_decode (v2_wire f) = Inr None)"
proof (intro conjI impI)
  have long: "HEADER_SIZE \<le> length (v2_wire f @ rest)" if "fr_payload f @ rest \<noteq> []"
    using that by (cases "fr_payload f"; cases rest) (auto simp: length_v2_wire protocol_consts)
  show "frame_decode (v2_wire f @ rest) = Inr (Some (f\<lparr>fr_version := 2\<rparr>, length (v2_wire f)))"
    if "fr_payload f @ rest \<noteq> []" "fr_type f \<in> {Handshake, Data}"
    using that by (intro decode_v2_wire assms long) auto
  show "frame_decode (v2_wire f @ rest) = Inl (InvalidFrameType 0)"
    if ne: "fr_payload f @ rest \<noteq> []" and ty: "fr_type f \<notin> {Handshake, Data}"
      and fl: "fr_flags f = 0"
  proof -
    have "\<not> frame_type_u8 (fr_type f) < 3" using ty by (cases "fr_type f") simp_all
    with long [OF ne] fl show ?thesis
      by (simp add: frame_decode_def v2_wire_def MAGIC_def frame_type_try_from_def)
  qed
  show "frame_decode (v2_wire f) = Inr None" if "fr_payload f = []"
    using that by (simp add: frame_decode_short length_v2_wire protocol_consts)
qed

theorem v2_compatibility_is_partial_witness:
  "frame_decode (v2_wire (frame_new Heartbeat 1 [9])) = Inl (InvalidFrameType 0)"
  using v2_compatibility_is_partial [THEN conjunct2, THEN conjunct1, of "frame_new Heartbeat 1 [9]" "[]"]
  by (simp add: frame_new_def protocol_consts)

end
