(* ===== verification/Rust_Str.thy ===== *)
theory Rust_Str
  imports Rust_Base "HOL-Library.Sublist" "HOL-Library.Char_ord"
begin

text \<open>
  The \<open>str\<close> methods the agent uses, on Isabelle strings read as UTF-8 byte strings: a
  character is one byte, so \<open>len\<close> and slicing count bytes as in Rust. White space and
  letter case are the ASCII ones; the further Unicode white space and case mappings of
  \<open>trim\<close>, \<open>split_whitespace\<close> and \<open>to_lowercase\<close> are not modelled. A slice panics, as in
  Rust, beyond the length and inside a multi-byte character.
\<close>

definition str_bytes :: "string \<Rightarrow> bytes" where
  "str_bytes s = map (\<lambda>c. word_of_nat (of_char c)) s"

text \<open>\<open>String::from_utf8_lossy\<close> on valid UTF-8.\<close>

definition bytes_str :: "bytes \<Rightarrow> string" where
  "bytes_str bs = map (\<lambda>b. char_of (unat b)) bs"

text \<open>
  Slicing at a byte index, \<open>&s[n..]\<close> and \<open>&s[..n]\<close>: \<open>None\<close> is the panic. A byte between
  0x80 and 0xBF continues a character, so no slice may begin there.
\<close>

definition is_continuation :: "char \<Rightarrow> bool" where
  "is_continuation c \<longleftrightarrow> 0x80 \<le> (of_char c :: nat) \<and> (of_char c :: nat) < 0xC0"

definition char_boundary :: "string \<Rightarrow> nat \<Rightarrow> bool" where
  "char_boundary s n \<longleftrightarrow> n = 0 \<or> n = length s \<or> n < length s \<and> \<not> is_continuation (s ! n)"

definition slice_from :: "nat \<Rightarrow> string \<Rightarrow> string option" where
  "slice_from n s = (if char_boundary s n then Some (drop n s) else None)"

definition slice_to :: "nat \<Rightarrow> string \<Rightarrow> string option" where
  "slice_to n s = (if char_boundary s n then Some (take n s) else None)"

text \<open>What every UTF-8 string satisfies: no continuation byte follows an ASCII byte.\<close>

definition utf8_seams :: "string \<Rightarrow> bool" where
  "utf8_seams s \<longleftrightarrow> (\<forall>a x y b. s = a @ x # y # b \<longrightarrow> (of_char x :: nat) < 0x80 \<longrightarrow> \<not> is_continuation y)"

definition str_starts_with :: "string \<Rightarrow> string \<Rightarrow> bool" where
  "str_starts_with s p \<longleftrightarrow> prefix p s"

definition str_ends_with :: "string \<Rightarrow> string \<Rightarrow> bool" where
  "str_ends_with s p \<longleftrightarrow> suffix p s"

fun str_contains :: "string \<Rightarrow> string \<Rightarrow> bool" where
  "str_contains [] p \<longleftrightarrow> p = []"
| "str_contains (c # s) p \<longleftrightarrow> prefix p (c # s) \<or> str_contains s p"

text \<open>\<open>trim_start_matches\<close> and \<open>trim_end_matches\<close> with a string pattern: every repetition goes.\<close>

function trim_start_matches :: "string \<Rightarrow> string \<Rightarrow> string" where
  "trim_start_matches s p = (if p \<noteq> [] \<and> prefix p s then trim_start_matches (drop (length p) s) p else s)"
  by pat_completeness auto
termination
  by (relation "measure (length \<circ> fst)") (auto simp: prefix_def)

declare trim_start_matches.simps [simp del]

definition trim_end_matches :: "string \<Rightarrow> string \<Rightarrow> string" where
  "trim_end_matches s p = rev (trim_start_matches (rev s) (rev p))"

text \<open>With a \<open>char\<close> pattern.\<close>

definition trim_end_char :: "string \<Rightarrow> char \<Rightarrow> string" where
  "trim_end_char s c = rev (dropWhile (\<lambda>x. x = c) (rev s))"

definition is_ws :: "char \<Rightarrow> bool" where
  "is_ws c \<longleftrightarrow> of_char c \<in> ({9, 10, 11, 12, 13, 32} :: nat set)"

definition str_trim :: "string \<Rightarrow> string" where
  "str_trim s = rev (dropWhile is_ws (rev (dropWhile is_ws s)))"

text \<open>\<open>replace\<close>, for a non-empty pattern: non-overlapping matches from the left.\<close>

function str_replace :: "string \<Rightarrow> string \<Rightarrow> string \<Rightarrow> string" where
  "str_replace [] p r = []"
| "str_replace (c # s) p r =
     (if p \<noteq> [] \<and> prefix p (c # s) then r @ str_replace (drop (length p) (c # s)) p r
      else c # str_replace s p r)"
  by pat_completeness auto
termination
  by (relation "measure (\<lambda>(s, p, r). length s)") (auto simp: prefix_def)

text \<open>\<open>split\<close> on a character.\<close>

fun split_on :: "char \<Rightarrow> string \<Rightarrow> string list" where
  "split_on c [] = [[]]"
| "split_on c (x # xs) =
     (if x = c then [] # split_on c xs
      else case split_on c xs of [] \<Rightarrow> [[x]] | y # ys \<Rightarrow> (x # y) # ys)"

definition NL :: char where "NL = CHR 0x0A"
definition CR :: char where "CR = CHR 0x0D"

text \<open>\<open>lines\<close>: the final line ending does not open a line; one \<open>\\r\<close> before \<open>\\n\<close> is removed.\<close>

definition strip_cr :: "string \<Rightarrow> string" where
  "strip_cr l = (if l \<noteq> [] \<and> last l = CR then butlast l else l)"

fun str_lines :: "string \<Rightarrow> string list" where
  "str_lines s =
     (let ls = split_on NL s;
          body = map strip_cr (butlast ls)
      in if last ls = [] then body else body @ [last ls])"

definition split_whitespace :: "string \<Rightarrow> string list" where
  "split_whitespace s = filter (\<lambda>w. w \<noteq> []) (split_on CR (map (\<lambda>c. if is_ws c then CR else c) s))"

definition str_rfind :: "string \<Rightarrow> char \<Rightarrow> nat option" where
  "str_rfind s c =
     (if c \<in> set s then Some (length s - 1 - length (takeWhile (\<lambda>x. x \<noteq> c) (rev s))) else None)"

definition str_find :: "string \<Rightarrow> char \<Rightarrow> nat option" where
  "str_find s c = (if c \<in> set s then Some (length (takeWhile (\<lambda>x. x \<noteq> c) s)) else None)"

definition str_join :: "string \<Rightarrow> string list \<Rightarrow> string" where
  "str_join sep ws = concat (case ws of [] \<Rightarrow> [] | v # vs \<Rightarrow> v # map (\<lambda>w. sep @ w) vs)"

definition char_lower :: "char \<Rightarrow> char" where
  "char_lower c = (if CHR ''A'' \<le> c \<and> c \<le> CHR ''Z'' then char_of (of_char c + 32 :: nat) else c)"

definition str_lower :: "string \<Rightarrow> string" where
  "str_lower s = map char_lower s"

text \<open>Decimal numbers: \<open>format!("{}", n)\<close> and \<open>parse::<u64>()\<close> (an optional \<open>+\<close>, digits, no overflow).\<close>

definition digit_char :: "nat \<Rightarrow> char" where
  "digit_char d = char_of (48 + d)"

definition digit_value :: "char \<Rightarrow> nat option" where
  "digit_value c = (let n = of_char c in if 48 \<le> n \<and> n \<le> 57 then Some (n - 48) else None)"

fun nat_str :: "nat \<Rightarrow> string" where
  "nat_str n = (if n < 10 then [digit_char n] else nat_str (n div 10) @ [digit_char (n mod 10)])"

declare nat_str.simps [simp del]

fun digits_from :: "nat \<Rightarrow> string \<Rightarrow> nat option" where
  "digits_from a [] = Some a"
| "digits_from a (c # s) =
     (case digit_value c of None \<Rightarrow> None | Some d \<Rightarrow> digits_from (a * 10 + d) s)"

definition parse_nat :: "string \<Rightarrow> nat option" where
  "parse_nat s =
     (let t = (case s of c # r \<Rightarrow> if c = CHR ''+'' then r else s | [] \<Rightarrow> [])
      in if t = [] then None else digits_from 0 t)"

definition parse_u64 :: "string \<Rightarrow> u64 option" where
  "parse_u64 s = (case parse_nat s of
     Some n \<Rightarrow> if n < 2 ^ 64 then Some (word_of_nat n) else None
   | None \<Rightarrow> None)"

definition parse_u16 :: "string \<Rightarrow> u16 option" where
  "parse_u16 s = (case parse_nat s of
     Some n \<Rightarrow> if n < 2 ^ 16 then Some (word_of_nat n) else None
   | None \<Rightarrow> None)"

section \<open>Facts\<close>

lemma char_boundary_simps [simp]:
  "char_boundary s 0" "char_boundary s (length s)"
  by (simp_all add: char_boundary_def)

lemma utf8_seams_sublist: "utf8_seams s \<Longrightarrow> sublist t s \<Longrightarrow> utf8_seams t"
  unfolding utf8_seams_def sublist_def by (metis append.assoc append_Cons)

lemma ascii_no_continuation: "(of_char c :: nat) < 0x80 \<Longrightarrow> \<not> is_continuation c"
  by (simp add: is_continuation_def)

lemma ascii_seams: "\<forall>c \<in> set s. (of_char c :: nat) < 0x80 \<Longrightarrow> utf8_seams s"
  by (auto simp: utf8_seams_def ascii_no_continuation)

lemma boundary_after_ascii:
  assumes "utf8_seams (p @ s)" "p \<noteq> []" "(of_char (last p) :: nat) < 0x80"
  shows "char_boundary (p @ s) (length p)"
proof (cases s)
  case (Cons y b)
  have "p @ s = butlast p @ last p # y # b" using Cons assms(2) by (simp flip: append_butlast_last_id)
  with assms(1,3) Cons have "\<not> is_continuation y" by (simp only: utf8_seams_def) blast
  with Cons show ?thesis by (simp add: char_boundary_def nth_append)
qed (simp add: char_boundary_def)

lemma slice_after_ascii:
  "utf8_seams (p @ s) \<Longrightarrow> p \<noteq> [] \<Longrightarrow> (of_char (last p) :: nat) < 0x80 \<Longrightarrow> n = length p \<Longrightarrow>
   slice_from n (p @ s) = Some s"
  by (simp add: slice_from_def boundary_after_ascii)

lemma length_str_bytes [simp]: "length (str_bytes s) = length s"
  by (simp add: str_bytes_def)

lemma bytes_str_inverse [simp]: "bytes_str (str_bytes s) = s"
proof -
  have "char_of (unat (word_of_nat (of_char c) :: u8)) = c" for c :: char
  proof -
    have "(of_char c :: nat) < 256" by simp
    then show ?thesis by (simp add: unat_of_nat)
  qed
  then show ?thesis by (simp add: bytes_str_def str_bytes_def map_idI)
qed

lemma trim_start_Nil [simp]: "trim_start_matches [] p = []"
  by (simp add: trim_start_matches.simps)

lemma trim_start_absent: "\<not> prefix p s \<Longrightarrow> trim_start_matches s p = s"
  by (simp add: trim_start_matches.simps [of s])

lemma trim_start_prefix: "p \<noteq> [] \<Longrightarrow> trim_start_matches (p @ s) p = trim_start_matches s p"
  by (simp add: trim_start_matches.simps [of "p @ s"])

lemma trim_start_done: "p \<noteq> [] \<Longrightarrow> \<not> prefix p (trim_start_matches s p)"
proof (induction s p rule: trim_start_matches.induct)
  case (1 s p)
  then show ?case by (auto simp: trim_start_matches.simps [of s])
qed

lemma trim_end_absent: "\<not> suffix p s \<Longrightarrow> trim_end_matches s p = s"
  by (simp add: trim_end_matches_def trim_start_absent suffix_to_prefix)

lemma trim_end_suffix: "p \<noteq> [] \<Longrightarrow> trim_end_matches (s @ p) p = trim_end_matches s p"
  by (simp add: trim_end_matches_def trim_start_prefix)

lemma trim_end_done: "p \<noteq> [] \<Longrightarrow> \<not> suffix p (trim_end_matches s p)"
  using trim_start_done [of "rev p" "rev s"] by (simp add: trim_end_matches_def suffix_to_prefix)

lemma replace_absent: "\<not> str_contains s p \<Longrightarrow> str_replace s p r = s"
  by (induction s) auto

lemma split_on_not_Nil [simp]: "split_on c s \<noteq> []"
  by (induction s) (auto split: list.split)

lemma split_on_join: "s = str_join [c] (split_on c s)"
proof (induction s)
  case Nil
  then show ?case by (simp add: str_join_def)
next
  case (Cons x s)
  obtain y ys where "split_on c s = y # ys" by (cases "split_on c s") auto
  with Cons show ?case by (simp add: str_join_def)
qed

lemma split_on_pieces: "w \<in> set (split_on c s) \<Longrightarrow> c \<notin> set w"
proof (induction s arbitrary: w)
  case (Cons x s)
  obtain y ys where y: "split_on c s = y # ys" by (cases "split_on c s") auto
  show ?case
  proof (cases "x = c")
    case True
    with Cons show ?thesis by (cases "w = []") auto
  next
    case False
    with Cons y show ?thesis by (cases "w = x # y") auto
  qed
qed simp

lemma split_on_no_sep: "c \<notin> set s \<Longrightarrow> split_on c s = [s]"
  by (induction s) auto

lemma split_on_append: "c \<notin> set a \<Longrightarrow> split_on c (a @ c # b) = a # split_on c b"
  by (induction a) auto

lemma split_on_sublist: "w \<in> set (split_on c s) \<Longrightarrow> sublist w s"
proof (induction s arbitrary: w)
  case (Cons x s)
  obtain y ys where y: "split_on c s = y # ys" by (cases "split_on c s") auto
  have hd: "prefix y s"
    using split_on_join [of s c] y by (cases ys) (auto simp: str_join_def prefix_def)
  show ?case
  proof (cases "x = c \<or> w \<noteq> x # y")
    case True
    with Cons.prems y have "w = [] \<or> w \<in> set (split_on c s)" by (auto split: if_splits)
    with Cons.IH show ?thesis by (auto simp: sublist_Cons_right)
  next
    case False
    with hd show ?thesis by (simp add: prefix_imp_sublist)
  qed
qed simp

lemma strip_cr_prefix: "prefix (strip_cr l) l"
  by (simp add: strip_cr_def prefixeq_butlast)

lemma str_lines_sublist: "l \<in> set (str_lines s) \<Longrightarrow> sublist l s"
proof -
  assume "l \<in> set (str_lines s)"
  then have "l \<in> strip_cr ` set (butlast (split_on NL s)) \<or> l = last (split_on NL s)"
    by (auto simp: Let_def split: if_splits)
  then obtain w where w: "w \<in> set (split_on NL s)" "l = strip_cr w \<or> l = w"
    by (metis imageE in_set_butlastD last_in_set split_on_not_Nil)
  with strip_cr_prefix [of w] have "sublist l w" by auto
  with split_on_sublist [OF w(1)] show ?thesis by (blast intro: sublist_order.order.trans)
qed

lemma str_trim_sublist: "sublist (str_trim s) s"
proof -
  have "suffix (dropWhile is_ws t) t" for t by (rule suffix_dropWhile)
  from this [of s] this [of "rev (dropWhile is_ws s)"]
  have "suffix (dropWhile is_ws s) s" "prefix (str_trim s) (dropWhile is_ws s)"
    by (simp_all add: str_trim_def suffix_to_prefix)
  then show ?thesis by (meson prefix_imp_sublist sublist_order.order.trans suffix_imp_sublist)
qed

text \<open>\<open>rfind\<close> cuts at the last occurrence.\<close>

lemma takeWhile_sep: "c \<notin> set b \<Longrightarrow> takeWhile (\<lambda>x. x \<noteq> c) (b @ c # a) = b"
  by (induction b) auto

lemma rfind_Some:
  assumes "str_rfind s c = Some i"
  shows "s = take i s @ c # drop (Suc i) s" "c \<notin> set (drop (Suc i) s)" "i < length s"
proof -
  from assms have "c \<in> set s" by (simp add: str_rfind_def split: if_splits)
  then obtain a b where s: "s = a @ c # b" "c \<notin> set b" by (metis split_list_last)
  have "takeWhile (\<lambda>x. x \<noteq> c) (rev s) = rev b"
    using s takeWhile_sep [of c "rev b" "rev a"] by simp
  with assms \<open>c \<in> set s\<close> have "i = length a" by (simp add: str_rfind_def s(1))
  with s show "s = take i s @ c # drop (Suc i) s" "c \<notin> set (drop (Suc i) s)" "i < length s" by auto
qed

lemma rfind_None: "str_rfind s c = None \<longleftrightarrow> c \<notin> set s"
  by (simp add: str_rfind_def)

lemma rfind_append: "c \<notin> set b \<Longrightarrow> str_rfind (a @ c # b) c = Some (length a)"
  using takeWhile_sep [of c "rev b" "rev a"] by (simp add: str_rfind_def)

lemma digit_value_char [simp]: "d < 10 \<Longrightarrow> digit_value (digit_char d) = Some d"
  by (simp add: digit_value_def digit_char_def)

lemma digits_from_append: "digits_from a (s @ [c]) =
  (case digits_from a s of None \<Rightarrow> None
   | Some n \<Rightarrow> (case digit_value c of None \<Rightarrow> None | Some d \<Rightarrow> Some (n * 10 + d)))"
  by (induction a s rule: digits_from.induct) (auto split: option.split)

lemma digits_from_nat_str: "digits_from 0 (nat_str n) = Some n"
proof (induction n rule: nat_str.induct)
  case (1 n)
  show ?case
  proof (cases "n < 10")
    case True
    then show ?thesis by (simp add: nat_str.simps [of n])
  next
    case False
    with 1 have "digits_from 0 (nat_str (n div 10)) = Some (n div 10)" by simp
    with False show ?thesis by (simp add: nat_str.simps [of n] digits_from_append)
  qed
qed

lemma nat_str_hd: "nat_str n \<noteq> [] \<and> hd (nat_str n) \<noteq> CHR ''+''"
proof (induction n rule: nat_str.induct)
  case (1 n)
  have "digit_char d \<noteq> CHR ''+''" if "d < 10" for d
    using digit_value_char [OF that] by (auto simp: digit_value_def)
  with 1 show ?case by (cases "n < 10") (auto simp: nat_str.simps [of n])
qed

lemma parse_nat_str [simp]: "parse_nat (nat_str n) = Some n"
  using nat_str_hd [of n] digits_from_nat_str [of n]
  by (cases "nat_str n") (auto simp: parse_nat_def)

lemma parse_u64_str [simp]: "parse_u64 (nat_str (unat w)) = Some w"
  using unat_less_exp [of w] by (simp add: parse_u64_def)

lemma nat_str_inj: "nat_str m = nat_str n \<Longrightarrow> m = n"
  by (metis option.inject parse_nat_str)

end
