(* ===== verification/Crypto.thy ===== *)
theory Crypto
  imports Rust_Str
begin

text \<open>
  The encryption engine, agent-rust/src/crypto/mod.rs: cipher suites, key material, the
  stateful stream encryptor and decryptor, tokens and the hexadecimal codec. The \<open>ring\<close>
  library is a parameter (record \<open>ring_lib\<close>); the laws of its documentation that the code
  relies on are the predicates \<open>ring_sound\<close> and \<open>ring_authentic\<close>. Random bytes (the nonce
  of a chunk, a new key) are arguments.
\<close>

section \<open>Cipher suites and keys\<close>

datatype cipher_suite = ChaCha20Poly1305 | Aes128Gcm

definition cipher_from_str :: "string \<Rightarrow> cipher_suite option" where
  "cipher_from_str s =
     (if s = ''chacha20-poly1305'' \<or> s = ''chacha20'' then Some ChaCha20Poly1305
      else if s = ''aes-128-gcm'' \<or> s = ''aes128'' then Some Aes128Gcm
      else None)"

fun key_len :: "cipher_suite \<Rightarrow> nat" where
  "key_len ChaCha20Poly1305 = 32"
| "key_len Aes128Gcm = 16"

definition nonce_len :: "cipher_suite \<Rightarrow> nat" where
  "nonce_len c = 12"

definition tag_len :: "cipher_suite \<Rightarrow> nat" where
  "tag_len c = 16"

fun cipher_as_str :: "cipher_suite \<Rightarrow> string" where
  "cipher_as_str ChaCha20Poly1305 = ''chacha20-poly1305''"
| "cipher_as_str Aes128Gcm = ''aes-128-gcm''"

datatype crypto_error =
    EncryptFailed
  | DecryptFailed
  | InvalidKeyLength nat nat
  | CiphertextTooShort
  | UnsupportedCipher

record key_info =
  master_key :: bytes
  ki_salt :: bytes
  ki_cipher :: cipher_suite

text \<open>The functions of \<open>ring\<close> the module calls.\<close>

record ring_lib =
  hkdf_expand :: "bytes \<Rightarrow> bytes \<Rightarrow> bytes \<Rightarrow> nat \<Rightarrow> bytes option"
  sha256 :: "bytes \<Rightarrow> bytes"
  aead_seal :: "cipher_suite \<Rightarrow> bytes \<Rightarrow> bytes \<Rightarrow> bytes \<Rightarrow> (bytes \<times> bytes) option"
  aead_open :: "cipher_suite \<Rightarrow> bytes \<Rightarrow> bytes \<Rightarrow> bytes \<Rightarrow> bytes option"
  hmac_sha256 :: "bytes \<Rightarrow> bytes \<Rightarrow> bytes"

definition key_info_new :: "(nat \<Rightarrow> bytes) \<Rightarrow> (nat \<Rightarrow> bytes) \<Rightarrow> cipher_suite \<Rightarrow> crypto_error + key_info" where
  "key_info_new random_key random_salt c =
     Inr \<lparr>master_key = random_key (key_len c), ki_salt = random_salt 32, ki_cipher = c\<rparr>"

definition key_info_from_parts :: "bytes \<Rightarrow> bytes \<Rightarrow> cipher_suite \<Rightarrow> crypto_error + key_info" where
  "key_info_from_parts key salt c =
     (if length key \<noteq> key_len c then Inl (InvalidKeyLength (key_len c) (length key))
      else Inr \<lparr>master_key = key, ki_salt = salt, ki_cipher = c\<rparr>)"

definition fallback_key :: "ring_lib \<Rightarrow> bytes \<Rightarrow> u32 \<Rightarrow> nat \<Rightarrow> bytes" where
  "fallback_key R mk seq n = take n (sha256 R (mk @ put_u32 seq))"

definition derive_chunk_key :: "ring_lib \<Rightarrow> key_info \<Rightarrow> u32 \<Rightarrow> bytes" where
  "derive_chunk_key R ki seq =
     (let info = ''livecdn-chunk-'' @ nat_str (unat seq);
          n = key_len (ki_cipher ki)
      in case hkdf_expand R (ki_salt ki) (master_key ki) (str_bytes info) n of
           Some out \<Rightarrow> out
         | None \<Rightarrow> fallback_key R (master_key ki) seq n)"

section \<open>Stream encryption\<close>

record stream_cipher =
  sc_key_info :: key_info
  sc_seq :: u32

definition stream_cipher_new :: "key_info \<Rightarrow> stream_cipher" where
  "stream_cipher_new ki = \<lparr>sc_key_info = ki, sc_seq = 0\<rparr>"

text \<open>\<open>UnboundKey::new\<close> refuses a key of the wrong length.\<close>

definition encrypt_chunk :: "ring_lib \<Rightarrow> bytes \<Rightarrow> bytes \<Rightarrow> stream_cipher
    \<Rightarrow> (crypto_error + bytes) \<times> stream_cipher" where
  "encrypt_chunk R nonce plaintext s =
     (let ki = sc_key_info s;
          chunk_key = derive_chunk_key R ki (sc_seq s);
          s' = s\<lparr>sc_seq := sc_seq s + 1\<rparr>
      in if length chunk_key \<noteq> key_len (ki_cipher ki) then (Inl EncryptFailed, s')
         else case aead_seal R (ki_cipher ki) chunk_key nonce plaintext of
           None \<Rightarrow> (Inl EncryptFailed, s')
         | Some (ct, tag) \<Rightarrow> (Inr (nonce @ ct @ tag), s'))"

definition decrypt_chunk :: "ring_lib \<Rightarrow> bytes \<Rightarrow> stream_cipher \<Rightarrow> (crypto_error + bytes) \<times> stream_cipher" where
  "decrypt_chunk R d s =
     (let ki = sc_key_info s;
          n = nonce_len (ki_cipher ki)
      in if length d < n + tag_len (ki_cipher ki) then (Inl CiphertextTooShort, s)
         else
           let nonce = take n d;
               chunk_key = derive_chunk_key R ki (sc_seq s);
               s' = s\<lparr>sc_seq := sc_seq s + 1\<rparr>
           in if length chunk_key \<noteq> key_len (ki_cipher ki) then (Inl DecryptFailed, s')
              else case aead_open R (ki_cipher ki) chunk_key nonce (drop n d) of
                None \<Rightarrow> (Inl DecryptFailed, s')
              | Some pt \<Rightarrow> (Inr pt, s'))"

definition decrypt_with_embedded_nonce :: "ring_lib \<Rightarrow> bytes \<Rightarrow> stream_cipher
    \<Rightarrow> (crypto_error + bytes) \<times> stream_cipher" where
  "decrypt_with_embedded_nonce R d s = decrypt_chunk R d s"

section \<open>Hexadecimal and tokens\<close>

definition hex_digit :: "u8 \<Rightarrow> char" where
  "hex_digit d = char_of (if unat d < 10 then 48 + unat d else 87 + unat d)"

definition hex_encode :: "bytes \<Rightarrow> string" where
  "hex_encode d = concat (map (\<lambda>b. [hex_digit (drop_bit 4 b), hex_digit (b AND 15)]) d)"

definition hex_value :: "u8 \<Rightarrow> u8 option" where
  "hex_value b =
     (if 48 \<le> b \<and> b \<le> 57 then Some (b - 48)
      else if 97 \<le> b \<and> b \<le> 102 then Some (b - 97 + 10)
      else if 65 \<le> b \<and> b \<le> 70 then Some (b - 65 + 10)
      else None)"

fun hex_decode_pairs :: "bytes \<Rightarrow> bytes option" where
  "hex_decode_pairs (h # l # rest) =
     (case hex_value h of None \<Rightarrow> None
      | Some hi \<Rightarrow>
          (case hex_value l of None \<Rightarrow> None
           | Some lo \<Rightarrow> map_option (\<lambda>out. (push_bit 4 hi OR lo) # out) (hex_decode_pairs rest)))"
| "hex_decode_pairs _ = Some []"

definition hex_decode :: "string \<Rightarrow> bytes option" where
  "hex_decode s = (if length s mod 2 \<noteq> 0 then None else hex_decode_pairs (str_bytes s))"

definition token_sign :: "ring_lib \<Rightarrow> bytes \<Rightarrow> string \<Rightarrow> string" where
  "token_sign R key d = hex_encode (hmac_sha256 R key (str_bytes d))"

definition token_verify :: "ring_lib \<Rightarrow> bytes \<Rightarrow> string \<Rightarrow> string \<Rightarrow> bool" where
  "token_verify R key d sig =
     (case hex_decode sig of None \<Rightarrow> False | Some s \<Rightarrow> hmac_sha256 R key (str_bytes d) = s)"

section \<open>What the code relies on in ring\<close>

text \<open>
  Documented behaviour: HKDF fills the requested length (up to 255 blocks), SHA-256 has 32
  bytes, sealing keeps the length and yields a 16-byte tag, and opening what was sealed
  under the same key and nonce returns the plaintext.
\<close>

definition ring_sound :: "ring_lib \<Rightarrow> bool" where
  "ring_sound R \<longleftrightarrow>
     (\<forall>salt key info n out. n \<le> 255 * 32 \<longrightarrow> hkdf_expand R salt key info n = Some out \<longrightarrow> length out = n)
     \<and> (\<forall>d. length (sha256 R d) = 32)
     \<and> (\<forall>c key nonce pt ct tag. aead_seal R c key nonce pt = Some (ct, tag) \<longrightarrow>
          length ct = length pt \<and> length tag = 16 \<and> aead_open R c key nonce (ct @ tag) = Some pt)"

text \<open>
  Authenticity, idealised as a law: a chunk sealed under the key of one sequence number
  does not open under the key of another.
\<close>

definition ring_authentic :: "ring_lib \<Rightarrow> key_info \<Rightarrow> bool" where
  "ring_authentic R ki \<longleftrightarrow>
     (\<forall>s s' nonce pt ct tag. s \<noteq> s' \<longrightarrow>
        aead_seal R (ki_cipher ki) (derive_chunk_key R ki s) nonce pt = Some (ct, tag) \<longrightarrow>
        aead_open R (ki_cipher ki) (derive_chunk_key R ki s') nonce (ct @ tag) = None)"

text \<open>A concrete instance, for the witnesses: the chunk key is the sequence number, the tag the
  key, and nothing is hidden.\<close>

definition toy_tag :: "bytes \<Rightarrow> bytes" where
  "toy_tag key = to_be 16 (from_be key)"

definition toy_ring :: ring_lib where
  "toy_ring = \<lparr>
     hkdf_expand = (\<lambda>salt key info n. Some (to_be n (the (parse_nat (bytes_str (drop 14 info)))))),
     sha256 = (\<lambda>d. replicate 32 0),
     aead_seal = (\<lambda>c key nonce pt. Some (pt, toy_tag key)),
     aead_open = (\<lambda>c key nonce d.
        if 16 \<le> length d \<and> drop (length d - 16) d = toy_tag key
        then Some (take (length d - 16) d) else None),
     hmac_sha256 = (\<lambda>key d. to_be 32 (from_be (key @ d)))\<rparr>"

section \<open>Whole streams\<close>

fun encrypt_all :: "ring_lib \<Rightarrow> (bytes \<times> bytes) list \<Rightarrow> stream_cipher
    \<Rightarrow> (crypto_error + bytes) list \<times> stream_cipher" where
  "encrypt_all R [] s = ([], s)"
| "encrypt_all R ((nonce, pt) # ps) s =
     (case encrypt_chunk R nonce pt s of (c, s') \<Rightarrow>
        (case encrypt_all R ps s' of (cs, s'') \<Rightarrow> (c # cs, s'')))"

fun decrypt_all :: "ring_lib \<Rightarrow> bytes list \<Rightarrow> stream_cipher \<Rightarrow> (crypto_error + bytes) list \<times> stream_cipher" where
  "decrypt_all R [] s = ([], s)"
| "decrypt_all R (d # ds) s =
     (case decrypt_chunk R d s of (r, s') \<Rightarrow>
        (case decrypt_all R ds s' of (rs, s'') \<Rightarrow> (r # rs, s'')))"

lemma encrypt_chunk_state: "snd (encrypt_chunk R nonce pt s) = s\<lparr>sc_seq := sc_seq s + 1\<rparr>"
  by (simp add: encrypt_chunk_def Let_def split: option.split prod.split)

lemma decrypt_chunk_state:
  "snd (decrypt_chunk R d s) = (if length d < 28 then s else s\<lparr>sc_seq := sc_seq s + 1\<rparr>)"
  by (simp add: decrypt_chunk_def Let_def nonce_len_def tag_len_def split: option.split)

lemma encrypt_chunk_Inr:
  assumes "encrypt_chunk R nonce pt s = (Inr c, s')"
  obtains ct tag where "c = nonce @ ct @ tag" "s' = s\<lparr>sc_seq := sc_seq s + 1\<rparr>"
    "length (derive_chunk_key R (sc_key_info s) (sc_seq s)) = key_len (ki_cipher (sc_key_info s))"
    "aead_seal R (ki_cipher (sc_key_info s)) (derive_chunk_key R (sc_key_info s) (sc_seq s)) nonce pt
       = Some (ct, tag)"
  using assms by (auto simp: encrypt_chunk_def Let_def split: if_splits option.splits)

text \<open>A chunk met by a decryptor in step, and by one out of step.\<close>

lemma decrypt_in_step:
  assumes R: "ring_sound R" and n: "length nonce = 12" and e: "encrypt_chunk R nonce pt s = (Inr c, s')"
  shows "decrypt_chunk R c s = (Inr pt, s')"
proof -
  from encrypt_chunk_Inr [OF e] obtain ct tag where c: "c = nonce @ ct @ tag"
    "s' = s\<lparr>sc_seq := sc_seq s + 1\<rparr>"
    "length (derive_chunk_key R (sc_key_info s) (sc_seq s)) = key_len (ki_cipher (sc_key_info s))"
    "aead_seal R (ki_cipher (sc_key_info s)) (derive_chunk_key R (sc_key_info s) (sc_seq s)) nonce pt
       = Some (ct, tag)" .
  from R c(4) have "length tag = 16" "aead_open R (ki_cipher (sc_key_info s))
      (derive_chunk_key R (sc_key_info s) (sc_seq s)) nonce (ct @ tag) = Some pt"
    unfolding ring_sound_def by blast+
  with c n show ?thesis by (simp add: decrypt_chunk_def Let_def nonce_len_def tag_len_def)
qed

lemma decrypt_out_of_step:
  assumes R: "ring_sound R" "ring_authentic R (sc_key_info s)" and n: "length nonce = 12"
    and e: "encrypt_chunk R nonce pt s = (Inr c, s')"
    and d: "sc_key_info t = sc_key_info s" "sc_seq t \<noteq> sc_seq s"
  shows "decrypt_chunk R c t = (Inl DecryptFailed, t\<lparr>sc_seq := sc_seq t + 1\<rparr>)"
proof -
  from encrypt_chunk_Inr [OF e] obtain ct tag where c: "c = nonce @ ct @ tag"
    "aead_seal R (ki_cipher (sc_key_info s)) (derive_chunk_key R (sc_key_info s) (sc_seq s)) nonce pt
       = Some (ct, tag)" .
  from R(1) c(2) have "length tag = 16" unfolding ring_sound_def by blast
  moreover from R(2) c(2) d have "aead_open R (ki_cipher (sc_key_info s))
      (derive_chunk_key R (sc_key_info s) (sc_seq t)) nonce (ct @ tag) = None"
    unfolding ring_authentic_def by metis
  ultimately show ?thesis using c(1) n d(1)
    by (simp add: decrypt_chunk_def Let_def nonce_len_def tag_len_def)
qed

definition nonces_ok :: "(bytes \<times> bytes) list \<Rightarrow> bool" where
  "nonces_ok ps \<longleftrightarrow> (\<forall>(n, pt) \<in> set ps. length n = 12)"

lemma encrypt_all_Cons:
  assumes "encrypt_all R ((nonce, pt) # ps) s = (map Inr cs, s'')"
  obtains c cs' s' where "cs = c # cs'" "encrypt_chunk R nonce pt s = (Inr c, s')"
    "encrypt_all R ps s' = (map Inr cs', s'')"
  using assms by (cases cs) (auto split: prod.splits)

lemma decrypt_all_in_step:
  assumes "ring_sound R"
  shows "nonces_ok ps \<Longrightarrow> encrypt_all R ps s = (map Inr cs, s') \<Longrightarrow>
    decrypt_all R cs s = (map (Inr \<circ> snd) ps, s')"
proof (induction ps arbitrary: s cs)
  case (Cons p ps)
  obtain nonce pt where p: "p = (nonce, pt)" by (cases p)
  from Cons.prems(2) [unfolded p] obtain c cs' s1 where c: "cs = c # cs'"
    "encrypt_chunk R nonce pt s = (Inr c, s1)" "encrypt_all R ps s1 = (map Inr cs', s')"
    by (rule encrypt_all_Cons)
  have "length nonce = 12" using Cons.prems(1) by (simp add: nonces_ok_def p)
  from decrypt_in_step [OF assms this c(2)] Cons.IH [OF _ c(3)] Cons.prems(1) show ?case
    by (simp add: c(1) p nonces_ok_def)
qed simp

lemma decrypt_all_out_of_step:
  assumes "ring_sound R"
  shows "ring_authentic R (sc_key_info s) \<Longrightarrow> nonces_ok ps \<Longrightarrow> encrypt_all R ps s = (map Inr cs, s') \<Longrightarrow>
    sc_key_info t = sc_key_info s \<Longrightarrow> sc_seq t \<noteq> sc_seq s \<Longrightarrow>
    fst (decrypt_all R cs t) = replicate (length ps) (Inl DecryptFailed)"
proof (induction ps arbitrary: s t cs)
  case (Cons p ps)
  obtain nonce pt where p: "p = (nonce, pt)" by (cases p)
  from Cons.prems(3) [unfolded p] obtain c cs' s1 where c: "cs = c # cs'"
    "encrypt_chunk R nonce pt s = (Inr c, s1)" "encrypt_all R ps s1 = (map Inr cs', s')"
    by (rule encrypt_all_Cons)
  have n: "length nonce = 12" "nonces_ok ps" using Cons.prems(2) by (auto simp: nonces_ok_def p)
  have s1: "s1 = s\<lparr>sc_seq := sc_seq s + 1\<rparr>" using encrypt_chunk_state [of R nonce pt s] c(2) by simp
  let ?t = "t\<lparr>sc_seq := sc_seq t + 1\<rparr>"
  have "fst (decrypt_all R cs' ?t) = replicate (length ps) (Inl DecryptFailed)"
    using Cons.IH [of s1 cs' ?t] Cons.prems(1,4,5) n(2) c(3) by (simp add: s1)
  with decrypt_out_of_step [OF assms Cons.prems(1) n(1) c(2) Cons.prems(4,5)] show ?case
    by (simp add: c(1) case_prod_unfold)
qed (auto)

section \<open>The hexadecimal codec\<close>

lemma hex_value_digit: "unat d < 16 \<Longrightarrow> hex_value (word_of_nat (of_char (hex_digit d))) = Some d"
proof -
  assume lt: "unat d < 16"
  let ?n = "unat d"
  have d: "d = word_of_nat ?n" by (simp add: word_of_nat_unat)
  have u: "unat (word_of_nat (48 + ?n) :: u8) = 48 + ?n" "unat (word_of_nat (87 + ?n) :: u8) = 87 + ?n"
    using lt by (simp_all only: unat_of_nat) simp_all
  show ?thesis
  proof (cases "?n < 10")
    case True
    then show ?thesis
      using u by (simp add: hex_value_def hex_digit_def word_le_nat_alt del: of_nat_add)
        (simp add: word_of_nat_unat)
  next
    case False
    then show ?thesis
      using u lt by (simp add: hex_value_def hex_digit_def word_le_nat_alt del: of_nat_add)
        (simp add: word_of_nat_unat)
  qed
qed

lemma nibbles: "unat (drop_bit 4 (b :: u8)) < 16" "unat (b AND 15) < 16"
  "push_bit 4 (drop_bit 4 b) OR (b AND 15) = b"
proof -
  have "unat (drop_bit 4 b) = drop_bit 4 (unat b)" by (rule unat_drop_bit_eq)
  then have "unat (drop_bit 4 b) = unat b div 16" by (simp only: drop_bit_eq_div) simp
  then show "unat (drop_bit 4 b) < 16" using unat_less_exp [of b] by simp
  have "b AND 15 = take_bit 4 b" by (simp add: take_bit_eq_mask mask_eq_exp_minus_1)
  moreover have "push_bit 4 (drop_bit 4 b) OR take_bit 4 b = b"
    by (rule bit_eqI)
      (auto simp: bit_or_iff bit_push_bit_iff bit_drop_bit_eq bit_take_bit_iff not_less)
  ultimately show "unat (b AND 15) < 16" "push_bit 4 (drop_bit 4 b) OR (b AND 15) = b"
    by (simp_all only: unsigned_take_bit_eq) (simp add: take_bit_eq_mod)
qed

lemma str_bytes_Cons [simp]:
  "str_bytes [] = []" "str_bytes (c # s) = word_of_nat (of_char c) # str_bytes s"
  "str_bytes (s @ t) = str_bytes s @ str_bytes t"
  by (simp_all add: str_bytes_def)

lemma hex_encode_simps [simp]:
  "hex_encode [] = []"
  "hex_encode (b # bs) = hex_digit (drop_bit 4 b) # hex_digit (b AND 15) # hex_encode bs"
  by (simp_all add: hex_encode_def)

lemma length_hex_encode [simp]: "length (hex_encode bs) = 2 * length bs"
  by (induction bs) simp_all

lemma hex_decode_encode [simp]: "hex_decode (hex_encode bs) = Some bs"
proof -
  have "hex_decode_pairs (str_bytes (hex_encode bs)) = Some bs"
    by (induction bs) (simp_all add: hex_value_digit nibbles)
  then show ?thesis by (simp add: hex_decode_def)
qed

text \<open>Decoding accepts exactly the encodings, in either letter case.\<close>

lemma of_hex_digit: "unat v < 16 \<Longrightarrow> of_char (hex_digit v) = (if unat v < 10 then 48 + unat v else 87 + unat v)"
  by (simp add: hex_digit_def)

lemma of_char_lower: "of_char (char_lower c) =
  (let n = of_char c in if 65 \<le> n \<and> n \<le> 90 then n + 32 else (n :: nat))"
  by (auto simp: char_lower_def less_eq_char_def Let_def)

lemma hex_value_iff:
  "hex_value (word_of_nat (of_char c)) = Some v \<longleftrightarrow> unat v < 16 \<and> char_lower c = hex_digit v"
proof -
  define n where "n = (of_char c :: nat)"
  have n: "n < 256" by (simp add: n_def)
  define b where "b = (word_of_nat n :: u8)"
  have b: "unat b = n" using n by (simp add: b_def unat_of_nat)
  have sub: "b - word_of_nat k = v \<longleftrightarrow> n = unat v + k" if "k \<le> n" for k
  proof -
    have "unat (b - word_of_nat k) = n - k"
      using that n b by (simp add: unat_sub_if' unat_of_nat)
    then show ?thesis using that by (auto simp: word_unat_eq_iff)
  qed
  have 1: "hex_value b = Some v \<longleftrightarrow>
      48 \<le> n \<and> n \<le> 57 \<and> n = unat v + 48 \<or> 97 \<le> n \<and> n \<le> 102 \<and> n = unat v + 87
      \<or> 65 \<le> n \<and> n \<le> 70 \<and> n = unat v + 55"
  proof -
    have le: "48 \<le> b \<longleftrightarrow> 48 \<le> n" "b \<le> 57 \<longleftrightarrow> n \<le> 57" "97 \<le> b \<longleftrightarrow> 97 \<le> n" "b \<le> 102 \<longleftrightarrow> n \<le> 102"
      "65 \<le> b \<longleftrightarrow> 65 \<le> n" "b \<le> 70 \<longleftrightarrow> n \<le> 70"
      by (simp_all add: word_le_nat_alt b)
    have eq: "b - 97 + 10 = b - word_of_nat 87" "b - 65 + 10 = b - word_of_nat 55" "b - 48 = b - word_of_nat 48"
      by simp_all
    show ?thesis unfolding hex_value_def le eq using sub [of 48] sub [of 87] sub [of 55]
      by (cases "n \<le> 57"; cases "n \<le> 70"; cases "n \<le> 102"; simp; linarith)
  qed
  have 2: "unat v < 16 \<and> char_lower c = hex_digit v \<longleftrightarrow> unat v < 16 \<and>
      (if 65 \<le> n \<and> n \<le> 90 then n + 32 else n) = (if unat v < 10 then 48 + unat v else 87 + unat v)"
  proof (rule conj_cong [OF refl])
    assume v: "unat v < 16"
    have "char_lower c = hex_digit v \<longleftrightarrow> (of_char (char_lower c) :: nat) = of_char (hex_digit v)"
      by simp
    then show "char_lower c = hex_digit v \<longleftrightarrow>
        (if 65 \<le> n \<and> n \<le> 90 then n + 32 else n) = (if unat v < 10 then 48 + unat v else 87 + unat v)"
      unfolding of_char_lower of_hex_digit [OF v] Let_def n_def .
  qed
  have 3: "(48 \<le> n \<and> n \<le> 57 \<and> n = m + 48 \<or> 97 \<le> n \<and> n \<le> 102 \<and> n = m + 87
      \<or> 65 \<le> n \<and> n \<le> 70 \<and> n = m + 55) \<longleftrightarrow>
      m < 16 \<and> (if 65 \<le> n \<and> n \<le> 90 then n + 32 else n) = (if m < 10 then 48 + m else 87 + m)" for m
    by (auto split: if_splits)
  show ?thesis unfolding n_def [symmetric] b_def [symmetric] 1 2 by (rule 3)
qed

lemma hex_join:
  assumes "unat (hi :: u8) < 16" "unat (lo :: u8) < 16"
  shows "drop_bit 4 (push_bit 4 hi OR lo) = hi" "(push_bit 4 hi OR lo) AND 15 = lo"
proof -
  have hi: "take_bit 4 hi = hi" and lo: "take_bit 4 lo = lo"
    using assms by (simp_all only: word_unat_eq_iff unsigned_take_bit_eq) (simp_all add: take_bit_eq_mod)
  have bits: "bit hi k \<Longrightarrow> k < 4" "bit lo k \<Longrightarrow> k < 4" for k
    by (metis hi bit_take_bit_iff) (metis lo bit_take_bit_iff)
  show "drop_bit 4 (push_bit 4 hi OR lo) = hi"
    by (rule bit_eqI) (auto simp: bit_drop_bit_eq bit_or_iff bit_push_bit_iff dest: bits)
  have "(push_bit 4 hi OR lo) AND 15 = take_bit 4 (push_bit 4 hi OR lo)"
    by (simp add: take_bit_eq_mask mask_eq_exp_minus_1)
  also have "\<dots> = lo"
    by (rule bit_eqI) (auto simp: bit_take_bit_iff bit_or_iff bit_push_bit_iff dest: bits)
  finally show "(push_bit 4 hi OR lo) AND 15 = lo" .
qed

lemma hex_decode_pairs_iff:
  "even (length s) \<Longrightarrow> hex_decode_pairs (str_bytes s) = Some bs \<longleftrightarrow> str_lower s = hex_encode bs"
proof (induction "length s" arbitrary: s bs rule: less_induct)
  case less
  show ?case
  proof (cases s)
    case Nil
    then show ?thesis by (cases bs) (auto simp: str_lower_def)
  next
    case (Cons h s1)
    then obtain l r where s: "s = h # l # r" using less.prems by (cases s1) auto
    have ih: "hex_decode_pairs (str_bytes r) = Some cs \<longleftrightarrow> str_lower r = hex_encode cs" for cs
      using less.hyps [of r cs] less.prems by (simp add: s)
    show ?thesis
    proof (cases bs)
      case Nil
      then show ?thesis by (auto simp: s str_lower_def split: option.split)
    next
      case (Cons b cs)
      have "hex_decode_pairs (str_bytes s) = Some bs \<longleftrightarrow>
          (\<exists>hi lo. hex_value (word_of_nat (of_char h)) = Some hi \<and> hex_value (word_of_nat (of_char l)) = Some lo
             \<and> push_bit 4 hi OR lo = b) \<and> hex_decode_pairs (str_bytes r) = Some cs"
        by (auto simp: s Cons split: option.splits)
      also have "\<dots> \<longleftrightarrow> char_lower h = hex_digit (drop_bit 4 b) \<and> char_lower l = hex_digit (b AND 15)
          \<and> str_lower r = hex_encode cs"
        unfolding hex_value_iff ih using nibbles [of b] hex_join by metis
      finally show ?thesis by (auto simp: s Cons str_lower_def)
    qed
  qed
qed

lemma hex_decode_iff: "hex_decode s = Some bs \<longleftrightarrow> str_lower s = hex_encode bs"
proof (cases "even (length s)")
  case True
  then show ?thesis
    by (simp add: hex_decode_def hex_decode_pairs_iff even_iff_mod_2_eq_zero [symmetric])
next
  case False
  moreover have "even (length s)" if "str_lower s = hex_encode bs"
    using arg_cong [OF that, of length] by (simp add: str_lower_def)
  ultimately show ?thesis by (auto simp: hex_decode_def odd_iff_mod_2_eq_one)
qed

section \<open>The toy library meets the assumptions\<close>

lemma toy_chunk_key: "derive_chunk_key toy_ring ki seq = to_be (key_len (ki_cipher ki)) (unat seq)"
proof -
  have "drop 14 (str_bytes (''livecdn-chunk-'' @ t)) = str_bytes t" for t
    by (simp add: str_bytes_def)
  then show ?thesis by (simp add: derive_chunk_key_def toy_ring_def Let_def)
qed

lemma toy_simps [simp]:
  "aead_seal toy_ring c key nonce pt = Some (pt, toy_tag key)"
  "aead_open toy_ring c key nonce d =
    (if 16 \<le> length d \<and> drop (length d - 16) d = toy_tag key then Some (take (length d - 16) d) else None)"
  "length (toy_tag key) = 16"
  by (simp_all add: toy_ring_def toy_tag_def)

lemma toy_sound: "ring_sound toy_ring"
  by (auto simp: ring_sound_def) (auto simp: toy_ring_def)

lemma toy_authentic: "ring_authentic toy_ring ki"
proof -
  have tag: "toy_tag (derive_chunk_key toy_ring ki s) = to_be 16 (unat s)" for s
  proof -
    have "unat s < 2 ^ 32" using unat_less_exp [of s] by simp
    then show ?thesis
      by (cases "ki_cipher ki") (simp_all add: toy_tag_def toy_chunk_key from_be_to_be)
  qed
  have "to_be 16 (unat s) \<noteq> to_be 16 (unat s')" if "s \<noteq> s'" for s s' :: u32
  proof
    assume "to_be 16 (unat s) = to_be 16 (unat s')"
    then have "from_be (to_be 16 (unat s)) = from_be (to_be 16 (unat s'))" by simp
    then have "unat s = unat s'"
      using unat_less_exp [of s] unat_less_exp [of s'] by (simp add: from_be_to_be)
    with that show False by (simp add: word_unat_eq_iff)
  qed
  then show ?thesis
    by (auto simp: ring_authentic_def tag)
qed

section \<open>Properties\<close>

text \<open>
  C18: stream encryption is invertible. Whatever chunks are encrypted with whatever nonces,
  a decryptor with the same key material and in step with the encryptor recovers every
  plaintext in order and ends in step with it (so this composes over any length, through
  the wrap of the 32-bit sequence number).
\<close>

theorem decrypt_inverts_encrypt:
  assumes "ring_sound R" and "nonces_ok ps" and "encrypt_all R ps s = (map Inr cs, s')"
  shows "decrypt_all R cs s = (map (Inr \<circ> snd) ps, s')
    \<and> sc_seq s' = sc_seq s + word_of_nat (length ps)"
proof
  show "decrypt_all R cs s = (map (Inr \<circ> snd) ps, s')"
    by (rule decrypt_all_in_step [OF assms])
  have "sc_seq (snd (encrypt_all R qs t)) = sc_seq t + word_of_nat (length qs)" for qs t
  proof (induction qs arbitrary: t)
    case (Cons q qs)
    obtain n p where q: "q = (n, p)" by (cases q)
    from Cons.IH [of "snd (encrypt_chunk R n p t)"] show ?case
      by (simp add: q case_prod_unfold encrypt_chunk_state)
  qed simp
  from this [of ps s] show "sc_seq s' = sc_seq s + word_of_nat (length ps)" by (simp add: assms(3))
qed

theorem decrypt_inverts_encrypt_witness:
  "\<exists>cs s. encrypt_all toy_ring [(replicate 12 1, [1, 2, 3]), (replicate 12 2, [])]
       (stream_cipher_new \<lparr>master_key = replicate 32 5, ki_salt = [], ki_cipher = ChaCha20Poly1305\<rparr>)
       = (map Inr cs, s)
     \<and> fst (decrypt_all toy_ring cs
         (stream_cipher_new \<lparr>master_key = replicate 32 5, ki_salt = [], ki_cipher = ChaCha20Poly1305\<rparr>))
       = [Inr [1, 2, 3], Inr []]"
proof -
  let ?s = "stream_cipher_new \<lparr>master_key = replicate 32 5, ki_salt = [], ki_cipher = ChaCha20Poly1305\<rparr>"
  let ?ps = "[(replicate 12 1, [1, 2, 3]), (replicate 12 2, [])]"
  obtain c1 c2 s where "encrypt_all toy_ring ?ps ?s = ([Inr c1, Inr c2], s)"
    by (simp add: encrypt_chunk_def toy_chunk_key stream_cipher_new_def Let_def)
  then have e: "encrypt_all toy_ring ?ps ?s = (map Inr [c1, c2], s)" by simp
  have "nonces_ok ?ps" by (simp add: nonces_ok_def)
  from decrypt_inverts_encrypt [OF toy_sound this e] e show ?thesis by fastforce
qed

text \<open>
  C31: what one bad chunk costs. Let a decryptor in step with the encryptor receive \<open>d\<close>
  instead of the first of several chunks. If \<open>d\<close> has at least the 28 bytes of a nonce and
  a tag, only that chunk is lost: the sequence number advances and the rest decrypts. If
  \<open>d\<close> is shorter, the early return leaves the sequence number behind, and every later chunk
  fails to decrypt, for ever.
\<close>

theorem short_chunk_desynchronises:
  assumes "ring_sound R" "ring_authentic R (sc_key_info s)" "nonces_ok ((nonce, pt) # ps)"
    and "encrypt_all R ((nonce, pt) # ps) s = (map Inr (c # cs), s')"
  shows "(28 \<le> length d \<longrightarrow> tl (fst (decrypt_all R (d # cs) s)) = map (Inr \<circ> snd) ps)
    \<and> (length d < 28 \<longrightarrow> fst (decrypt_all R (d # cs) s) =
         Inl CiphertextTooShort # replicate (length ps) (Inl DecryptFailed))"
proof -
  from assms(4) obtain s1 where e: "encrypt_chunk R nonce pt s = (Inr c, s1)"
    "encrypt_all R ps s1 = (map Inr cs, s')"
    by (auto split: prod.splits)
  have s1: "s1 = s\<lparr>sc_seq := sc_seq s + 1\<rparr>" using encrypt_chunk_state [of R nonce pt s] e(1) by simp
  have n: "nonces_ok ps" using assms(3) by (simp add: nonces_ok_def)
  have "tl (fst (decrypt_all R (d # cs) s)) = map (Inr \<circ> snd) ps" if "28 \<le> length d"
    using decrypt_chunk_state [of R d s] that decrypt_all_in_step [OF assms(1) n e(2)] s1
    by (simp add: case_prod_unfold)
  moreover have "fst (decrypt_all R (d # cs) s) =
      Inl CiphertextTooShort # replicate (length ps) (Inl DecryptFailed)" if "length d < 28"
  proof -
    have "decrypt_chunk R d s = (Inl CiphertextTooShort, s)"
      using that by (simp add: decrypt_chunk_def Let_def nonce_len_def tag_len_def)
    moreover have "fst (decrypt_all R cs s) = replicate (length ps) (Inl DecryptFailed)"
      by (rule decrypt_all_out_of_step [OF assms(1) _ n e(2)]) (use assms(2) s1 in auto)
    ultimately show ?thesis by (simp add: case_prod_unfold)
  qed
  ultimately show ?thesis by blast
qed

theorem short_chunk_desynchronises_witness:
  "\<exists>c1 c2. encrypt_all toy_ring [(replicate 12 1, [1]), (replicate 12 2, [2])]
       (stream_cipher_new \<lparr>master_key = [], ki_salt = [], ki_cipher = Aes128Gcm\<rparr>)
       = (map Inr [c1, c2],
          \<lparr>sc_key_info = \<lparr>master_key = [], ki_salt = [], ki_cipher = Aes128Gcm\<rparr>, sc_seq = 2\<rparr>)
     \<and> fst (decrypt_all toy_ring [[7], c2]
         (stream_cipher_new \<lparr>master_key = [], ki_salt = [], ki_cipher = Aes128Gcm\<rparr>))
       = [Inl CiphertextTooShort, Inl DecryptFailed]"
proof -
  let ?s = "stream_cipher_new \<lparr>master_key = [], ki_salt = [], ki_cipher = Aes128Gcm\<rparr>"
  let ?ps = "[(replicate 12 1, [1]), (replicate 12 2, [2])]"
  let ?s2 = "\<lparr>sc_key_info = \<lparr>master_key = [], ki_salt = [], ki_cipher = Aes128Gcm\<rparr>, sc_seq = 2\<rparr>"
  obtain c1 c2 where "encrypt_all toy_ring ?ps ?s = ([Inr c1, Inr c2], ?s2)"
    by (simp add: encrypt_chunk_def toy_chunk_key stream_cipher_new_def Let_def)
  then have e: "encrypt_all toy_ring ?ps ?s = (map Inr [c1, c2], ?s2)" by simp
  have "nonces_ok ?ps" by (simp add: nonces_ok_def)
  from short_chunk_desynchronises [OF toy_sound toy_authentic this e, of "[7]"] e
  show ?thesis by fastforce
qed

text \<open>
  A viewer must start at chunk 0. A decryptor whose sequence number differs from the
  encryptor's (a late joiner starts at 0) decrypts nothing, however long it listens.
\<close>

theorem late_joiner_decrypts_nothing:
  assumes "ring_sound R" "ring_authentic R (sc_key_info s)" "nonces_ok ps"
    and "encrypt_all R ps s = (map Inr cs, s')" and "sc_seq s \<noteq> 0"
  shows "fst (decrypt_all R cs (stream_cipher_new (sc_key_info s)))
    = replicate (length ps) (Inl DecryptFailed)"
  by (rule decrypt_all_out_of_step [OF assms(1-4)])
    (use assms(5) in \<open>auto simp: stream_cipher_new_def\<close>)

theorem late_joiner_decrypts_nothing_witness:
  "\<exists>c s. encrypt_all toy_ring [(replicate 12 1, [1])]
       \<lparr>sc_key_info = \<lparr>master_key = [], ki_salt = [], ki_cipher = Aes128Gcm\<rparr>, sc_seq = 3\<rparr> = (map Inr [c], s)
     \<and> fst (decrypt_all toy_ring [c]
         (stream_cipher_new \<lparr>master_key = [], ki_salt = [], ki_cipher = Aes128Gcm\<rparr>)) = [Inl DecryptFailed]"
proof -
  let ?s = "\<lparr>sc_key_info = \<lparr>master_key = [], ki_salt = [], ki_cipher = Aes128Gcm\<rparr>, sc_seq = 3\<rparr>"
  obtain c s where "encrypt_all toy_ring [(replicate 12 1, [1])] ?s = ([Inr c], s)"
    by (simp add: encrypt_chunk_def toy_chunk_key Let_def)
  then have e: "encrypt_all toy_ring [(replicate 12 1, [1])] ?s = (map Inr [c], s)" by simp
  have "nonces_ok [(replicate 12 1, [1])]" by (simp add: nonces_ok_def)
  from late_joiner_decrypts_nothing [OF toy_sound toy_authentic this e] e show ?thesis by fastforce
qed

text \<open>
  Tokens. The verifier accepts exactly the signature the signer produces, up to the
  case of its hexadecimal digits; in particular it accepts what was signed, and rejects
  every other string (odd length and non-hex characters included).
\<close>

theorem token_verify_iff:
  "token_verify R key d sig \<longleftrightarrow> str_lower sig = token_sign R key d"
  by (auto simp: token_verify_def token_sign_def hex_decode_iff split: option.split)
    (metis hex_decode_iff option.simps(3), metis hex_decode_encode option.inject)

text \<open>
  The hexadecimal codec. Decoding inverts encoding, and what decodes is the encoding
  of the result in some letter case.
\<close>

theorem hex_codec:
  "hex_decode (hex_encode bs) = Some bs \<and> (hex_decode s = Some bs \<longleftrightarrow> str_lower s = hex_encode bs)
    \<and> length (hex_encode bs) = 2 * length bs"
  by (simp add: hex_decode_iff)

end
