(* ===== verification/Rust_F64.thy ===== *)
theory Rust_F64
  imports Complex_Main Rust_Base
begin

text \<open>
  The \<open>f64\<close> values of the agent, idealised: a finite value is an exact real (rounding and
  overflow of finite results are not modelled, and there is one zero), but the special
  values are kept, because the code divides by configured values that can be zero. Also
  \<open>Duration::from_secs_f64\<close>, which panics on them, and the saturating \<open>as u64\<close>.
\<close>

text \<open>Counters read as reals stay \<open>real (unat w)\<close>.\<close>

declare of_nat_unat [simp del]

datatype f64 = Fin real | PInf | NInf | NaN

fun f64_neg :: "f64 \<Rightarrow> f64" where
  "f64_neg (Fin x) = Fin (- x)"
| "f64_neg PInf = NInf"
| "f64_neg NInf = PInf"
| "f64_neg NaN = NaN"

fun f64_add :: "f64 \<Rightarrow> f64 \<Rightarrow> f64" where
  "f64_add (Fin x) (Fin y) = Fin (x + y)"
| "f64_add NaN _ = NaN"
| "f64_add _ NaN = NaN"
| "f64_add PInf NInf = NaN"
| "f64_add NInf PInf = NaN"
| "f64_add PInf _ = PInf"
| "f64_add _ PInf = PInf"
| "f64_add NInf _ = NInf"
| "f64_add _ NInf = NInf"

definition f64_inf_sign :: "real \<Rightarrow> f64" where
  "f64_inf_sign s = (if s > 0 then PInf else if s < 0 then NInf else NaN)"

fun f64_sign :: "f64 \<Rightarrow> real" where
  "f64_sign (Fin x) = sgn x"
| "f64_sign PInf = 1"
| "f64_sign NInf = - 1"
| "f64_sign NaN = 0"

text \<open>An infinite factor: the sign of the product, \<open>NaN\<close> for \<open>inf * 0\<close>.\<close>

fun f64_mul :: "f64 \<Rightarrow> f64 \<Rightarrow> f64" where
  "f64_mul (Fin x) (Fin y) = Fin (x * y)"
| "f64_mul a b = f64_inf_sign (f64_sign a * f64_sign b)"

text \<open>\<open>x / 0\<close> is infinite with the sign of \<open>x\<close>, \<open>0 / 0\<close> and \<open>inf / inf\<close> are \<open>NaN\<close>.\<close>

fun f64_div :: "f64 \<Rightarrow> f64 \<Rightarrow> f64" where
  "f64_div (Fin x) (Fin y) = (if y = 0 then f64_inf_sign x else Fin (x / y))"
| "f64_div NaN _ = NaN"
| "f64_div _ NaN = NaN"
| "f64_div (Fin x) _ = Fin 0"
| "f64_div a (Fin y) = f64_inf_sign (f64_sign a * (if y < 0 then - 1 else 1))"
| "f64_div _ _ = NaN"

fun f64_lt :: "f64 \<Rightarrow> f64 \<Rightarrow> bool" where
  "f64_lt (Fin x) (Fin y) \<longleftrightarrow> x < y"
| "f64_lt NaN _ \<longleftrightarrow> False"
| "f64_lt _ NaN \<longleftrightarrow> False"
| "f64_lt NInf b \<longleftrightarrow> b \<noteq> NInf"
| "f64_lt a PInf \<longleftrightarrow> a \<noteq> PInf"
| "f64_lt _ _ \<longleftrightarrow> False"

definition f64_ge :: "f64 \<Rightarrow> f64 \<Rightarrow> bool" where
  "f64_ge a b \<longleftrightarrow> a \<noteq> NaN \<and> b \<noteq> NaN \<and> \<not> f64_lt a b"

text \<open>\<open>f64::min\<close> and \<open>f64::max\<close> return the other argument when one is \<open>NaN\<close>.\<close>

definition f64_min :: "f64 \<Rightarrow> f64 \<Rightarrow> f64" where
  "f64_min a b = (if a = NaN then b else if b = NaN then a else if f64_lt b a then b else a)"

definition f64_max :: "f64 \<Rightarrow> f64 \<Rightarrow> f64" where
  "f64_max a b = (if a = NaN then b else if b = NaN then a else if f64_lt a b then b else a)"

text \<open>\<open>as u64\<close>: truncation, saturating, \<open>NaN\<close> to 0.\<close>

fun f64_as_u64 :: "f64 \<Rightarrow> u64" where
  "f64_as_u64 (Fin x) =
     (if x \<le> 0 then 0 else if x \<ge> 2 ^ 64 then - 1 else word_of_nat (nat \<lfloor>x\<rfloor>))"
| "f64_as_u64 PInf = - 1"
| "f64_as_u64 _ = 0"

definition u64_as_f64 :: "u64 \<Rightarrow> f64" where
  "u64_as_f64 w = Fin (real (unat w))"

text \<open>
  A \<open>Duration\<close> is a non-negative number of seconds below \<open>2 ^ 64\<close>; \<open>from_secs_f64\<close> panics
  (\<open>None\<close>) on anything else.
\<close>

type_synonym duration = real

fun duration_from_secs_f64 :: "f64 \<Rightarrow> duration option" where
  "duration_from_secs_f64 (Fin x) = (if 0 \<le> x \<and> x < 2 ^ 64 then Some x else None)"
| "duration_from_secs_f64 _ = None"

lemma f64_min_Fin [simp]: "f64_min (Fin x) (Fin y) = Fin (min x y)"
  by (simp add: f64_min_def min_def)

lemma f64_max_Fin [simp]: "f64_max (Fin x) (Fin y) = Fin (max x y)"
  by (auto simp: f64_max_def max_def)

lemma f64_ge_Fin [simp]: "f64_ge (Fin x) (Fin y) \<longleftrightarrow> x \<ge> y"
  by (auto simp: f64_ge_def)

lemma u64_as_u64 [simp]: "f64_as_u64 (u64_as_f64 w) = w"
proof (cases "w = 0")
  case True
  then show ?thesis by (simp add: u64_as_f64_def)
next
  case False
  then have "0 < unat w" by (simp add: unat_gt_0)
  moreover have "real (unat w) < real (2 ^ 64)"
    using unat_less_exp [of w] by (simp only: of_nat_less_iff) simp
  moreover have "nat \<lfloor>real (unat w)\<rfloor> = unat w"
    by (metis floor_of_nat nat_int)
  ultimately show ?thesis by (simp add: u64_as_f64_def not_le word_of_nat_unat)
qed

end
