(* ===== verification/Playlist.thy ===== *)
theory Playlist
  imports Rust_F64 Rust_Str
begin

text \<open>
  The HLS playlist parser, \<open>parse_m3u8\<close> and \<open>resolve_url\<close> of agent-rust/src/relay/mod.rs,
  with \<open>parse::<f64>\<close> of the standard library as exact decimal arithmetic. A slice out of
  range panics; the parser's result is then \<open>None\<close>.
\<close>

section \<open>Floating-point literals\<close>

definition is_digit :: "char \<Rightarrow> bool" where
  "is_digit c \<longleftrightarrow> digit_value c \<noteq> None"

definition split_sign :: "string \<Rightarrow> bool \<times> string" where
  "split_sign s = (case s of
     c # r \<Rightarrow> if c = CHR ''-'' then (True, r) else if c = CHR ''+'' then (False, r) else (False, s)
   | [] \<Rightarrow> (False, []))"

definition parse_exponent :: "string \<Rightarrow> int option" where
  "parse_exponent s = (case s of
     [] \<Rightarrow> Some 0
   | c # r \<Rightarrow>
       (if c = CHR ''e'' \<or> c = CHR ''E'' then
          (case split_sign r of (neg, ds) \<Rightarrow>
             if ds = [] then None
             else map_option (\<lambda>n. if neg then - int n else int n) (digits_from 0 ds))
        else None))"

definition parse_f64 :: "string \<Rightarrow> f64 option" where
  "parse_f64 s =
     (case split_sign s of (neg, t) \<Rightarrow>
        (let l = str_lower t in
         if l = ''inf'' \<or> l = ''infinity'' then Some (if neg then NInf else PInf)
         else if l = ''nan'' then Some NaN
         else
           let ip = takeWhile is_digit t;
               r = dropWhile is_digit t;
               (fp, r2) = (case r of
                  c # q \<Rightarrow> if c = CHR ''.'' then (takeWhile is_digit q, dropWhile is_digit q) else ([], r)
                | [] \<Rightarrow> ([], []))
           in if ip = [] \<and> fp = [] then None
              else case parse_exponent r2 of
                None \<Rightarrow> None
              | Some e \<Rightarrow>
                  (let v = real (the (digits_from 0 (ip @ fp))) * power_int 10 (e - int (length fp))
                   in Some (Fin (if neg then - v else v)))))"

section \<open>The playlist\<close>

record m3u8_segment =
  seg_url :: string
  seg_duration :: f64
  seg_seq :: u64

record m3u8_info =
  target_duration :: f64
  media_sequence :: u64
  m3u8_segments :: "m3u8_segment list"

definition resolve_url :: "string \<Rightarrow> string \<Rightarrow> string" where
  "resolve_url base relative =
     (if str_starts_with relative ''http://'' \<or> str_starts_with relative ''https://'' then relative
      else case str_rfind base (CHR ''/'') of
        Some pos \<Rightarrow> take pos base @ ''/'' @ relative
      | None \<Rightarrow> relative)"

record m3u8_state =
  ms_info :: m3u8_info
  ms_current_duration :: f64
  ms_seq_counter :: u64

definition TARGETDURATION :: string where
  "TARGETDURATION = ''#EXT-X-TARGETDURATION:''"

definition MEDIA_SEQUENCE :: string where
  "MEDIA_SEQUENCE = ''#EXT-X-MEDIA-SEQUENCE:''"

definition EXTINF :: string where
  "EXTINF = ''#EXTINF:''"

definition m3u8_line :: "string \<Rightarrow> string \<Rightarrow> m3u8_state \<Rightarrow> m3u8_state option" where
  "m3u8_line base_url raw st =
     (let line = str_trim raw in
      if str_starts_with line TARGETDURATION then
        (case slice_from 23 line of
           None \<Rightarrow> None
         | Some v \<Rightarrow> (case parse_f64 v of
             Some d \<Rightarrow> Some (st\<lparr>ms_info := (ms_info st)\<lparr>target_duration := d\<rparr>\<rparr>)
           | None \<Rightarrow> Some st))
      else if str_starts_with line MEDIA_SEQUENCE then
        (case slice_from 22 line of
           None \<Rightarrow> None
         | Some v \<Rightarrow> (case parse_u64 v of
             Some s \<Rightarrow> Some (st\<lparr>ms_info := (ms_info st)\<lparr>media_sequence := s\<rparr>, ms_seq_counter := s\<rparr>)
           | None \<Rightarrow> Some st))
      else if str_starts_with line EXTINF then
        (case slice_from 8 line of
           None \<Rightarrow> None
         | Some v \<Rightarrow> (case parse_f64 (trim_end_char v (CHR '','')) of
             Some d \<Rightarrow> Some (st\<lparr>ms_current_duration := d\<rparr>)
           | None \<Rightarrow> Some st))
      else if line \<noteq> [] \<and> \<not> str_starts_with line ''#'' then
        Some (st\<lparr>ms_info := (ms_info st)\<lparr>m3u8_segments := m3u8_segments (ms_info st) @
                   [\<lparr>seg_url = resolve_url base_url line, seg_duration = ms_current_duration st,
                     seg_seq = ms_seq_counter st\<rparr>]\<rparr>,
                 ms_seq_counter := ms_seq_counter st + 1,
                 ms_current_duration := Fin 0\<rparr>)
      else Some st)"

fun m3u8_loop :: "string \<Rightarrow> string list \<Rightarrow> m3u8_state \<Rightarrow> m3u8_state option" where
  "m3u8_loop base_url [] st = Some st"
| "m3u8_loop base_url (l # ls) st =
     (case m3u8_line base_url l st of None \<Rightarrow> None | Some st' \<Rightarrow> m3u8_loop base_url ls st')"

definition m3u8_start :: m3u8_state where
  "m3u8_start = \<lparr>ms_info = \<lparr>target_duration = Fin 2, media_sequence = 0, m3u8_segments = []\<rparr>,
     ms_current_duration = Fin 0, ms_seq_counter = 0\<rparr>"

definition parse_m3u8 :: "string \<Rightarrow> string \<Rightarrow> m3u8_info option" where
  "parse_m3u8 content base_url = map_option ms_info (m3u8_loop base_url (str_lines content) m3u8_start)"

section \<open>Kinds of lines\<close>

definition is_uri_line :: "string \<Rightarrow> bool" where
  "is_uri_line raw \<longleftrightarrow> str_trim raw \<noteq> [] \<and> \<not> str_starts_with (str_trim raw) ''#''"

lemma tag_prefixes:
  "str_starts_with s TARGETDURATION \<Longrightarrow> str_starts_with s ''#''"
  "str_starts_with s MEDIA_SEQUENCE \<Longrightarrow> str_starts_with s ''#''"
  "str_starts_with s EXTINF \<Longrightarrow> str_starts_with s ''#''"
  by (auto simp: str_starts_with_def TARGETDURATION_def MEDIA_SEQUENCE_def EXTINF_def prefix_def)

lemma m3u8_line_uri:
  "is_uri_line raw \<Longrightarrow> m3u8_line base raw st =
     Some (st\<lparr>ms_info := (ms_info st)\<lparr>m3u8_segments := m3u8_segments (ms_info st) @
               [\<lparr>seg_url = resolve_url base (str_trim raw), seg_duration = ms_current_duration st,
                 seg_seq = ms_seq_counter st\<rparr>]\<rparr>,
             ms_seq_counter := ms_seq_counter st + 1, ms_current_duration := Fin 0\<rparr>)"
  by (auto simp: is_uri_line_def m3u8_line_def Let_def dest: tag_prefixes)

lemma m3u8_line_not_uri:
  "\<not> is_uri_line raw \<Longrightarrow> m3u8_line base raw st = Some st' \<Longrightarrow>
     m3u8_segments (ms_info st') = m3u8_segments (ms_info st)"
  by (auto simp: is_uri_line_def m3u8_line_def Let_def split: if_splits option.splits)

lemma tag_facts:
  "length TARGETDURATION = 22" "length MEDIA_SEQUENCE = 22" "length EXTINF = 8"
  "last TARGETDURATION = CHR '':''" "last MEDIA_SEQUENCE = CHR '':''" "last EXTINF = CHR '':''"
  "TARGETDURATION \<noteq> []" "MEDIA_SEQUENCE \<noteq> []" "EXTINF \<noteq> []"
  by (simp_all add: TARGETDURATION_def MEDIA_SEQUENCE_def EXTINF_def)

text \<open>The tags are ASCII, so a slice right behind one is at a character boundary.\<close>

lemma slice_tags:
  "utf8_seams (MEDIA_SEQUENCE @ s) \<Longrightarrow> slice_from 22 (MEDIA_SEQUENCE @ s) = Some s"
  "utf8_seams (EXTINF @ s) \<Longrightarrow> slice_from 8 (EXTINF @ s) = Some s"
  by (simp_all add: slice_after_ascii tag_facts)

text \<open>The lines on which the parser panics: its slice starts one byte behind the tag.\<close>

definition panicking_line :: "string \<Rightarrow> bool" where
  "panicking_line raw \<longleftrightarrow> str_starts_with (str_trim raw) TARGETDURATION \<and> \<not> char_boundary (str_trim raw) 23"

lemma m3u8_line_panics:
  assumes "utf8_seams raw"
  shows "m3u8_line base raw st = None \<longleftrightarrow> panicking_line raw"
proof -
  let ?s = "str_trim raw"
  have seams: "utf8_seams ?s" using utf8_seams_sublist [OF assms str_trim_sublist] .
  consider (target) "str_starts_with ?s TARGETDURATION"
    | (sequence) "\<not> str_starts_with ?s TARGETDURATION" "str_starts_with ?s MEDIA_SEQUENCE"
    | (extinf) "\<not> str_starts_with ?s TARGETDURATION" "\<not> str_starts_with ?s MEDIA_SEQUENCE"
        "str_starts_with ?s EXTINF"
    | (other) "\<not> str_starts_with ?s TARGETDURATION" "\<not> str_starts_with ?s MEDIA_SEQUENCE"
        "\<not> str_starts_with ?s EXTINF"
    by blast
  then show ?thesis
  proof cases
    case target
    then show ?thesis
      by (auto simp: panicking_line_def m3u8_line_def Let_def slice_from_def split: option.split)
  next
    case sequence
    from sequence(2) seams obtain v where "slice_from 22 ?s = Some v"
      by (auto simp: str_starts_with_def prefix_def slice_tags)
    with sequence show ?thesis
      by (auto simp: panicking_line_def m3u8_line_def Let_def split: option.split)
  next
    case extinf
    from extinf(3) seams obtain v where "slice_from 8 ?s = Some v"
      by (auto simp: str_starts_with_def prefix_def slice_tags)
    with extinf show ?thesis
      by (auto simp: panicking_line_def m3u8_line_def Let_def split: option.split)
  next
    case other
    then show ?thesis by (auto simp: panicking_line_def m3u8_line_def Let_def)
  qed
qed

lemma panicking_line_iff:
  "panicking_line l \<longleftrightarrow> str_starts_with (str_trim l) TARGETDURATION \<and>
     (str_trim l = TARGETDURATION \<or> 23 < length (str_trim l) \<and> is_continuation (str_trim l ! 23))"
proof -
  have b: "char_boundary (TARGETDURATION @ zs) 23 \<longleftrightarrow>
      \<not> (zs = [] \<or> Suc 0 < length zs \<and> is_continuation ((TARGETDURATION @ zs) ! 23))" for zs
    by (cases zs rule: remdups_adj.cases) (simp_all add: char_boundary_def tag_facts)
  have "\<not> char_boundary TARGETDURATION 23" using b [of "[]"] by simp
  then show ?thesis
    by (auto simp: panicking_line_def str_starts_with_def prefix_def tag_facts b)
qed

lemma m3u8_loop_urls:
  "m3u8_loop base ls st = Some st' \<Longrightarrow>
   map seg_url (m3u8_segments (ms_info st')) = map seg_url (m3u8_segments (ms_info st))
     @ map (\<lambda>l. resolve_url base (str_trim l)) (filter is_uri_line ls)"
proof (induction ls arbitrary: st)
  case (Cons l ls)
  from Cons.prems obtain st1 where 1: "m3u8_line base l st = Some st1" "m3u8_loop base ls st1 = Some st'"
    by (auto split: option.splits)
  show ?case
  proof (cases "is_uri_line l")
    case True
    with 1 Cons.IH [OF 1(2)] show ?thesis by (auto simp: m3u8_line_uri)
  next
    case False
    with Cons.IH [OF 1(2)] m3u8_line_not_uri [OF False 1(1)] show ?thesis by simp
  qed
qed simp

lemma m3u8_loop_panics:
  "\<forall>l \<in> set ls. utf8_seams l \<Longrightarrow> m3u8_loop base ls st = None \<longleftrightarrow> (\<exists>l \<in> set ls. panicking_line l)"
proof (induction ls arbitrary: st)
  case (Cons l ls)
  then show ?case using m3u8_line_panics [of l base st] by (auto split: option.split)
qed simp

text \<open>Once the media sequence is known, the numbers are consecutive.\<close>

lemma m3u8_line_seq:
  "\<not> str_starts_with (str_trim raw) MEDIA_SEQUENCE \<Longrightarrow> m3u8_line base raw st = Some st' \<Longrightarrow>
   ms_seq_counter st = n + word_of_nat (length (m3u8_segments (ms_info st))) \<Longrightarrow>
   map seg_seq (m3u8_segments (ms_info st)) =
     map (\<lambda>k. n + word_of_nat k) [0..<length (m3u8_segments (ms_info st))] \<Longrightarrow>
   ms_seq_counter st' = n + word_of_nat (length (m3u8_segments (ms_info st')))
   \<and> map seg_seq (m3u8_segments (ms_info st')) =
     map (\<lambda>k. n + word_of_nat k) [0..<length (m3u8_segments (ms_info st'))]
   \<and> media_sequence (ms_info st') = media_sequence (ms_info st)"
  by (auto simp: m3u8_line_def Let_def algebra_simps split: if_splits option.splits)

lemma m3u8_loop_seq:
  "\<forall>l \<in> set ls. \<not> str_starts_with (str_trim l) MEDIA_SEQUENCE \<Longrightarrow> m3u8_loop base ls st = Some st' \<Longrightarrow>
   ms_seq_counter st = n + word_of_nat (length (m3u8_segments (ms_info st))) \<Longrightarrow>
   map seg_seq (m3u8_segments (ms_info st)) =
     map (\<lambda>k. n + word_of_nat k) [0..<length (m3u8_segments (ms_info st))] \<Longrightarrow>
   map seg_seq (m3u8_segments (ms_info st')) =
     map (\<lambda>k. n + word_of_nat k) [0..<length (m3u8_segments (ms_info st'))]
   \<and> media_sequence (ms_info st') = media_sequence (ms_info st)"
proof (induction ls arbitrary: st)
  case (Cons l ls)
  from Cons.prems(2) obtain st1 where 1: "m3u8_line base l st = Some st1" "m3u8_loop base ls st1 = Some st'"
    by (auto split: option.splits)
  from m3u8_line_seq [OF _ 1(1) Cons.prems(3,4)] Cons.prems(1)
  have "ms_seq_counter st1 = n + word_of_nat (length (m3u8_segments (ms_info st1)))"
    "map seg_seq (m3u8_segments (ms_info st1)) =
     map (\<lambda>k. n + word_of_nat k) [0..<length (m3u8_segments (ms_info st1))]"
    "media_sequence (ms_info st1) = media_sequence (ms_info st)" by simp_all
  with Cons.IH [OF _ 1(2)] Cons.prems(1) show ?case by simp
qed simp

lemma m3u8_loop_append:
  "m3u8_loop base (ls @ ms) st = (case m3u8_loop base ls st of None \<Rightarrow> None | Some st' \<Rightarrow> m3u8_loop base ms st')"
  by (induction ls arbitrary: st) (auto split: option.split)

section \<open>Numbers without commas\<close>

lemma digits_from_digits: "digits_from a s = Some n \<Longrightarrow> \<forall>c \<in> set s. is_digit c"
  by (induction a s rule: digits_from.induct) (auto simp: is_digit_def split: option.splits)

lemma digits_some: "\<forall>c \<in> set s. is_digit c \<Longrightarrow> \<exists>n. digits_from a s = Some n"
  by (induction a s rule: digits_from.induct) (auto simp: is_digit_def split: option.splits)

lemma comma_not_digit: "\<not> is_digit (CHR '','')"
  by (simp add: is_digit_def digit_value_def)

lemma digits_from_comma: "CHR '','' \<in> set s \<Longrightarrow> digits_from a s = None"
  using digits_from_digits [of a s] comma_not_digit by (cases "digits_from a s") auto

lemma split_sign_comma: "split_sign s = (neg, t) \<Longrightarrow> CHR '','' \<in> set s \<Longrightarrow> CHR '','' \<in> set t"
  by (auto simp: split_sign_def split: list.splits if_splits)

lemma parse_exponent_comma: "CHR '','' \<in> set s \<Longrightarrow> parse_exponent s = None"
  by (auto simp: parse_exponent_def digits_from_comma split: list.splits prod.splits
      dest!: split_sign_comma)

lemma lower_comma: "CHR '','' \<in> set s \<Longrightarrow> CHR '','' \<in> set (str_lower s)"
proof -
  have "char_lower (CHR '','') = CHR '',''" by (simp add: char_lower_def less_eq_char_def)
  then show "CHR '','' \<in> set s \<Longrightarrow> CHR '','' \<in> set (str_lower s)"
    by (metis imageI list.set_map str_lower_def)
qed

lemma comma_span: "CHR '','' \<in> set s \<Longrightarrow> CHR '','' \<in> set (dropWhile is_digit s)"
  by (induction s) (auto simp: comma_not_digit)

lemma parse_f64_comma: "CHR '','' \<in> set s \<Longrightarrow> parse_f64 s = None"
proof -
  assume c: "CHR '','' \<in> set s"
  obtain neg t where t: "split_sign s = (neg, t)" by (cases "split_sign s")
  have ct: "CHR '','' \<in> set t" by (rule split_sign_comma [OF t c])
  have "str_lower t \<noteq> ''inf''" "str_lower t \<noteq> ''infinity''" "str_lower t \<noteq> ''nan''"
    using lower_comma [OF ct] by auto
  moreover obtain c' q where r: "dropWhile is_digit t = c' # q" "CHR '','' \<in> set (c' # q)"
    using comma_span [OF ct] by (cases "dropWhile is_digit t") auto
  moreover have "parse_exponent (c' # q) = None" using r(2) by (rule parse_exponent_comma)
  moreover have "parse_exponent (dropWhile is_digit q) = None" if "c' = CHR ''.''"
    using r(2) that comma_span [of q] by (intro parse_exponent_comma) auto
  ultimately show ?thesis by (auto simp: parse_f64_def t Let_def)
qed

section \<open>Rendered playlists\<close>

definition plain_line :: "string \<Rightarrow> bool" where
  "plain_line l \<longleftrightarrow> l \<noteq> [] \<and> (\<forall>c \<in> set l. \<not> is_ws c)"

lemma ws_chars: "is_ws NL" "is_ws CR"
  by (simp_all add: is_ws_def NL_def CR_def)

lemma str_trim_plain [simp]: "plain_line l \<Longrightarrow> str_trim l = l"
proof -
  have id: "\<forall>c \<in> set l. \<not> is_ws c \<Longrightarrow> dropWhile is_ws l = l" for l by (cases l) auto
  show "plain_line l \<Longrightarrow> str_trim l = l" by (simp add: str_trim_def plain_line_def id)
qed

lemma strip_cr_plain [simp]: "plain_line l \<Longrightarrow> strip_cr l = l"
  using ws_chars(2) by (auto simp: strip_cr_def plain_line_def) (metis last_in_set)

definition unlines :: "string list \<Rightarrow> string" where
  "unlines ls = concat (map (\<lambda>l. l @ [NL]) ls)"

lemma split_on_unlines: "\<forall>l \<in> set ls. plain_line l \<Longrightarrow> split_on NL (unlines ls) = ls @ [[]]"
proof (induction ls)
  case (Cons l ls)
  have "NL \<notin> set l" using Cons.prems ws_chars(1) by (auto simp: plain_line_def)
  with Cons show ?case by (simp add: unlines_def split_on_append)
qed (simp add: unlines_def)

lemma str_lines_unlines: "\<forall>l \<in> set ls. plain_line l \<Longrightarrow> str_lines (unlines ls) = ls"
  by (simp add: split_on_unlines Let_def map_idI)

lemma plain_append [simp]: "plain_line a \<Longrightarrow> (\<forall>c \<in> set b. \<not> is_ws c) \<Longrightarrow> plain_line (a @ b)"
  by (auto simp: plain_line_def)

lemma digit_not_ws: "is_digit c \<Longrightarrow> \<not> is_ws c"
  by (auto simp: is_digit_def digit_value_def is_ws_def Let_def split: if_splits)

lemma nat_str_digits: "c \<in> set (nat_str n) \<Longrightarrow> is_digit c"
  using digits_from_digits [OF digits_from_nat_str] by blast

lemma nat_str_not_ws: "\<forall>c \<in> set (nat_str n). \<not> is_ws c"
  using nat_str_digits digit_not_ws by blast

lemma tags_plain: "plain_line ''#EXTM3U''" "plain_line TARGETDURATION" "plain_line MEDIA_SEQUENCE"
  "plain_line EXTINF"
  by (simp_all add: plain_line_def is_ws_def TARGETDURATION_def MEDIA_SEQUENCE_def EXTINF_def)

definition good_uri :: "string \<Rightarrow> bool" where
  "good_uri u \<longleftrightarrow> plain_line u \<and> hd u \<noteq> CHR ''#''"

lemma good_uri_line: "good_uri u \<Longrightarrow> is_uri_line u"
  by (cases u) (auto simp: good_uri_def is_uri_line_def str_starts_with_def plain_line_def)

definition render_segment :: "nat \<times> string \<Rightarrow> string list" where
  "render_segment = (\<lambda>(d, u). [EXTINF @ nat_str d @ '','', u])"

definition render_m3u8 :: "nat \<Rightarrow> u64 \<Rightarrow> (nat \<times> string) list \<Rightarrow> string" where
  "render_m3u8 target n segs = unlines
     ([''#EXTM3U'', TARGETDURATION @ nat_str target, MEDIA_SEQUENCE @ nat_str (unat n)]
      @ concat (map render_segment segs))"

lemma parse_f64_digits:
  assumes "digits_from 0 s = Some n" "s \<noteq> []"
  shows "parse_f64 s = Some (Fin (real n))"
proof -
  have dg: "\<forall>c \<in> set s. is_digit c" using digits_from_digits [OF assms(1)] .
  have "split_sign s = (False, s)"
    using dg by (cases s) (auto simp: split_sign_def is_digit_def digit_value_def)
  moreover have "str_lower s = s"
  proof -
    have "char_lower c = c" if "is_digit c" for c
      using that by (auto simp: char_lower_def is_digit_def digit_value_def less_eq_char_def Let_def
          split: if_splits)
    with dg show ?thesis by (simp add: str_lower_def map_idI)
  qed
  moreover have "s \<noteq> ''inf''" "s \<noteq> ''infinity''" "s \<noteq> ''nan''"
    using dg by (auto simp: is_digit_def digit_value_def)
  moreover have span: "takeWhile is_digit s = s" "dropWhile is_digit s = []"
    using dg by (simp_all add: takeWhile_eq_all_conv)
  ultimately show ?thesis using assms by (simp add: parse_f64_def parse_exponent_def Let_def span)
qed

lemma parse_f64_nat_str [simp]: "parse_f64 (nat_str n) = Some (Fin (real n))"
  by (rule parse_f64_digits) (simp_all add: digits_from_nat_str nat_str_hd)

lemma parse_u64_nat_str: "parse_u64 (nat_str (unat w)) = Some w"
  by simp

lemma trim_commas_digits: "trim_end_char (nat_str n @ '','') (CHR '','') = nat_str n"
proof -
  have "last (nat_str n) \<noteq> CHR '',''"
    using nat_str_digits [of "last (nat_str n)" n] nat_str_hd [of n] comma_not_digit by auto
  then have "dropWhile (\<lambda>x. x = CHR '','') (rev (nat_str n)) = rev (nat_str n)"
    using nat_str_hd [of n] by (cases "nat_str n" rule: rev_cases) auto
  then show ?thesis by (simp add: trim_end_char_def)
qed

lemma nat_str_ascii: "c \<in> set (nat_str n) \<Longrightarrow> (of_char c :: nat) < 0x80"
  using nat_str_digits [of c n] by (auto simp: digit_value_def is_digit_def Let_def split: if_splits)

lemma not_prefixes:
  "\<not> str_starts_with (MEDIA_SEQUENCE @ s) TARGETDURATION"
  "\<not> str_starts_with (EXTINF @ s) TARGETDURATION" "\<not> str_starts_with (EXTINF @ s) MEDIA_SEQUENCE"
  "\<not> str_starts_with ''#EXTM3U'' TARGETDURATION" "\<not> str_starts_with ''#EXTM3U'' MEDIA_SEQUENCE"
  "\<not> str_starts_with ''#EXTM3U'' EXTINF" "str_starts_with ''#EXTM3U'' ''#''"
  "str_starts_with (MEDIA_SEQUENCE @ s) MEDIA_SEQUENCE" "str_starts_with (EXTINF @ s) EXTINF"
  "str_starts_with (TARGETDURATION @ s) TARGETDURATION"
  by (simp_all add: str_starts_with_def TARGETDURATION_def MEDIA_SEQUENCE_def EXTINF_def)

lemma m3u8_line_segment:
  assumes "good_uri u"
  shows "m3u8_loop base (render_segment (d, u)) st = Some
    (st\<lparr>ms_info := (ms_info st)\<lparr>m3u8_segments := m3u8_segments (ms_info st) @
          [\<lparr>seg_url = resolve_url base u, seg_duration = Fin (real d), seg_seq = ms_seq_counter st\<rparr>]\<rparr>,
        ms_seq_counter := ms_seq_counter st + 1, ms_current_duration := Fin 0\<rparr>)"
proof -
  have "plain_line (EXTINF @ nat_str d @ '','')"
    using nat_str_not_ws [of d] by (intro plain_append) (auto simp: tags_plain is_ws_def)
  moreover have "slice_from 8 (EXTINF @ nat_str d @ '','') = Some (nat_str d @ '','')"
    using nat_str_ascii [of _ d] by (intro slice_tags ascii_seams) (auto simp: EXTINF_def)
  ultimately have "m3u8_line base (EXTINF @ nat_str d @ '','') st
      = Some (st\<lparr>ms_current_duration := Fin (real d)\<rparr>)"
    by (simp add: m3u8_line_def Let_def not_prefixes trim_commas_digits)
  moreover have "str_trim u = u" using assms by (simp add: good_uri_def)
  ultimately show ?thesis
    by (simp add: render_segment_def m3u8_line_uri [OF good_uri_line [OF assms]])
qed

fun segments_from :: "string \<Rightarrow> u64 \<Rightarrow> (nat \<times> string) list \<Rightarrow> m3u8_segment list" where
  "segments_from base n [] = []"
| "segments_from base n ((d, u) # segs) =
     \<lparr>seg_url = resolve_url base u, seg_duration = Fin (real d), seg_seq = n\<rparr> # segments_from base (n + 1) segs"

lemma m3u8_loop_segments:
  "\<forall>(d, u) \<in> set segs. good_uri u \<Longrightarrow>
   \<exists>st'. m3u8_loop base (concat (map render_segment segs)) st = Some st'
     \<and> ms_info st' = (ms_info st)\<lparr>m3u8_segments := m3u8_segments (ms_info st)
         @ segments_from base (ms_seq_counter st) segs\<rparr>"
proof (induction segs arbitrary: st)
  case (Cons s segs)
  obtain d u where s: "s = (d, u)" by (cases s)
  with Cons.prems have u: "good_uri u" by simp
  note line = m3u8_line_segment [OF u, of base d st]
  show ?case
    using Cons.IH [of "the (m3u8_loop base (render_segment s) st)"] Cons.prems
    by (auto simp: s line m3u8_loop_append)
qed simp

text \<open>The header lines of a rendered playlist.\<close>

lemma m3u8_line_extm3u: "m3u8_line base ''#EXTM3U'' st = Some st"
  by (simp add: m3u8_line_def Let_def not_prefixes tags_plain)

lemma m3u8_line_sequence:
  "m3u8_line base (MEDIA_SEQUENCE @ nat_str (unat n)) st
     = Some (st\<lparr>ms_info := (ms_info st)\<lparr>media_sequence := n\<rparr>, ms_seq_counter := n\<rparr>)"
proof -
  have "slice_from 22 (MEDIA_SEQUENCE @ nat_str (unat n)) = Some (nat_str (unat n))"
    using nat_str_ascii [of _ "unat n"] by (intro slice_tags ascii_seams) (auto simp: MEDIA_SEQUENCE_def)
  moreover have "str_trim (MEDIA_SEQUENCE @ nat_str (unat n)) = MEDIA_SEQUENCE @ nat_str (unat n)"
    using nat_str_not_ws by (intro str_trim_plain plain_append tags_plain) auto
  ultimately show ?thesis by (simp add: m3u8_line_def Let_def not_prefixes)
qed

lemma m3u8_line_target:
  "m3u8_line base (TARGETDURATION @ nat_str target) m3u8_start
     = Some (m3u8_start\<lparr>ms_info := (ms_info m3u8_start)\<lparr>target_duration :=
         (case tl (nat_str target) of [] \<Rightarrow> Fin 2
          | ds \<Rightarrow> Fin (real (the (digits_from 0 (tl (nat_str target))))))\<rparr>\<rparr>)"
proof -
  obtain c ds where t: "nat_str target = c # ds" using nat_str_hd [of target] by (cases "nat_str target") auto
  obtain k where ds: "digits_from 0 ds = Some k"
    using digits_from_nat_str [of target] t digits_some [of ds 0] nat_str_digits [of _ target] by auto
  have "utf8_seams ((TARGETDURATION @ [c]) @ ds)"
    using nat_str_ascii [of _ target] t by (intro ascii_seams) (auto simp: TARGETDURATION_def)
  then have "slice_from 23 ((TARGETDURATION @ [c]) @ ds) = Some ds"
    using nat_str_ascii [of c target] t by (intro slice_after_ascii) (simp_all add: tag_facts)
  moreover have "parse_f64 [] = None" by (simp add: parse_f64_def split_sign_def str_lower_def)
  moreover have "str_trim (TARGETDURATION @ nat_str target) = TARGETDURATION @ nat_str target"
    using nat_str_not_ws by (intro str_trim_plain plain_append tags_plain) auto
  ultimately show ?thesis
    using ds parse_f64_digits [OF ds]
    by (auto simp: m3u8_line_def Let_def not_prefixes t m3u8_start_def split: list.split)
qed

section \<open>Properties\<close>

text \<open>
  Parsing inverts rendering, except for the target duration. A well-formed playlist
  (media sequence, then segments with their durations and URIs) is parsed back to exactly
  its segments with consecutive sequence numbers and resolved URLs; but the slice after
  the target-duration tag starts one byte late, so that value loses its first digit (and a
  one-digit value is ignored in favour of the default 2).
\<close>

theorem m3u8_roundtrip:
  assumes "\<forall>(d, u) \<in> set segs. good_uri u"
  shows "parse_m3u8 (render_m3u8 target n segs) base = Some
    \<lparr>target_duration = (case tl (nat_str target) of
         [] \<Rightarrow> Fin 2 | ds \<Rightarrow> Fin (real (the (digits_from 0 (tl (nat_str target)))))),
     media_sequence = n, m3u8_segments = segments_from base n segs\<rparr>"
proof -
  let ?td = "case tl (nat_str target) of [] \<Rightarrow> Fin 2
    | ds \<Rightarrow> Fin (real (the (digits_from 0 (tl (nat_str target)))))"
  let ?head = "[''#EXTM3U'', TARGETDURATION @ nat_str target, MEDIA_SEQUENCE @ nat_str (unat n)]"
  have "\<forall>l \<in> set (?head @ concat (map render_segment segs)). plain_line l"
    using assms tags_plain nat_str_not_ws
    by (auto simp: render_segment_def good_uri_def is_ws_def intro!: plain_append)
  then have lines: "str_lines (render_m3u8 target n segs) = ?head @ concat (map render_segment segs)"
    unfolding render_m3u8_def by (rule str_lines_unlines)
  have head: "m3u8_loop base ?head m3u8_start = Some (m3u8_start\<lparr>ms_info :=
      \<lparr>target_duration = ?td, media_sequence = n, m3u8_segments = []\<rparr>, ms_seq_counter := n\<rparr>)"
    by (simp add: m3u8_line_extm3u m3u8_line_target m3u8_line_sequence) (simp add: m3u8_start_def)
  obtain st' where "m3u8_loop base (?head @ concat (map render_segment segs)) m3u8_start = Some st'"
    "ms_info st' = \<lparr>target_duration = ?td, media_sequence = n, m3u8_segments = segments_from base n segs\<rparr>"
    unfolding m3u8_loop_append head
    using m3u8_loop_segments [OF assms, of base "m3u8_start\<lparr>ms_info :=
      \<lparr>target_duration = ?td, media_sequence = n, m3u8_segments = []\<rparr>, ms_seq_counter := n\<rparr>"]
    by auto
  then show ?thesis unfolding parse_m3u8_def lines by (simp only: option.map)
qed

theorem m3u8_roundtrip_witness:
  "\<exists>info. parse_m3u8 (render_m3u8 6 100 [(2, ''a.ts''), (4, ''b.ts'')]) ''http://o/live/s.m3u8'' = Some info
     \<and> target_duration info = Fin 2 \<and> media_sequence info = 100
     \<and> map seg_seq (m3u8_segments info) = [100, 101]"
proof -
  have "nat_str 6 = [digit_char 6]" by (simp add: nat_str.simps [of 6])
  moreover have "\<forall>(d, u) \<in> set [(2, ''a.ts''), (4, ''b.ts'')]. good_uri u"
    by (simp add: good_uri_def plain_line_def is_ws_def)
  ultimately show ?thesis
    using m3u8_roundtrip [of "[(2, ''a.ts''), (4, ''b.ts'')]" 6 100 "''http://o/live/s.m3u8''"] by simp
qed



text \<open>
  A segment title costs the duration. An \<open>#EXTINF\<close> line with a title after the comma
  leaves the parser's state unchanged, so the segment that follows keeps the duration left
  over (0 after any segment).
\<close>

theorem extinf_title_ignored:
  assumes "utf8_seams l" "str_trim l = l" "l = EXTINF @ d @ '','' @ title" and "title \<noteq> []" "last title \<noteq> CHR '',''"
  shows "m3u8_line base l st = Some st"
proof -
  have "trim_end_char (d @ '','' @ title) (CHR '','') = d @ '','' @ title"
    using assms(4,5) by (cases title rule: rev_cases) (simp_all add: trim_end_char_def)
  moreover have "parse_f64 (d @ '','' @ title) = None" by (rule parse_f64_comma) simp
  moreover have "slice_from 8 l = Some (d @ '','' @ title)"
    using assms(1) unfolding assms(3) by (rule slice_tags)
  ultimately show ?thesis using assms(2,3) by (simp add: m3u8_line_def Let_def not_prefixes)
qed

theorem extinf_title_ignored_witness:
  "m3u8_line [] (EXTINF @ ''2.0'' @ '','' @ ''intro'') m3u8_start = Some m3u8_start"
proof -
  have "str_trim (EXTINF @ ''2.0'' @ '','' @ ''intro'') = EXTINF @ ''2.0'' @ '','' @ ''intro''"
    by (intro str_trim_plain plain_append tags_plain) (simp add: is_ws_def)
  moreover have "utf8_seams (EXTINF @ ''2.0'' @ '','' @ ''intro'')"
    by (rule ascii_seams) (simp add: EXTINF_def)
  ultimately show ?thesis
    by (intro extinf_title_ignored [where d = "''2.0''" and title = "''intro''"]) simp_all
qed

end
