(* ===== verification/Backoff.thy ===== *)
theory Backoff
  imports Rust_F64
begin

text \<open>
  Rate limiting and retry delays, agent-rust/src/relay/backoff.rs: the xorshift generator
  behind the jitter, the token bucket and the exponential backoff. Time is an argument:
  \<open>Instant::now\<close> is modelled by the seconds elapsed since the last refill. The global seed
  is threaded through every operation that draws from it.
\<close>

section \<open>Pseudo-random numbers\<close>

definition prng_init :: u64 where
  "prng_init = 12345"

definition xorshift64 :: "u64 \<Rightarrow> u64" where
  "xorshift64 s0 =
     (let s1 = s0 XOR push_bit 13 s0;
          s2 = s1 XOR drop_bit 7 s1
      in s2 XOR push_bit 17 s2)"

definition prng_value :: "u64 \<Rightarrow> f64" where
  "prng_value s = f64_div (u64_as_f64 s) (u64_as_f64 (- 1))"

definition pseudo_random :: "u64 \<Rightarrow> f64 \<times> u64" where
  "pseudo_random seed = (let s = xorshift64 seed in (prng_value s, s))"

section \<open>The token bucket\<close>

record token_bucket =
  tb_rate :: f64
  tb_tokens :: f64
  tb_max_tokens :: f64
  tb_jitter_range :: f64

definition token_bucket_new :: "u64 \<Rightarrow> token_bucket" where
  "token_bucket_new r = \<lparr>tb_rate = u64_as_f64 r, tb_tokens = u64_as_f64 r,
     tb_max_tokens = f64_mul (u64_as_f64 r) (Fin 2), tb_jitter_range = Fin (15 / 100)\<rparr>"

definition tb_refill :: "real \<Rightarrow> token_bucket \<Rightarrow> token_bucket" where
  "tb_refill elapsed b =
     b\<lparr>tb_tokens := f64_min (f64_add (tb_tokens b) (f64_mul (Fin elapsed) (tb_rate b)))
                      (tb_max_tokens b)\<rparr>"

text \<open>\<open>None\<close> as the returned duration is the panic of \<open>Duration::from_secs_f64\<close>.\<close>

definition tb_consume :: "real \<Rightarrow> u64 \<Rightarrow> token_bucket \<times> u64 \<Rightarrow> duration option \<times> token_bucket \<times> u64" where
  "tb_consume elapsed n = (\<lambda>(b0, seed).
     (let b = tb_refill elapsed b0;
          n_f = u64_as_f64 n
      in if f64_ge (tb_tokens b) n_f
         then (Some 0, b\<lparr>tb_tokens := f64_add (tb_tokens b) (f64_neg n_f)\<rparr>, seed)
         else
           let deficit = f64_add n_f (f64_neg (tb_tokens b));
               wait_secs = f64_div deficit (tb_rate b);
               (jitter, seed') =
                 (if f64_lt (Fin 0) (tb_jitter_range b)
                  then let (p, s) = pseudo_random seed;
                           r = f64_add (f64_mul (f64_mul p (tb_jitter_range b)) (Fin 2))
                                 (f64_neg (tb_jitter_range b))
                       in (f64_mul wait_secs r, s)
                  else (Fin 0, seed));
               total = f64_add wait_secs jitter
           in (duration_from_secs_f64 (f64_max total (Fin 0)), b\<lparr>tb_tokens := Fin 0\<rparr>, seed')))"

definition tb_available_rate :: "token_bucket \<Rightarrow> u64" where
  "tb_available_rate b = f64_as_u64 (tb_rate b)"

definition tb_set_rate :: "u64 \<Rightarrow> token_bucket \<Rightarrow> token_bucket" where
  "tb_set_rate r b = b\<lparr>tb_rate := u64_as_f64 r, tb_max_tokens := f64_mul (u64_as_f64 r) (Fin 2)\<rparr>"

section \<open>Exponential backoff\<close>

record exponential_backoff =
  bo_initial :: duration
  bo_max :: duration
  bo_multiplier :: real
  bo_attempt :: u32

definition backoff_new :: "duration \<Rightarrow> duration \<Rightarrow> exponential_backoff" where
  "backoff_new i m = \<lparr>bo_initial = i, bo_max = m, bo_multiplier = 2, bo_attempt = 0\<rparr>"

text \<open>
  \<open>attempt as i32\<close> reinterprets the counter as signed; \<open>powi\<close> takes that exponent. (In the
  code a power beyond the \<open>f64\<close> range is \<open>inf\<close>, which \<open>min\<close> cuts to the maximum; so does
  the exact power here.)
\<close>

definition backoff_next :: "exponential_backoff \<times> u64 \<Rightarrow> duration option \<times> exponential_backoff \<times> u64" where
  "backoff_next = (\<lambda>(bo, seed).
     (let base = Fin (bo_initial bo * power_int (bo_multiplier bo) (sint (bo_attempt bo)));
          bo' = bo\<lparr>bo_attempt := bo_attempt bo + 1\<rparr>;
          secs = f64_min base (Fin (bo_max bo));
          (p, seed') = pseudo_random seed;
          jitter = f64_mul (f64_mul secs (Fin (25 / 100)))
                     (f64_add (f64_mul p (Fin 2)) (f64_neg (Fin 1)))
      in (duration_from_secs_f64 (f64_max (f64_add secs jitter) (Fin 0)), bo', seed')))"

definition backoff_reset :: "exponential_backoff \<Rightarrow> exponential_backoff" where
  "backoff_reset bo = bo\<lparr>bo_attempt := 0\<rparr>"

definition backoff_attempt :: "exponential_backoff \<Rightarrow> u32" where
  "backoff_attempt bo = bo_attempt bo"

section \<open>The generator\<close>

lemma push_bit_fixed: "0 < k \<Longrightarrow> push_bit k s = s \<Longrightarrow> s = (0 :: u64)"
proof -
  assume k: "0 < k" and fixed: "push_bit k s = s"
  have "push_bit (n * k) s = s" for n
    by (induction n) (simp_all add: fixed flip: push_bit_push_bit)
  then have "push_bit (64 * k) s = s" .
  moreover have "push_bit (64 * k) s = 0"
    using k by (intro bit_eqI) (auto simp: bit_push_bit_iff)
  ultimately show ?thesis by simp
qed

lemma drop_bit_fixed: "0 < k \<Longrightarrow> drop_bit k s = s \<Longrightarrow> s = (0 :: u64)"
proof -
  assume k: "0 < k" and fixed: "drop_bit k s = s"
  have "drop_bit (n * k) s = s" for n
    by (induction n) (simp_all add: fixed flip: drop_bit_drop_bit)
  then have "drop_bit (64 * k) s = s" .
  moreover have "drop_bit (64 * k) s = 0"
    using k by (intro bit_eqI) (auto simp: bit_drop_bit_eq dest: bit_imp_le_length)
  ultimately show ?thesis by simp
qed

lemma xor_zero: "a XOR b = 0 \<longleftrightarrow> a = (b :: u64)"
  by (auto simp: bit_eq_iff bit_xor_iff)

lemma xor_shift_diff: "a XOR c = b XOR d \<Longrightarrow> c XOR d = a XOR (b :: u64)"
  by (auto simp: bit_eq_iff bit_xor_iff)

lemma xor_push_inj: "0 < k \<Longrightarrow> inj (\<lambda>s :: u64. s XOR push_bit k s)"
proof (rule injI)
  fix a b :: u64 assume k: "0 < k" and eq: "a XOR push_bit k a = b XOR push_bit k b"
  have "push_bit k (a XOR b) = a XOR b"
    unfolding push_bit_xor by (rule xor_shift_diff [OF eq])
  with k have "a XOR b = 0" by (rule push_bit_fixed)
  then show "a = b" by (simp only: xor_zero)
qed

lemma xor_drop_inj: "0 < k \<Longrightarrow> inj (\<lambda>s :: u64. s XOR drop_bit k s)"
proof (rule injI)
  fix a b :: u64 assume k: "0 < k" and eq: "a XOR drop_bit k a = b XOR drop_bit k b"
  have "drop_bit k (a XOR b) = a XOR b"
    unfolding drop_bit_xor by (rule xor_shift_diff [OF eq])
  with k have "a XOR b = 0" by (rule drop_bit_fixed)
  then show "a = b" by (simp only: xor_zero)
qed

lemma xorshift64_inj: "inj xorshift64"
proof -
  have "xorshift64 = (\<lambda>s. s XOR push_bit 17 s) \<circ> (\<lambda>s. s XOR drop_bit 7 s) \<circ> (\<lambda>s. s XOR push_bit 13 s)"
    by (simp add: fun_eq_iff xorshift64_def Let_def)
  moreover have "inj ((\<lambda>s :: u64. s XOR push_bit 17 s) \<circ> (\<lambda>s. s XOR drop_bit 7 s)
      \<circ> (\<lambda>s. s XOR push_bit 13 s))"
    by (intro inj_compose xor_push_inj xor_drop_inj) simp_all
  ultimately show ?thesis by simp
qed

lemma xorshift64_nonzero: "s \<noteq> 0 \<Longrightarrow> xorshift64 s \<noteq> 0"
proof -
  have "xorshift64 0 = 0" by (simp add: xorshift64_def)
  then show "s \<noteq> 0 \<Longrightarrow> xorshift64 s \<noteq> 0" by (metis injD xorshift64_inj)
qed

definition prng_real :: "u64 \<Rightarrow> real" where
  "prng_real seed = real (unat (xorshift64 seed)) / (2 ^ 64 - 1)"

lemma unat_max_u64: "unat (- 1 :: u64) = 2 ^ 64 - 1"
  by (simp add: unsigned_minus_1_eq_mask mask_eq_exp_minus_1)

lemma pseudo_random_eq: "pseudo_random seed = (Fin (prng_real seed), xorshift64 seed)"
  by (simp add: pseudo_random_def Let_def prng_value_def u64_as_f64_def unat_max_u64 prng_real_def)

lemma prng_real_bounds: "0 \<le> prng_real seed" "prng_real seed \<le> 1"
proof -
  have "unat (xorshift64 seed) \<le> 2 ^ 64 - 1" using unat_less_exp [of "xorshift64 seed"] by simp
  then have "real (unat (xorshift64 seed)) \<le> real (2 ^ 64 - 1)"
    by (simp only: of_nat_le_iff)
  then have "real (unat (xorshift64 seed)) \<le> 2 ^ 64 - 1" by simp
  then show "0 \<le> prng_real seed" "prng_real seed \<le> 1" 
    unfolding prng_real_def by (simp_all add: divide_le_eq)
qed

section \<open>Delays of the backoff\<close>

definition jittered :: "real \<Rightarrow> u64 \<Rightarrow> real" where
  "jittered secs seed = secs * (1 + (2 * prng_real seed - 1) / 4)"

lemma jittered_bounds:
  "0 \<le> secs \<Longrightarrow> 3 / 4 * secs \<le> jittered secs seed"
  "0 \<le> secs \<Longrightarrow> jittered secs seed \<le> 5 / 4 * secs"
proof -
  assume s: "0 \<le> secs"
  have j: "jittered secs seed = secs * ((3 + 2 * prng_real seed) / 4)"
    by (simp add: jittered_def field_simps)
  have "secs * (3 / 4) \<le> secs * ((3 + 2 * prng_real seed) / 4)"
    using prng_real_bounds [of seed] s by (intro mult_left_mono) auto
  then show "3 / 4 * secs \<le> jittered secs seed" by (simp add: j)
  have "secs * ((3 + 2 * prng_real seed) / 4) \<le> secs * (5 / 4)"
    using prng_real_bounds [of seed] s by (intro mult_left_mono) auto
  then show "jittered secs seed \<le> 5 / 4 * secs" by (simp add: j)
qed

definition backoff_base :: "exponential_backoff \<Rightarrow> real" where
  "backoff_base bo = min (bo_initial bo * 2 ^ unat (bo_attempt bo)) (bo_max bo)"

text \<open>Sane parameters: what both users of the backoff pass (2 s, 60 s).\<close>

definition backoff_ok :: "exponential_backoff \<Rightarrow> bool" where
  "backoff_ok bo \<longleftrightarrow> 0 < bo_initial bo \<and> 0 < bo_max bo \<and> bo_max bo \<le> 2 ^ 63 \<and> bo_multiplier bo = 2"

lemma sint_small: "unat (w :: u32) < 2 ^ 31 \<Longrightarrow> sint w = int (unat w)"
proof -
  assume lt: "unat w < 2 ^ 31"
  have "sint w = signed_take_bit 31 (uint w)" by (simp add: sint_uint)
  also have "\<dots> = signed_take_bit 31 (int (unat w))" by (simp add: of_nat_unat)
  also have "\<dots> = int (unat w)" using lt by (intro signed_take_bit_int_eq_self) simp_all
  finally show ?thesis .
qed

lemma backoff_next_eq:
  assumes "backoff_ok bo" "unat (bo_attempt bo) < 2 ^ 31"
  shows "backoff_next (bo, seed) =
    (Some (jittered (backoff_base bo) seed), bo\<lparr>bo_attempt := bo_attempt bo + 1\<rparr>, xorshift64 seed)"
proof -
  have pos: "0 \<le> backoff_base bo" "backoff_base bo \<le> 2 ^ 63"
    using assms(1) by (auto simp: backoff_ok_def backoff_base_def)
  have "0 \<le> jittered (backoff_base bo) seed" "jittered (backoff_base bo) seed < 2 ^ 64"
    using jittered_bounds [OF pos(1), of seed] pos by simp_all
  moreover have "backoff_base bo + backoff_base bo * (25 / 100) * (prng_real seed * 2 + - 1)
      = jittered (backoff_base bo) seed"
    by (simp add: jittered_def field_simps)
  moreover have "power_int (bo_multiplier bo) (sint (bo_attempt bo)) = 2 ^ unat (bo_attempt bo)"
    using assms by (simp add: sint_small power_int_of_nat backoff_ok_def)
  ultimately show ?thesis
    by (simp add: backoff_next_def Let_def pseudo_random_eq backoff_base_def [symmetric] max_def)
qed

fun backoff_run :: "nat \<Rightarrow> exponential_backoff \<times> u64 \<Rightarrow> duration option list \<times> exponential_backoff \<times> u64" where
  "backoff_run 0 st = ([], st)"
| "backoff_run (Suc n) st =
     (case backoff_next st of (d, st') \<Rightarrow>
        (case backoff_run n st' of (ds, st'') \<Rightarrow> (d # ds, st'')))"

lemma backoff_run_delays:
  assumes "backoff_ok bo" "unat (bo_attempt bo) + n \<le> 2 ^ 31" "i < n"
  shows "\<exists>s. fst (backoff_run n (bo, seed)) ! i
      = Some (jittered (min (bo_initial bo * 2 ^ (unat (bo_attempt bo) + i)) (bo_max bo)) s)"
  using assms
proof (induction n arbitrary: bo seed i)
  case (Suc n)
  then have lt: "unat (bo_attempt bo) < 2 ^ 31" by simp
  let ?bo = "bo\<lparr>bo_attempt := bo_attempt bo + 1\<rparr>"
  from lt have att: "unat (bo_attempt ?bo) = Suc (unat (bo_attempt bo))"
    using unat_inc [of "bo_attempt bo"] by simp
  have ok: "backoff_ok ?bo" using Suc.prems(1) by (simp add: backoff_ok_def)
  note nxt = backoff_next_eq [OF Suc.prems(1) lt, of seed]
  show ?case
  proof (cases i)
    case 0
    then show ?thesis by (auto simp: nxt backoff_base_def split: prod.splits)
  next
    case (Suc j)
    with Suc.IH [OF ok, of j "xorshift64 seed"] Suc.prems(2,3) att show ?thesis
      by (auto simp: nxt split: prod.splits)
  qed
qed simp

lemma backoff_run_attempt:
  "backoff_run n (bo, seed) = (ds, bo', seed') \<Longrightarrow>
    length ds = n \<and> bo_attempt bo' = bo_attempt bo + word_of_nat n
    \<and> bo_initial bo' = bo_initial bo \<and> bo_max bo' = bo_max bo \<and> bo_multiplier bo' = bo_multiplier bo"
proof (induction n arbitrary: bo seed ds)
  case (Suc n)
  then obtain d bo1 s1 es where 1: "backoff_next (bo, seed) = (d, bo1, s1)"
    "backoff_run n (bo1, s1) = (es, bo', seed')" "ds = d # es"
    by (auto split: prod.splits)
  from 1(1) have "bo1 = bo\<lparr>bo_attempt := bo_attempt bo + 1\<rparr>"
    by (auto simp: backoff_next_def Let_def split: prod.splits)
  with Suc.IH [OF 1(2)] 1(3) show ?case by simp
qed simp

section \<open>The bucket on reals\<close>

definition tb_view :: "token_bucket \<Rightarrow> real \<Rightarrow> real \<Rightarrow> real \<Rightarrow> bool" where
  "tb_view b r t m \<longleftrightarrow> tb_rate b = Fin r \<and> tb_tokens b = Fin t \<and> tb_max_tokens b = Fin m
     \<and> tb_jitter_range b = Fin (15 / 100)"

definition tb_wait :: "real \<Rightarrow> u64 \<Rightarrow> real" where
  "tb_wait w seed = w * (1 + (2 * prng_real seed - 1) * 15 / 100)"

lemma tb_wait_bounds:
  "0 \<le> w \<Longrightarrow> 85 / 100 * w \<le> tb_wait w seed"
  "0 \<le> w \<Longrightarrow> tb_wait w seed \<le> 115 / 100 * w"
proof -
  assume w: "0 \<le> w"
  have j: "tb_wait w seed = w * ((85 + 30 * prng_real seed) / 100)"
    by (simp add: tb_wait_def field_simps)
  have "w * (85 / 100) \<le> w * ((85 + 30 * prng_real seed) / 100)"
    using prng_real_bounds [of seed] w by (intro mult_left_mono) auto
  then show "85 / 100 * w \<le> tb_wait w seed" by (simp add: j)
  have "w * ((85 + 30 * prng_real seed) / 100) \<le> w * (115 / 100)"
    using prng_real_bounds [of seed] w by (intro mult_left_mono) auto
  then show "tb_wait w seed \<le> 115 / 100 * w" by (simp add: j)
qed

lemma tb_wait_eq: "x + x * (prng_real seed * (15 / 100) * 2 + - (15 / 100)) = tb_wait x seed"
  by (simp add: tb_wait_def field_simps)

lemma tb_view_new: "tb_view (token_bucket_new r) (real (unat r)) (real (unat r)) (2 * real (unat r))"
  by (simp add: tb_view_def token_bucket_new_def u64_as_f64_def)

lemma tb_view_tokens [simp]: "tb_view b r t m \<Longrightarrow> tb_view (b\<lparr>tb_tokens := Fin t'\<rparr>) r t' m"
  by (simp add: tb_view_def)

lemma tb_refill_view: "tb_view b r t m \<Longrightarrow> tb_refill e b = b\<lparr>tb_tokens := Fin (min (t + e * r) m)\<rparr>"
  by (simp add: tb_view_def tb_refill_def)

lemma tb_consume_eq:
  assumes v: "tb_view b r t m" and r: "1 \<le> r" and avail: "a = min (t + e * r) m" "0 \<le> a"
    and n: "unat n \<le> 2 ^ 63"
  shows "tb_consume e n (b, seed) =
    (if real (unat n) \<le> a then (Some 0, b\<lparr>tb_tokens := Fin (a - real (unat n))\<rparr>, seed)
     else (Some (tb_wait ((real (unat n) - a) / r) seed), b\<lparr>tb_tokens := Fin 0\<rparr>, xorshift64 seed))"
proof (cases "real (unat n) \<le> a")
  case True
  with v show ?thesis
    by (simp add: tb_consume_def tb_refill_view [OF v] avail(1) u64_as_f64_def)
next
  case False
  let ?w = "(real (unat n) - a) / r"
  have w: "0 \<le> ?w" using False r by simp
  have "real (unat n) \<le> real (2 ^ 63)" using n by (simp only: of_nat_le_iff)
  then have "?w \<le> 2 ^ 63 / 1" using r avail(2) by (intro frac_le) auto
  then have le: "?w \<le> 9223372036854775808" by simp
  have "0 \<le> tb_wait ?w seed" "tb_wait ?w seed < 18446744073709551616"
    using tb_wait_bounds [OF w, of seed] w le by linarith+
  then have fits: "0 \<le> tb_wait ?w seed" "tb_wait ?w seed < 2 ^ 64" by simp_all
  have "fst (tb_consume e n (b, seed)) =
      duration_from_secs_f64 (Fin (max (?w + ?w * (prng_real seed * (15 / 100) * 2 + - (15 / 100))) 0))"
    using v False r
    by (simp add: tb_consume_def tb_refill_view [OF v] avail(1) [symmetric] u64_as_f64_def
        tb_view_def pseudo_random_eq Let_def)
  then have "fst (tb_consume e n (b, seed)) = Some (tb_wait ?w seed)"
    using fits unfolding tb_wait_eq by (simp add: max_def)
  moreover have "snd (tb_consume e n (b, seed)) = (b\<lparr>tb_tokens := Fin 0\<rparr>, xorshift64 seed)"
    using v False r
    by (simp add: tb_consume_def tb_refill_view [OF v] avail(1) [symmetric] u64_as_f64_def
        tb_view_def pseudo_random_eq Let_def)
  ultimately show ?thesis using False by (metis prod.collapse)
qed

text \<open>A run of consumes: elapsed seconds and bytes of each. The result lists the waits.\<close>

fun tb_run :: "(real \<times> u64) list \<Rightarrow> token_bucket \<times> u64 \<Rightarrow> duration option list \<times> token_bucket \<times> u64" where
  "tb_run [] st = ([], st)"
| "tb_run ((e, n) # reqs) st =
     (case tb_consume e n st of (d, st') \<Rightarrow>
        (case tb_run reqs st' of (ds, st'') \<Rightarrow> (d # ds, st'')))"

text \<open>Bytes of the requests that were granted without waiting.\<close>

definition immediate :: "(real \<times> u64) list \<Rightarrow> duration option list \<Rightarrow> real" where
  "immediate reqs ds = (\<Sum>((e, n), d) \<leftarrow> zip reqs ds. if d = Some 0 then real (unat n) else 0)"

definition sane_requests :: "(real \<times> u64) list \<Rightarrow> bool" where
  "sane_requests reqs \<longleftrightarrow> (\<forall>(e, n) \<in> set reqs. 0 \<le> e \<and> unat n \<le> 2 ^ 63)"

lemma tb_run_bound:
  assumes "tb_view b r t m" "1 \<le> r" "0 \<le> t" "0 \<le> m" "sane_requests reqs"
  shows "\<exists>b' seed' t'. snd (tb_run reqs (b, seed)) = (b', seed') \<and> tb_view b' r t' m \<and> 0 \<le> t'
    \<and> None \<notin> set (fst (tb_run reqs (b, seed)))
    \<and> t' + immediate reqs (fst (tb_run reqs (b, seed))) \<le> t + r * (\<Sum>(e, n) \<leftarrow> reqs. e)"
  using assms
proof (induction reqs arbitrary: b t seed)
  case Nil
  then show ?case by (auto simp: immediate_def)
next
  case (Cons q reqs)
  obtain e n where q: "q = (e, n)" by (cases q)
  let ?a = "min (t + e * r) m"
  have e: "0 \<le> e" "unat n \<le> 2 ^ 63" and sane: "sane_requests reqs"
    using Cons.prems(5) by (auto simp: sane_requests_def q)
  have a: "0 \<le> ?a" "?a \<le> t + r * e" using e Cons.prems(2-4) by (auto simp: mult.commute)
  note eq = tb_consume_eq [OF Cons.prems(1,2) refl a(1) e(2), of seed]
  show ?case
  proof (cases "real (unat n) \<le> ?a")
    case True
    let ?b = "b\<lparr>tb_tokens := Fin (?a - real (unat n))\<rparr>"
    from Cons.IH [OF tb_view_tokens [OF Cons.prems(1)] Cons.prems(2) _ Cons.prems(4) sane,
        of "?a - real (unat n)" seed] True
    obtain b' seed' t' where ih: "snd (tb_run reqs (?b, seed)) = (b', seed')" "tb_view b' r t' m" "0 \<le> t'"
      "None \<notin> set (fst (tb_run reqs (?b, seed)))"
      "t' + immediate reqs (fst (tb_run reqs (?b, seed)))
         \<le> ?a - real (unat n) + r * (\<Sum>(e, n) \<leftarrow> reqs. e)" by auto
    with a(2) eq True show ?thesis
      by (auto simp: q immediate_def algebra_simps split: prod.splits)
  next
    case False
    let ?b = "b\<lparr>tb_tokens := Fin 0\<rparr>"
    have "0 < (real (unat n) - ?a) / r" using False Cons.prems(2)
      by (intro divide_pos_pos) linarith+
    then have nz: "tb_wait ((real (unat n) - ?a) / r) seed \<noteq> 0"
      using tb_wait_bounds(1) [of "(real (unat n) - ?a) / r" seed] by linarith
    from Cons.IH [OF tb_view_tokens [OF Cons.prems(1)] Cons.prems(2) _ Cons.prems(4) sane, of 0 "xorshift64 seed"]
    obtain b' seed' t' where ih: "snd (tb_run reqs (?b, xorshift64 seed)) = (b', seed')"
      "tb_view b' r t' m" "0 \<le> t'" "None \<notin> set (fst (tb_run reqs (?b, xorshift64 seed)))"
      "t' + immediate reqs (fst (tb_run reqs (?b, xorshift64 seed))) \<le> r * (\<Sum>(e, n) \<leftarrow> reqs. e)" by auto
    moreover have "0 \<le> t + r * e" using a by linarith
    ultimately show ?thesis using eq False nz
      by (auto simp: q immediate_def algebra_simps split: prod.splits)
  qed
qed

section \<open>Properties\<close>

text \<open>
  The retry schedule. With positive delays (initial \<open>i\<close>, cap \<open>m\<close>), whatever the jitter
  draws, the \<open>k\<close>-th delay is a valid duration between 0.75 and 1.25 times
  \<open>min (i * 2 ^ k) m\<close>; below the cap the delays are strictly increasing; and a reset makes
  the next delay one of the first attempt again.
\<close>

theorem backoff_schedule:
  assumes "0 < i" "0 < m" "m \<le> 2 ^ 63" "n \<le> 2 ^ 31"
    and run: "backoff_run n (backoff_new i m, seed) = (ds, bo, seed')"
  shows "length ds = n
    \<and> (\<forall>k<n. \<exists>d. ds ! k = Some d \<and> 3 / 4 * min (i * 2 ^ k) m \<le> d \<and> d \<le> 5 / 4 * min (i * 2 ^ k) m)
    \<and> (\<forall>k. Suc k < n \<longrightarrow> i * 2 ^ Suc k \<le> m \<longrightarrow> the (ds ! k) < the (ds ! Suc k))
    \<and> (\<exists>d. fst (backoff_next (backoff_reset bo, seed')) = Some d
          \<and> 3 / 4 * min i m \<le> d \<and> d \<le> 5 / 4 * min i m)"
proof -
  have ok: "backoff_ok (backoff_new i m)"
    using assms by (simp add: backoff_ok_def backoff_new_def)
  have el: "\<exists>d. ds ! k = Some d \<and> 3 / 4 * min (i * 2 ^ k) m \<le> d \<and> d \<le> 5 / 4 * min (i * 2 ^ k) m"
    if k: "k < n" for k
  proof -
    from backoff_run_delays [OF ok, of n k seed] obtain s where
      "ds ! k = Some (jittered (min (i * 2 ^ k) m) s)"
      using assms(4) k run by (auto simp: backoff_new_def)
    moreover have "0 \<le> min (i * 2 ^ k) m" using assms(1,2) by simp
    ultimately show ?thesis using jittered_bounds [of "min (i * 2 ^ k) m" s] by simp
  qed
  have "the (ds ! k) < the (ds ! Suc k)" if "Suc k < n" "i * 2 ^ Suc k \<le> m" for k
  proof -
    have "0 < i * 2 ^ k" using assms(1) by simp
    moreover have "min (i * 2 ^ k) m = i * 2 ^ k" "min (i * 2 ^ Suc k) m = 2 * (i * 2 ^ k)"
      using that(2) calculation by (auto simp: min_def)
    ultimately show ?thesis using el [of k] el [of "Suc k"] that(1) by fastforce
  qed
  moreover have bo: "bo_initial bo = i" "bo_max bo = m" "bo_multiplier bo = 2" "length ds = n"
    using backoff_run_attempt [OF run] by (simp_all add: backoff_new_def)
  moreover have "fst (backoff_next (backoff_reset bo, seed')) = Some (jittered (min i m) seed')"
    using backoff_next_eq [of "backoff_reset bo" seed'] bo assms
    by (simp add: backoff_reset_def backoff_ok_def backoff_base_def)
  moreover have "0 \<le> min i m" using assms by simp
  ultimately show ?thesis using el jittered_bounds [of "min i m" seed'] by simp
qed

theorem backoff_schedule_witness:
  "length (fst (backoff_run 3 (backoff_new 2 60, prng_init))) = 3
    \<and> the (fst (backoff_run 3 (backoff_new 2 60, prng_init)) ! 0)
        < the (fst (backoff_run 3 (backoff_new 2 60, prng_init)) ! 1)"
proof -
  obtain ds bo s where r: "backoff_run 3 (backoff_new 2 60, prng_init) = (ds, bo, s)"
    by (cases "backoff_run 3 (backoff_new 2 60, prng_init)") auto
  from backoff_schedule [OF _ _ _ _ r] show ?thesis by (auto simp: r)
qed

text \<open>
  The jitter generator never gets stuck: from the initial seed its state is never zero
  after any number of draws, no two states have the same successor, and every draw lies in
  \<open>(0, 1]\<close>. (The code's comment says \<open>[0, 1)\<close>.)
\<close>

theorem prng_never_stuck:
  "(xorshift64 ^^ n) prng_init \<noteq> 0 \<and> inj xorshift64
    \<and> (\<exists>x. fst (pseudo_random ((xorshift64 ^^ n) prng_init)) = Fin x \<and> 0 < x \<and> x \<le> 1)"
proof -
  have nz: "(xorshift64 ^^ k) prng_init \<noteq> 0" for k
    by (induction k) (simp_all add: prng_init_def xorshift64_nonzero)
  let ?s = "(xorshift64 ^^ n) prng_init"
  have "0 < unat (xorshift64 ?s)" using xorshift64_nonzero [OF nz [of n]] by (simp add: unat_gt_0)
  then have "0 < prng_real ?s" by (simp add: prng_real_def)
  with nz [of n] xorshift64_inj prng_real_bounds [of ?s] show ?thesis
    by (simp add: pseudo_random_eq)
qed

text \<open>
  The token bucket limits what passes without waiting: for any sequence of requests to
  a bucket of rate \<open>r > 0\<close>, no call panics and the bytes granted immediately are at most
  \<open>r\<close> (the initial fill) plus \<open>r\<close> times the elapsed time.
\<close>

theorem token_bucket_conformance:
  assumes "r \<noteq> 0" and "sane_requests reqs"
    and "tb_run reqs (token_bucket_new r, seed) = (ds, st)"
  shows "None \<notin> set ds
    \<and> immediate reqs ds \<le> real (unat r) + real (unat r) * (\<Sum>(e, n) \<leftarrow> reqs. e)"
proof -
  have "1 \<le> unat r" using assms(1) by (simp add: unat_gt_0 Suc_leI)
  then have "1 \<le> real (unat r)" by linarith
  from tb_run_bound [OF tb_view_new this _ _ assms(2), of seed] assms(3) show ?thesis by auto
qed

theorem token_bucket_conformance_witness:
  "None \<notin> set (fst (tb_run [(0, 60), (1, 200)] (token_bucket_new 100, prng_init)))
   \<and> immediate [(0, 60), (1, 200)] (fst (tb_run [(0, 60), (1, 200)] (token_bucket_new 100, prng_init))) \<le> 200"
proof -
  obtain ds st where r: "tb_run [(0, 60), (1, 200)] (token_bucket_new 100, prng_init) = (ds, st)"
    by (cases "tb_run [(0, 60), (1, 200)] (token_bucket_new 100, prng_init)") auto
  have "sane_requests [(0, 60), (1, 200)]" by (simp add: sane_requests_def)
  from token_bucket_conformance [OF _ this r] show ?thesis unfolding r by simp
qed

text \<open>
  A wait is not charged to the bucket. After a request of \<open>n\<close> bytes that found only
  \<open>a < n\<close> tokens, the bucket returns a wait of about \<open>(n - a) / r\<close> and keeps refilling while
  the caller waits, so the very next request of up to 85 percent of the deficit is granted
  at once: a saturating sender gets well above the configured rate.
\<close>

theorem token_bucket_refunds_wait:
  assumes "tb_view b r t m" "1 \<le> r" "0 \<le> t" "t \<le> m" "real (unat n) > t" "unat n \<le> 2 ^ 63"
    and "tb_consume 0 n (b, seed) = (Some w, st)"
    and "real (unat k) \<le> 85 / 100 * (real (unat n) - t)" "real (unat k) \<le> m"
  shows "85 / 100 * (real (unat n) - t) \<le> r * w \<and> fst (tb_consume w k st) = Some 0"
proof -
  have w: "0 \<le> (real (unat n) - t) / r" using assms(2,5) by simp
  from tb_consume_eq [OF assms(1,2) refl _ assms(6), of 0 seed] assms
  have st: "w = tb_wait ((real (unat n) - t) / r) seed" "st = (b\<lparr>tb_tokens := Fin 0\<rparr>, xorshift64 seed)"
    by (simp_all add: min_def)
  have "85 / 100 * ((real (unat n) - t) / r) \<le> w" using tb_wait_bounds(1) [OF w] st(1) by simp
  then have "r * (85 / 100 * ((real (unat n) - t) / r)) \<le> r * w"
    using assms(2) by (intro mult_left_mono) auto
  then have rw: "85 / 100 * (real (unat n) - t) \<le> r * w" using assms(2) by simp
  have k: "unat k \<le> 2 ^ 63"
  proof -
    have "real (unat k) \<le> real (unat n)" using assms(3,5,8) by simp
    with assms(6) show ?thesis by simp
  qed
  have "real (unat k) \<le> min (0 + w * r) m" using rw assms(8,9) by (simp add: mult.commute)
  with tb_consume_eq [OF tb_view_tokens [OF assms(1)] assms(2) refl _ k, of 0 w "xorshift64 seed"] rw st(2)
  show ?thesis by (simp add: order_trans [OF of_nat_0_le_iff])
qed

theorem token_bucket_refunds_wait_witness:
  "\<exists>w st. tb_consume 0 200 (token_bucket_new 100, prng_init) = (Some w, st)
     \<and> 85 \<le> 100 * w \<and> fst (tb_consume w 85 st) = Some 0"
proof -
  have v: "tb_view (token_bucket_new 100) 100 100 200" using tb_view_new [of 100] by simp
  obtain w st where c: "tb_consume 0 200 (token_bucket_new 100, prng_init) = (Some w, st)"
    using tb_consume_eq [OF v _ refl, of 0 200 prng_init] by simp
  from token_bucket_refunds_wait [OF v _ _ _ _ _ c, of 85] c show ?thesis by auto
qed

text \<open>
  A bucket whose rate is set to 0 does not block: a request beyond its tokens divides
  by zero, and depending on the sign of the jitter the call either panics (the draw is
  above one half) or returns a zero wait (no limit at all).
\<close>

theorem token_bucket_zero_rate:
  assumes "n \<noteq> 0"
  shows "fst (tb_consume e n (token_bucket_new 0, seed)) =
    (if prng_real seed > 1 / 2 then None else Some 0)"
proof -
  have "0 < real (unat n)" using assms by (simp add: unat_gt_0)
  then show ?thesis
    by (auto simp: tb_consume_def tb_refill_def token_bucket_new_def u64_as_f64_def pseudo_random_eq
        Let_def f64_inf_sign_def f64_max_def sgn_if)
qed

theorem token_bucket_zero_rate_witness:
  "fst (tb_consume 1 5 (token_bucket_new 0, prng_init)) \<in> {None, Some 0}"
  using token_bucket_zero_rate [of 5 1 prng_init] by simp

end
