(* ===== verification/Admission.thy ===== *)
theory Admission
  imports Main
begin

text \<open>
  The contract between a relay and the connection handlers of main.rs: \<open>add_client\<close>
  admits up to a capacity, \<open>remove_client\<close> gives the slot back, and nothing else a relay
  does touches the count. Both relays (theories \<open>Flv_Puller\<close> and \<open>Stream_Relay\<close>) provide
  it; the handlers' accounting is proved here once.
\<close>

datatype 'o client_op = Enter | Leave | Internal 'o

text \<open>Any interleaving of the handlers' calls with the relay's own steps.\<close>

fun run_ops :: "('s \<Rightarrow> bool \<times> 's) \<Rightarrow> ('s \<Rightarrow> 's) \<Rightarrow> ('o \<Rightarrow> 's \<Rightarrow> 's) \<Rightarrow> 'o client_op list \<Rightarrow> 's
    \<Rightarrow> bool list \<times> 's" where
  "run_ops enter leave internal [] s = ([], s)"
| "run_ops enter leave internal (Enter # ops) s =
     (case enter s of (b, s') \<Rightarrow>
        (case run_ops enter leave internal ops s' of (bs, s'') \<Rightarrow> (b # bs, s'')))"
| "run_ops enter leave internal (Leave # ops) s = run_ops enter leave internal ops (leave s)"
| "run_ops enter leave internal (Internal x # ops) s = run_ops enter leave internal ops (internal x s)"

text \<open>
  The handlers' side: how many connections hold a slot, given the answers of \<open>add_client\<close>.
  The history is improper (\<open>None\<close>) when a \<open>Leave\<close> comes from no holder.
\<close>

fun holders :: "nat \<Rightarrow> bool list \<Rightarrow> 'o client_op list \<Rightarrow> nat option" where
  "holders h bs [] = Some h"
| "holders h (b # bs) (Enter # ops) = holders (if b then h + 1 else h) bs ops"
| "holders h [] (Enter # ops) = None"
| "holders h bs (Leave # ops) = (if h = 0 then None else holders (h - 1) bs ops)"
| "holders h bs (Internal x # ops) = holders h bs ops"

locale admission =
  fixes enter :: "'s \<Rightarrow> bool \<times> 's"
    and leave :: "'s \<Rightarrow> 's"
    and internal :: "'o \<Rightarrow> 's \<Rightarrow> 's"
    and count :: "'s \<Rightarrow> nat"
    and capacity :: "'s \<Rightarrow> nat"
  assumes enter_ok: "fst (enter s) \<longleftrightarrow> count s < capacity s"
    and enter_count: "count (snd (enter s)) = (if count s < capacity s then count s + 1 else count s)"
    and leave_count: "count (leave s) = count s - 1"
    and internal_count: "count (internal x s) = count s"
    and enter_capacity: "capacity (snd (enter s)) = capacity s"
    and leave_capacity: "capacity (leave s) = capacity s"
    and internal_capacity: "capacity (internal x s) = capacity s"
begin

lemma enter_cases:
  obtains (admitted) s' where "enter s = (True, s')" "count s < capacity s" "count s' = count s + 1"
      "capacity s' = capacity s"
  | (refused) s' where "enter s = (False, s')" "capacity s \<le> count s" "count s' = count s"
      "capacity s' = capacity s"
proof -
  obtain b s' where e: "enter s = (b, s')" by (cases "enter s")
  show ?thesis
    using e enter_ok [of s] enter_count [of s] enter_capacity [of s] admitted [of s'] refused [of s']
    by (cases b) (simp_all split: if_splits)
qed

lemma run_capacity [simp]: "capacity (snd (run_ops enter leave internal ops s)) = capacity s"
proof (induction ops arbitrary: s)
  case (Cons x ops)
  show ?case
  proof (cases x)
    case Enter
    with Cons.IH show ?thesis
      by (cases rule: enter_cases [of s]) (simp_all add: case_prod_unfold)
  qed (simp_all add: Cons.IH leave_capacity internal_capacity)
qed simp

lemma run_bounded:
  "count s \<le> capacity s \<Longrightarrow> count (snd (run_ops enter leave internal ops s)) \<le> capacity s"
proof (induction ops arbitrary: s)
  case (Cons x ops)
  show ?case
  proof (cases x)
    case Enter
    show ?thesis
    proof (cases rule: enter_cases [of s])
      case (admitted s')
      with Cons.IH [of s'] Enter show ?thesis by (simp add: case_prod_unfold)
    next
      case (refused s')
      with Cons.IH [of s'] Cons.prems Enter show ?thesis by (simp add: case_prod_unfold)
    qed
  next
    case Leave
    then show ?thesis
      using Cons.IH [of "leave s"] Cons.prems by (simp add: leave_count leave_capacity)
  next
    case (Internal y)
    then show ?thesis
      using Cons.IH [of "internal y s"] Cons.prems by (simp add: internal_count internal_capacity)
  qed
qed simp

text \<open>Accounting: for a proper history the count is the number of slots held.\<close>

lemma run_accounting:
  "holders (count s) (fst (run_ops enter leave internal ops s)) ops = Some h
    \<Longrightarrow> count (snd (run_ops enter leave internal ops s)) = h"
proof (induction ops arbitrary: s)
  case (Cons x ops)
  show ?case
  proof (cases x)
    case Enter
    show ?thesis
    proof (cases rule: enter_cases [of s])
      case (admitted s')
      with Cons.IH [of s'] Cons.prems Enter show ?thesis by (simp add: case_prod_unfold)
    next
      case (refused s')
      with Cons.IH [of s'] Cons.prems Enter show ?thesis by (simp add: case_prod_unfold)
    qed
  next
    case Leave
    then show ?thesis
      using Cons.IH [of "leave s"] Cons.prems by (simp add: leave_count split: if_splits)
  next
    case (Internal y)
    then show ?thesis using Cons.IH [of "internal y s"] Cons.prems by (simp add: internal_count)
  qed
qed simp

text \<open>
  A connection that never gives its slot back keeps it: once as many as the capacity
  have done so, nobody enters any more.
\<close>

lemma leaked_slots_exhaust:
  "capacity s \<le> count s + n \<Longrightarrow> count s \<le> capacity s \<Longrightarrow>
   \<not> fst (enter (snd (run_ops enter leave internal (replicate n Enter) s)))"
proof (induction n arbitrary: s)
  case 0
  then show ?case by (simp add: enter_ok)
next
  case (Suc n)
  show ?case
  proof (cases rule: enter_cases [of s])
    case (admitted s')
    with Suc.IH [of s'] Suc.prems show ?thesis by (simp add: case_prod_unfold)
  next
    case (refused s')
    with Suc.IH [of s'] Suc.prems show ?thesis by (simp add: case_prod_unfold)
  qed
qed

end

end
