(* ===== verification/Stream_Relay.thy ===== *)
theory Stream_Relay
  imports Protocol Crypto Playlist Backoff Admission "HOL-Library.List_Lexorder"
begin

text \<open>
  The HLS relay \<open>StreamRelay\<close> of agent-rust/src/relay/mod.rs: the segment cache, the
  encrypted broadcast and the client admission, with the spawned pull loop as a function
  of its environment (what each fetch returns, the nonces and the clock). The standard
  hasher (\<open>simple_hash\<close>) and the iteration order of the URL map are parameters.
\<close>

section \<open>State\<close>

datatype seg_type = M3u8 | Ts

record cached_segment =
  cs_seq :: u64
  cs_seg_type :: seg_type
  cs_data :: bytes
  cs_duration :: f64

record stream_relay =
  sr_stream_key :: string
  sr_origin_url :: string
  sr_encryptor :: stream_cipher
  sr_segments :: "cached_segment list"
  sr_max_segments :: nat
  sr_fetched_urls :: "(string, u64) map"
  sr_client_count :: nat
  sr_max_clients :: nat
  sr_running :: bool
  sr_bytes_sent :: u64
  sr_broadcast :: "bytes list"

definition stream_relay_new :: "string \<Rightarrow> string \<Rightarrow> key_info \<Rightarrow> nat \<Rightarrow> nat \<Rightarrow> stream_relay" where
  "stream_relay_new key url ki max_clients max_segments =
     \<lparr>sr_stream_key = key, sr_origin_url = url, sr_encryptor = stream_cipher_new ki,
      sr_segments = [], sr_max_segments = max_segments, sr_fetched_urls = Map.empty,
      sr_client_count = 0, sr_max_clients = max_clients, sr_running = False,
      sr_bytes_sent = 0, sr_broadcast = []\<rparr>"

section \<open>Methods\<close>

definition relay_start :: "stream_relay \<Rightarrow> bool \<times> stream_relay" where
  "relay_start r = (if sr_running r then (False, r) else (True, r\<lparr>sr_running := True\<rparr>))"

definition relay_stop :: "stream_relay \<Rightarrow> stream_relay" where
  "relay_stop r = r\<lparr>sr_running := False\<rparr>"

definition relay_is_running :: "bool \<Rightarrow> stream_relay \<Rightarrow> bool" where
  "relay_is_running lock_free r = (if lock_free then sr_running r else False)"

definition relay_add_client :: "stream_relay \<Rightarrow> bool \<times> stream_relay" where
  "relay_add_client r =
     (if sr_client_count r \<ge> sr_max_clients r then (False, r)
      else (True, r\<lparr>sr_client_count := sr_client_count r + 1\<rparr>))"

definition relay_remove_client :: "stream_relay \<Rightarrow> stream_relay" where
  "relay_remove_client r =
     (if sr_client_count r > 0 then r\<lparr>sr_client_count := sr_client_count r - 1\<rparr> else r)"

definition relay_client_count :: "stream_relay \<Rightarrow> nat" where
  "relay_client_count r = sr_client_count r"

definition latest_m3u8 :: "stream_relay \<Rightarrow> bytes option" where
  "latest_m3u8 r = map_option cs_data (find (\<lambda>s. cs_seg_type s = M3u8) (rev (sr_segments r)))"

definition relay_measure_rtt :: "(string \<Rightarrow> nat option) \<Rightarrow> stream_relay \<Rightarrow> u32" where
  "relay_measure_rtt head r =
     (case head (sr_origin_url r) of Some ms \<Rightarrow> word_of_nat ms | None \<Rightarrow> 9999)"

definition relay_record_bytes_sent :: "u64 \<Rightarrow> stream_relay \<Rightarrow> stream_relay" where
  "relay_record_bytes_sent n r = r\<lparr>sr_bytes_sent := sr_bytes_sent r + n\<rparr>"

definition relay_current_bandwidth :: "stream_relay \<Rightarrow> u64" where
  "relay_current_bandwidth r = sr_bytes_sent r"

section \<open>The pull loop\<close>

text \<open>\<open>fetch_url\<close>: the request fails, or yields a status and a body that may fail to arrive.\<close>

datatype http_result = HttpError | HttpResponse nat "bytes option"

definition fetch_url :: "http_result \<Rightarrow> bytes option" where
  "fetch_url h = (case h of
     HttpError \<Rightarrow> None
   | HttpResponse status body \<Rightarrow> (if \<not> (200 \<le> status \<and> status < 300) then None else body))"

record pull_env =
  pe_running :: bool
  pe_m3u8 :: http_result
  pe_segment :: "string \<Rightarrow> http_result"
  pe_nonce :: "u32 \<Rightarrow> bytes"
  pe_clock :: "u32 \<Rightarrow> u64"

datatype loop_status = Looping | LoopStopped | LoopPanicked

text \<open>The locals of the spawned task.\<close>

record pull_locals =
  pl_status :: loop_status
  pl_last_m3u8_hash :: u64
  pl_seq_counter :: u32
  pl_backoff :: exponential_backoff
  pl_seed :: u64

definition pull_locals_new :: "u64 \<Rightarrow> pull_locals" where
  "pull_locals_new seed = \<lparr>pl_status = Looping, pl_last_m3u8_hash = 0, pl_seq_counter = 0,
     pl_backoff = backoff_new 2 60, pl_seed = seed\<rparr>"

text \<open>Caching and broadcasting one encrypted segment.\<close>

definition push_segment :: "cached_segment \<Rightarrow> stream_relay \<Rightarrow> stream_relay" where
  "push_segment c r = r\<lparr>sr_segments := evict_front (sr_max_segments r) (sr_segments r @ [c])\<rparr>"

definition broadcast_segment :: "u32 \<Rightarrow> u64 \<Rightarrow> bytes \<Rightarrow> stream_relay \<Rightarrow> stream_relay" where
  "broadcast_segment seq ts d r =
     r\<lparr>sr_broadcast := sr_broadcast r @ [frame_encode (frame_new_with_ts Data seq ts d)]\<rparr>"

definition encrypt_with :: "ring_lib \<Rightarrow> pull_env \<Rightarrow> bytes \<Rightarrow> stream_relay
    \<Rightarrow> (crypto_error + bytes) \<times> stream_relay" where
  "encrypt_with R env d r =
     (case encrypt_chunk R (pe_nonce env (sc_seq (sr_encryptor r))) d (sr_encryptor r) of
        (res, enc) \<Rightarrow> (res, r\<lparr>sr_encryptor := enc\<rparr>))"

text \<open>
  Remembering a fetched URL; beyond 100 entries, \<open>pick\<close> says which 20 keys the map's
  iteration yields first.
\<close>

definition remember_url :: "((string, u64) map \<Rightarrow> string list) \<Rightarrow> string \<Rightarrow> u64 \<Rightarrow> stream_relay \<Rightarrow> stream_relay" where
  "remember_url pick url seq r =
     (let fetched = (sr_fetched_urls r)(url \<mapsto> seq);
          fetched' = (if card (dom fetched) > 100
                      then fetched |` (- set (take 20 (pick fetched))) else fetched)
      in r\<lparr>sr_fetched_urls := fetched'\<rparr>)"

definition pull_segment :: "ring_lib \<Rightarrow> ((string, u64) map \<Rightarrow> string list) \<Rightarrow> pull_env \<Rightarrow> m3u8_segment
    \<Rightarrow> u32 \<times> stream_relay \<Rightarrow> u32 \<times> stream_relay" where
  "pull_segment R pick env seg = (\<lambda>(seq_counter, r).
     (if sr_fetched_urls r (seg_url seg) \<noteq> None then (seq_counter, r)
      else case fetch_url (pe_segment env (seg_url seg)) of
        None \<Rightarrow> (seq_counter, r)
      | Some ts_data \<Rightarrow>
          (case encrypt_with R env ts_data r of
             (Inl e, r1) \<Rightarrow> (seq_counter, r1)
           | (Inr encrypted, r1) \<Rightarrow>
               (let cached = \<lparr>cs_seq = seg_seq seg, cs_seg_type = Ts, cs_data = encrypted,
                              cs_duration = seg_duration seg\<rparr>;
                    r2 = push_segment cached r1;
                    r3 = remember_url pick (seg_url seg) (seg_seq seg) r2
                in (seq_counter + 1,
                    broadcast_segment seq_counter (pe_clock env seq_counter) encrypted r3)))))"

text \<open>One turn of the loop, from the test of the running flag on.\<close>

definition pull_turn :: "ring_lib \<Rightarrow> (bytes \<Rightarrow> u64) \<Rightarrow> ((string, u64) map \<Rightarrow> string list) \<Rightarrow> pull_env
    \<Rightarrow> pull_locals \<times> stream_relay \<Rightarrow> pull_locals \<times> stream_relay" where
  "pull_turn R simple_hash pick env = (\<lambda>(l, r).
     (if pl_status l \<noteq> Looping then (l, r)
      else if \<not> pe_running env then (l\<lparr>pl_status := LoopStopped\<rparr>, r)
      else case fetch_url (pe_m3u8 env) of
        None \<Rightarrow>
          (case backoff_next (pl_backoff l, pl_seed l) of
             (Some wait, bo, s) \<Rightarrow> (l\<lparr>pl_backoff := bo, pl_seed := s\<rparr>, r)
           | (None, bo, s) \<Rightarrow> (l\<lparr>pl_backoff := bo, pl_seed := s, pl_status := LoopPanicked\<rparr>, r))
      | Some m3u8_data \<Rightarrow>
          (let l1 = l\<lparr>pl_backoff := backoff_reset (pl_backoff l)\<rparr>;
               current_hash = simple_hash m3u8_data
           in if current_hash = pl_last_m3u8_hash l1 then (l1, r)
              else
                let l2 = l1\<lparr>pl_last_m3u8_hash := current_hash\<rparr>
                in case parse_m3u8 (bytes_str m3u8_data) (sr_origin_url r) of
                     None \<Rightarrow> (l2\<lparr>pl_status := LoopPanicked\<rparr>, r)
                   | Some parsed \<Rightarrow>
                       (case encrypt_with R env m3u8_data r of
                          (Inl e, r1) \<Rightarrow> (l2, r1)
                        | (Inr encrypted, r1) \<Rightarrow>
                            (let n = pl_seq_counter l2;
                                 cached = \<lparr>cs_seq = ucast n, cs_seg_type = M3u8,
                                           cs_data = encrypted, cs_duration = Fin 0\<rparr>;
                                 r2 = broadcast_segment n (pe_clock env n) encrypted (push_segment cached r1);
                                 (n', r3) = fold (pull_segment R pick env) (m3u8_segments parsed) (n + 1, r2)
                             in (l2\<lparr>pl_seq_counter := n'\<rparr>, r3))))))"

definition pull_turns :: "ring_lib \<Rightarrow> (bytes \<Rightarrow> u64) \<Rightarrow> ((string, u64) map \<Rightarrow> string list) \<Rightarrow> pull_env list
    \<Rightarrow> pull_locals \<times> stream_relay \<Rightarrow> pull_locals \<times> stream_relay" where
  "pull_turns R simple_hash pick envs st = fold (pull_turn R simple_hash pick) envs st"

section \<open>The relay provides admission\<close>

datatype relay_op = RelayStart | RelayStop | RelayBytes u64 | RelayPull "stream_relay \<Rightarrow> stream_relay"

text \<open>A pull step changes the task's part of the state only.\<close>

definition pull_part :: "stream_relay \<Rightarrow> stream_relay \<Rightarrow> stream_relay" where
  "pull_part r' r = r\<lparr>sr_encryptor := sr_encryptor r', sr_segments := sr_segments r',
     sr_fetched_urls := sr_fetched_urls r', sr_broadcast := sr_broadcast r'\<rparr>"

fun relay_internal :: "relay_op \<Rightarrow> stream_relay \<Rightarrow> stream_relay" where
  "relay_internal RelayStart r = snd (relay_start r)"
| "relay_internal RelayStop r = relay_stop r"
| "relay_internal (RelayBytes n) r = relay_record_bytes_sent n r"
| "relay_internal (RelayPull f) r = pull_part (f r) r"

interpretation relay: admission relay_add_client relay_remove_client relay_internal
    relay_client_count sr_max_clients
proof unfold_locales
  fix x s
  show "relay_client_count (relay_internal x s) = relay_client_count s"
    by (cases x) (simp_all add: relay_client_count_def relay_start_def relay_stop_def
        relay_record_bytes_sent_def pull_part_def)
  show "sr_max_clients (relay_internal x s) = sr_max_clients s"
    by (cases x) (simp_all add: relay_start_def relay_stop_def relay_record_bytes_sent_def pull_part_def)
qed (auto simp: relay_add_client_def relay_remove_client_def relay_client_count_def)

section \<open>Key and frame sequence numbers stay together\<close>

text \<open>\<open>ring\<close> seals any plaintext of this size under a key of the right length.\<close>

definition ring_seals :: "ring_lib \<Rightarrow> bool" where
  "ring_seals R \<longleftrightarrow> (\<forall>c key nonce pt. length key = key_len c \<longrightarrow> length pt < 2 ^ 32 \<longrightarrow>
     aead_seal R c key nonce pt \<noteq> None)"

text \<open>The playlists and segments an environment serves.\<close>

definition env_data :: "pull_env \<Rightarrow> bytes set" where
  "env_data env = {d. fetch_url (pe_m3u8 env) = Some d \<or> (\<exists>u. fetch_url (pe_segment env u) = Some d)}"

definition env_ok :: "pull_env \<Rightarrow> bool" where
  "env_ok env \<longleftrightarrow> (\<forall>s. length (pe_nonce env s) = 12)
     \<and> (\<forall>d \<in> env_data env. length d < 2 ^ 32)"

lemma chunk_key_length: "ring_sound R \<Longrightarrow> length (derive_chunk_key R ki seq) = key_len (ki_cipher ki)"
  by (cases "ki_cipher ki")
    (auto simp: ring_sound_def derive_chunk_key_def fallback_key_def Let_def split: option.split)

lemma encrypt_chunk_total:
  assumes "ring_sound R" "ring_seals R" "length pt < 2 ^ 32"
  shows "\<exists>c. encrypt_chunk R nonce pt s = (Inr c, s\<lparr>sc_seq := sc_seq s + 1\<rparr>)"
proof -
  have "aead_seal R (ki_cipher (sc_key_info s)) (derive_chunk_key R (sc_key_info s) (sc_seq s)) nonce pt \<noteq> None"
    using assms(2,3) chunk_key_length [OF assms(1)] unfolding ring_seals_def by blast
  then show ?thesis
    using chunk_key_length [OF assms(1), of "sc_key_info s" "sc_seq s"]
    by (auto simp: encrypt_chunk_def Let_def)
qed

lemma encrypt_all_snoc:
  "encrypt_all R ps s = (map Inr cs, s') \<Longrightarrow> encrypt_chunk R n p s' = (Inr c, s'') \<Longrightarrow>
   encrypt_all R (ps @ [(n, p)]) s = (map Inr (cs @ [c]), s'')"
proof (induction ps arbitrary: s cs)
  case (Cons q ps)
  obtain m d where q: "q = (m, d)" by (cases q)
  from Cons.prems(1) [unfolded q] obtain c1 cs' s1 where 1: "cs = c1 # cs'"
    "encrypt_chunk R m d s = (Inr c1, s1)" "encrypt_all R ps s1 = (map Inr cs', s')"
    by (rule encrypt_all_Cons)
  with Cons.IH [OF 1(3) Cons.prems(2)] show ?case by (simp add: q)
qed simp

definition frames_of_chunks :: "bytes list \<Rightarrow> bytes list \<Rightarrow> bool" where
  "frames_of_chunks fs cs \<longleftrightarrow> length fs = length cs \<and> (\<forall>k < length cs. \<exists>ts.
     fs ! k = frame_encode (frame_new_with_ts Data (word_of_nat k) ts (cs ! k)))"

definition relay_sync :: "ring_lib \<Rightarrow> key_info \<Rightarrow> bytes set \<Rightarrow> u32 \<Rightarrow> stream_relay \<Rightarrow> (bytes \<times> bytes) list \<Rightarrow> bytes list \<Rightarrow> bool" where
  "relay_sync R ki S seq r ps cs \<longleftrightarrow> nonces_ok ps \<and> snd ` set ps \<subseteq> S
     \<and> encrypt_all R ps (stream_cipher_new ki) = (map Inr cs, sr_encryptor r)
     \<and> seq = word_of_nat (length cs) \<and> frames_of_chunks (sr_broadcast r) cs
     \<and> (\<forall>s \<in> set (sr_segments r). cs_data s \<in> set cs)"

lemma frames_of_chunks_snoc:
  "frames_of_chunks fs cs \<Longrightarrow>
   frames_of_chunks (fs @ [frame_encode (frame_new_with_ts Data (word_of_nat (length cs)) ts c)]) (cs @ [c])"
  by (auto simp: frames_of_chunks_def nth_append less_Suc_eq)

lemma sync_encrypt:
  assumes R: "ring_sound R" "ring_seals R" and sync: "relay_sync R ki S seq r ps cs"
    and d: "length d < 2 ^ 32" "d \<in> S" and n: "length (pe_nonce env (sc_seq (sr_encryptor r))) = 12"
  obtains c r1 where "encrypt_with R env d r = (Inr c, r1)"
    "sr_segments r1 = sr_segments r" "sr_max_segments r1 = sr_max_segments r"
    "\<And>r2 ts. sr_encryptor r2 = sr_encryptor r1 \<Longrightarrow> sr_broadcast r2 = sr_broadcast r1 \<Longrightarrow>
       (\<forall>s \<in> set (sr_segments r2). cs_data s \<in> set (cs @ [c])) \<Longrightarrow>
       relay_sync R ki S (seq + 1) (broadcast_segment seq ts c r2)
         (ps @ [(pe_nonce env (sc_seq (sr_encryptor r)), d)]) (cs @ [c])"
proof -
  let ?n = "pe_nonce env (sc_seq (sr_encryptor r))"
  from encrypt_chunk_total [OF R d(1), of ?n "sr_encryptor r"] obtain c where
    c: "encrypt_chunk R ?n d (sr_encryptor r) = (Inr c, (sr_encryptor r)\<lparr>sc_seq := sc_seq (sr_encryptor r) + 1\<rparr>)"
    by blast
  let ?r1 = "r\<lparr>sr_encryptor := (sr_encryptor r)\<lparr>sc_seq := sc_seq (sr_encryptor r) + 1\<rparr>\<rparr>"
  show ?thesis
  proof (rule that [of c ?r1])
    fix r2 :: stream_relay and ts
    assume r2: "sr_encryptor r2 = sr_encryptor ?r1" "sr_broadcast r2 = sr_broadcast ?r1"
      "\<forall>s \<in> set (sr_segments r2). cs_data s \<in> set (cs @ [c])"
    show "relay_sync R ki S (seq + 1) (broadcast_segment seq ts c r2) (ps @ [(?n, d)]) (cs @ [c])"
      unfolding relay_sync_def
    proof (intro conjI)
      show "snd ` set (ps @ [(?n, d)]) \<subseteq> S" using sync d(2) by (auto simp: relay_sync_def)
      show "nonces_ok (ps @ [(?n, d)])" using sync n by (auto simp: relay_sync_def nonces_ok_def)
      show "encrypt_all R (ps @ [(?n, d)]) (stream_cipher_new ki)
          = (map Inr (cs @ [c]), sr_encryptor (broadcast_segment seq ts c r2))"
        using sync encrypt_all_snoc [OF _ c] r2(1) by (auto simp: relay_sync_def broadcast_segment_def)
      show "frames_of_chunks (sr_broadcast (broadcast_segment seq ts c r2)) (cs @ [c])"
        using sync r2(2) frames_of_chunks_snoc [of "sr_broadcast r" cs ts c]
        by (simp add: relay_sync_def broadcast_segment_def)
      show "seq + 1 = word_of_nat (length (cs @ [c]))" using sync by (simp add: relay_sync_def)
      show "\<forall>s \<in> set (sr_segments (broadcast_segment seq ts c r2)). cs_data s \<in> set (cs @ [c])"
        using r2(3) by (simp add: broadcast_segment_def)
    qed
  qed (simp_all add: encrypt_with_def c)
qed

lemma push_segment_set:
  "s \<in> set (sr_segments (push_segment c r)) \<Longrightarrow> s = c \<or> s \<in> set (sr_segments r)"
  using set_last_n [of "sr_max_segments r" "sr_segments r @ [c]"]
  by (auto simp: push_segment_def evict_front_last_n)

lemma push_remember_fields [simp]:
  "sr_encryptor (push_segment c r) = sr_encryptor r"
  "sr_broadcast (push_segment c r) = sr_broadcast r"
  "sr_max_segments (push_segment c r) = sr_max_segments r"
  "sr_fetched_urls (push_segment c r) = sr_fetched_urls r"
  "sr_encryptor (remember_url pick u q r) = sr_encryptor r"
  "sr_broadcast (remember_url pick u q r) = sr_broadcast r"
  "sr_segments (remember_url pick u q r) = sr_segments r"
  "sr_max_segments (remember_url pick u q r) = sr_max_segments r"
  "sr_segments (broadcast_segment k t d r) = sr_segments r"
  "sr_max_segments (broadcast_segment k t d r) = sr_max_segments r"
  "sr_fetched_urls (broadcast_segment k t d r) = sr_fetched_urls r"
  "length (sr_broadcast (broadcast_segment k t d r)) = Suc (length (sr_broadcast r))"
  by (simp_all add: push_segment_def remember_url_def broadcast_segment_def Let_def)

lemma sync_segment:
  assumes "ring_sound R" "ring_seals R" "env_ok env" "env_data env \<subseteq> S" "relay_sync R ki S seq r ps cs"
  shows "\<exists>ps cs. relay_sync R ki S (fst (pull_segment R pick env seg (seq, r)))
    (snd (pull_segment R pick env seg (seq, r))) ps cs"
proof (cases "sr_fetched_urls r (seg_url seg) = None \<and> fetch_url (pe_segment env (seg_url seg)) \<noteq> None")
  case False
  then have "pull_segment R pick env seg (seq, r) = (seq, r)"
    by (auto simp: pull_segment_def split: option.split)
  with assms(5) show ?thesis by auto
next
  case True
  then obtain d where d: "fetch_url (pe_segment env (seg_url seg)) = Some d" by blast
  with assms(3,4) have len: "length d < 2 ^ 32" and S: "d \<in> S" by (auto simp: env_ok_def env_data_def)
  have n: "length (pe_nonce env (sc_seq (sr_encryptor r))) = 12" using assms(3) by (simp add: env_ok_def)
  obtain c r1 where e: "encrypt_with R env d r = (Inr c, r1)" "sr_segments r1 = sr_segments r"
    "\<And>r2 ts. sr_encryptor r2 = sr_encryptor r1 \<Longrightarrow> sr_broadcast r2 = sr_broadcast r1 \<Longrightarrow>
       (\<forall>s \<in> set (sr_segments r2). cs_data s \<in> set (cs @ [c])) \<Longrightarrow>
       relay_sync R ki S (seq + 1) (broadcast_segment seq ts c r2)
         (ps @ [(pe_nonce env (sc_seq (sr_encryptor r)), d)]) (cs @ [c])"
    using sync_encrypt [OF assms(1,2,5) len S n] by metis
  have old: "\<forall>s \<in> set (sr_segments r). cs_data s \<in> set cs" using assms(5) by (simp add: relay_sync_def)
  let ?c = "\<lparr>cs_seq = seg_seq seg, cs_seg_type = Ts, cs_data = c, cs_duration = seg_duration seg\<rparr>"
  let ?r2 = "remember_url pick (seg_url seg) (seg_seq seg) (push_segment ?c r1)"
  have "relay_sync R ki S (seq + 1) (broadcast_segment seq (pe_clock env seq) c ?r2)
      (ps @ [(pe_nonce env (sc_seq (sr_encryptor r)), d)]) (cs @ [c])"
    by (rule e(3)) (use old e(2) in \<open>auto dest!: push_segment_set\<close>)
  then show ?thesis using True d e(1) by (auto simp: pull_segment_def Let_def)
qed

lemma sync_segments:
  assumes "ring_sound R" "ring_seals R" "env_ok env" "env_data env \<subseteq> S"
  shows "relay_sync R ki S seq r ps cs \<Longrightarrow>
    \<exists>ps cs. relay_sync R ki S (fst (fold (pull_segment R pick env) segs (seq, r)))
      (snd (fold (pull_segment R pick env) segs (seq, r))) ps cs"
proof (induction segs arbitrary: seq r ps cs)
  case (Cons seg segs)
  from sync_segment [OF assms Cons.prems, of pick seg] obtain ps' cs' where
    "relay_sync R ki S (fst (pull_segment R pick env seg (seq, r)))
      (snd (pull_segment R pick env seg (seq, r))) ps' cs'" by blast
  from Cons.IH [OF this] show ?case by simp
qed auto

lemma sync_turn:
  assumes "ring_sound R" "ring_seals R" "env_ok env" "env_data env \<subseteq> S"
    "relay_sync R ki S (pl_seq_counter l) r ps cs"
  shows "\<exists>ps cs. relay_sync R ki S (pl_seq_counter (fst (pull_turn R h pick env (l, r))))
    (snd (pull_turn R h pick env (l, r))) ps cs"
proof (cases "fetch_url (pe_m3u8 env)")
  case None
  with assms(5) show ?thesis by (auto simp: pull_turn_def split: prod.splits option.splits)
next
  case (Some d)
  show ?thesis
  proof (cases "pl_status l = Looping \<and> pe_running env \<and> h d \<noteq> pl_last_m3u8_hash l
      \<and> parse_m3u8 (bytes_str d) (sr_origin_url r) \<noteq> None")
    case False
    with assms(5) Some show ?thesis by (auto simp: pull_turn_def Let_def split: option.splits)
  next
    case True
    then obtain parsed where p: "parse_m3u8 (bytes_str d) (sr_origin_url r) = Some parsed" by blast
    have len: "length d < 2 ^ 32" and S: "d \<in> S"
      using assms(3,4) Some by (auto simp: env_ok_def env_data_def)
    have n: "length (pe_nonce env (sc_seq (sr_encryptor r))) = 12" using assms(3) by (simp add: env_ok_def)
    let ?k = "pl_seq_counter l"
    obtain c r1 where e: "encrypt_with R env d r = (Inr c, r1)" "sr_segments r1 = sr_segments r"
      "\<And>r2 ts. sr_encryptor r2 = sr_encryptor r1 \<Longrightarrow> sr_broadcast r2 = sr_broadcast r1 \<Longrightarrow>
         (\<forall>s \<in> set (sr_segments r2). cs_data s \<in> set (cs @ [c])) \<Longrightarrow>
         relay_sync R ki S (?k + 1) (broadcast_segment ?k ts c r2)
           (ps @ [(pe_nonce env (sc_seq (sr_encryptor r)), d)]) (cs @ [c])"
      using sync_encrypt [OF assms(1,2,5) len S n] by metis
    have old: "\<forall>s \<in> set (sr_segments r). cs_data s \<in> set cs" using assms(5) by (simp add: relay_sync_def)
    let ?c = "\<lparr>cs_seq = ucast ?k, cs_seg_type = M3u8, cs_data = c, cs_duration = Fin 0\<rparr>"
    let ?r2 = "broadcast_segment ?k (pe_clock env ?k) c (push_segment ?c r1)"
    have "relay_sync R ki S (?k + 1) ?r2
        (ps @ [(pe_nonce env (sc_seq (sr_encryptor r)), d)]) (cs @ [c])"
      by (rule e(3)) (use old e(2) in \<open>auto dest!: push_segment_set\<close>)
    from sync_segments [OF assms(1-4) this, of pick "m3u8_segments parsed"] show ?thesis
      using True Some p e(1) by (auto simp: pull_turn_def Let_def case_prod_unfold)
  qed
qed

lemma sync_turns:
  assumes "ring_sound R" "ring_seals R"
  shows "\<forall>env \<in> set envs. env_ok env \<and> env_data env \<subseteq> S \<Longrightarrow> relay_sync R ki S (pl_seq_counter (fst st)) (snd st) ps cs \<Longrightarrow>
    \<exists>ps cs. relay_sync R ki S (pl_seq_counter (fst (pull_turns R h pick envs st)))
      (snd (pull_turns R h pick envs st)) ps cs"
proof (induction envs arbitrary: st ps cs)
  case (Cons env envs)
  obtain l r where st: "st = (l, r)" by (cases st)
  have "env_ok env" "env_data env \<subseteq> S" using Cons.prems(1) by simp_all
  from sync_turn [OF assms this, of ki l r ps cs h pick] Cons.prems(2) obtain ps' cs' where
    "relay_sync R ki S (pl_seq_counter (fst (pull_turn R h pick env st))) (snd (pull_turn R h pick env st)) ps' cs'"
    by (auto simp: st)
  from Cons.IH [OF _ this] Cons.prems(1) show ?case by (simp add: pull_turns_def)
qed (auto simp: pull_turns_def)

lemma sync_new: "relay_sync R ki S (pl_seq_counter (pull_locals_new seed))
  (stream_relay_new key url ki mc ms) [] []"
  by (simp add: relay_sync_def pull_locals_new_def stream_relay_new_def nonces_ok_def frames_of_chunks_def)

lemma encrypt_all_lengths:
  assumes "ring_sound R"
  shows "nonces_ok ps \<Longrightarrow> encrypt_all R ps s = (map Inr cs, s') \<Longrightarrow>
    map length cs = map (\<lambda>p. length (snd p) + 28) ps"
proof (induction ps arbitrary: s cs)
  case (Cons p ps)
  obtain nonce pt where p: "p = (nonce, pt)" by (cases p)
  from Cons.prems(2) [unfolded p] obtain c cs' s1 where c: "cs = c # cs'"
    "encrypt_chunk R nonce pt s = (Inr c, s1)" "encrypt_all R ps s1 = (map Inr cs', s')"
    by (rule encrypt_all_Cons)
  from encrypt_chunk_Inr [OF c(2)] obtain ct tag where ct: "c = nonce @ ct @ tag"
    "aead_seal R (ki_cipher (sc_key_info s)) (derive_chunk_key R (sc_key_info s) (sc_seq s)) nonce pt
       = Some (ct, tag)" .
  from assms ct(2) have "length ct = length pt" "length tag = 16" unfolding ring_sound_def by blast+
  with ct(1) Cons.IH [OF _ c(3)] Cons.prems(1) show ?case by (simp add: c(1) p nonces_ok_def)
qed simp

text \<open>The whole run: what was sealed is what the environments served.\<close>

lemma sync_run:
  assumes "ring_sound R" "ring_seals R" "\<forall>env \<in> set envs. env_ok env"
    and "pull_turns R h pick envs (pull_locals_new seed, stream_relay_new key url ki mc ms) = (l, r)"
  obtains ps cs where "relay_sync R ki (\<Union> (env_data ` set envs)) (pl_seq_counter l) r ps cs"
  using sync_turns [OF assms(1,2), of envs "\<Union> (env_data ` set envs)" ki
      "(pull_locals_new seed, stream_relay_new key url ki mc ms)" "[]" "[]" h pick] sync_new assms(3,4)
  by auto

lemma decrypt_all_length: "length (fst (decrypt_all R cs s)) = length cs"
  by (induction cs arbitrary: s) (simp_all add: case_prod_unfold)

text \<open>The \<open>k\<close>-th chunk of a stream under another key.\<close>

lemma nth_chunk_wrong_key:
  assumes "ring_sound R"
  shows "ring_authentic R (sc_key_info s) \<Longrightarrow> nonces_ok ps \<Longrightarrow> encrypt_all R ps s = (map Inr cs, s') \<Longrightarrow>
    k < length cs \<Longrightarrow> sc_key_info t = sc_key_info s \<Longrightarrow> sc_seq t \<noteq> sc_seq s + word_of_nat k \<Longrightarrow>
    fst (decrypt_chunk R (cs ! k) t) = Inl DecryptFailed"
proof (induction ps arbitrary: s cs k)
  case (Cons p ps)
  obtain nonce pt where p: "p = (nonce, pt)" by (cases p)
  from Cons.prems(3) [unfolded p] obtain c cs' s1 where c: "cs = c # cs'"
    "encrypt_chunk R nonce pt s = (Inr c, s1)" "encrypt_all R ps s1 = (map Inr cs', s')"
    by (rule encrypt_all_Cons)
  have n: "length nonce = 12" "nonces_ok ps" using Cons.prems(2) by (auto simp: nonces_ok_def p)
  have s1: "s1 = s\<lparr>sc_seq := sc_seq s + 1\<rparr>" using encrypt_chunk_state [of R nonce pt s] c(2) by simp
  show ?case
  proof (cases k)
    case 0
    with decrypt_out_of_step [OF assms Cons.prems(1) n(1) c(2) Cons.prems(5)] Cons.prems(6) show ?thesis
      by (simp add: c(1))
  next
    case (Suc j)
    with Cons.IH [of s1 cs' j] Cons.prems n(2) c(3) show ?thesis
      by (simp add: c(1) s1 algebra_simps)
  qed
qed simp

section \<open>Caches\<close>

text \<open>The map's iteration yields its keys, each once.\<close>

definition pick_ok :: "((string, u64) map \<Rightarrow> string list) \<Rightarrow> bool" where
  "pick_ok pick \<longleftrightarrow> (\<forall>m. finite (dom m) \<longrightarrow> set (pick m) = dom m \<and> distinct (pick m))"

lemma remember_bounded:
  assumes "pick_ok pick" "finite (dom (sr_fetched_urls r))" "card (dom (sr_fetched_urls r)) \<le> 100"
  shows "finite (dom (sr_fetched_urls (remember_url pick u q r)))
    \<and> card (dom (sr_fetched_urls (remember_url pick u q r))) \<le> 100"
proof -
  let ?m = "(sr_fetched_urls r)(u \<mapsto> q)"
  have fin: "finite (dom ?m)" using assms(2) by simp
  have le: "card (dom ?m) \<le> 101"
    using assms(2,3) card_insert_le_m1 [of 101 "dom (sr_fetched_urls r)" u] by simp
  show ?thesis
  proof (cases "card (dom ?m) > 100")
    case False
    with fin show ?thesis by (simp add: remember_url_def Let_def)
  next
    case True
    have pk: "set (pick ?m) = dom ?m" "distinct (pick ?m)" using assms(1) fin by (auto simp: pick_ok_def)
    then have "length (pick ?m) = card (dom ?m)" by (metis distinct_card)
    with True have "card (set (take 20 (pick ?m))) = 20"
      using pk(2) by (simp add: distinct_card)
    moreover have "set (take 20 (pick ?m)) \<subseteq> dom ?m" using pk(1) by (metis set_take_subset)
    ultimately have "card (dom ?m - set (take 20 (pick ?m))) = card (dom ?m) - 20"
      by (simp add: card_Diff_subset)
    moreover have "dom (sr_fetched_urls (remember_url pick u q r)) = dom ?m - set (take 20 (pick ?m))"
      using True by (auto simp: remember_url_def Let_def)
    ultimately show ?thesis using le fin by simp
  qed
qed

text \<open>The effect of a turn on the segment cache, in terms of what it broadcast.\<close>

lemma last_n_append: "last_n n (last_n n xs @ ys) = last_n n (xs @ ys)"
proof (induction ys rule: rev_induct)
  case Nil
  then show ?case by (simp add: last_n_def)
next
  case (snoc y ys)
  then show ?case by (metis append.assoc last_n_snoc)
qed

definition cache_ok :: "stream_relay \<Rightarrow> bool" where
  "cache_ok r \<longleftrightarrow> length (sr_segments r) \<le> sr_max_segments r
     \<and> finite (dom (sr_fetched_urls r)) \<and> card (dom (sr_fetched_urls r)) \<le> 100"

definition adds_ts :: "stream_relay \<Rightarrow> stream_relay \<Rightarrow> cached_segment list \<Rightarrow> bool" where
  "adds_ts r r' news \<longleftrightarrow> sr_max_segments r' = sr_max_segments r
     \<and> sr_segments r' = last_n (sr_max_segments r) (sr_segments r @ news)
     \<and> prefix (sr_broadcast r) (sr_broadcast r')
     \<and> length (sr_broadcast r') = length (sr_broadcast r) + length news
     \<and> (\<forall>s \<in> set news. cs_seg_type s = Ts)"

lemma encrypt_with_fields:
  "encrypt_with R env d r = (res, r1) \<Longrightarrow> sr_segments r1 = sr_segments r
    \<and> sr_max_segments r1 = sr_max_segments r \<and> sr_fetched_urls r1 = sr_fetched_urls r
    \<and> sr_broadcast r1 = sr_broadcast r"
  by (auto simp: encrypt_with_def split: prod.splits)

lemma pull_segment_cache:
  assumes ok: "pick_ok pick" "cache_ok r"
    and step: "pull_segment R pick env seg (seq, r) = (seq', r')"
  shows "cache_ok r' \<and> (\<exists>news. adds_ts r r' news)"
proof -
  have nil: "adds_ts r x []" if "sr_segments x = sr_segments r" "sr_max_segments x = sr_max_segments r"
    "sr_broadcast x = sr_broadcast r" for x
    using that ok(2) by (simp add: adds_ts_def cache_ok_def)
  consider (skip) "sr_segments r' = sr_segments r" "sr_max_segments r' = sr_max_segments r"
      "sr_fetched_urls r' = sr_fetched_urls r" "sr_broadcast r' = sr_broadcast r"
    | (add) c r1 t where "sr_segments r1 = sr_segments r" "sr_max_segments r1 = sr_max_segments r"
      "sr_fetched_urls r1 = sr_fetched_urls r" "sr_broadcast r1 = sr_broadcast r" "cs_seg_type c = Ts"
      "r' = broadcast_segment seq t (cs_data c) (remember_url pick (seg_url seg) (seg_seq seg) (push_segment c r1))"
  proof (cases "sr_fetched_urls r (seg_url seg) = None \<and> fetch_url (pe_segment env (seg_url seg)) \<noteq> None")
    case False
    with step have "r' = r" by (auto simp: pull_segment_def split: option.splits if_splits)
    then show ?thesis using that(1) by simp
  next
    case True
    then obtain d where d: "fetch_url (pe_segment env (seg_url seg)) = Some d" by blast
    obtain res r1 where e: "encrypt_with R env d r = (res, r1)" by (cases "encrypt_with R env d r")
    note f = encrypt_with_fields [OF e]
    show ?thesis
    proof (cases res)
      case (Inl x)
      with step True d e have "r' = r1" by (auto simp: pull_segment_def)
      with f show ?thesis using that(1) by simp
    next
      case (Inr c)
      with step True d e f show ?thesis
        using that(2) [of r1 "\<lparr>cs_seq = seg_seq seg, cs_seg_type = Ts, cs_data = c,
          cs_duration = seg_duration seg\<rparr>" "pe_clock env seq"]
        by (auto simp: pull_segment_def Let_def)
    qed
  qed
  then show ?thesis
  proof cases
    case skip
    with ok(2) nil [of r'] show ?thesis by (auto simp: cache_ok_def)
  next
    case add
    have "adds_ts r r' [c]"
      using add by (simp add: adds_ts_def push_segment_def evict_front_last_n)
        (simp add: broadcast_segment_def)
    moreover have "cache_ok r'"
      using add(1-4) ok(2) remember_bounded [OF ok(1), of "push_segment c r1" "seg_url seg" "seg_seq seg"]
      by (simp add: add(6) cache_ok_def push_segment_def evict_front_last_n)
    ultimately show ?thesis by blast
  qed
qed

lemma adds_ts_trans:
  "adds_ts r r1 xs \<Longrightarrow> adds_ts r1 r2 ys \<Longrightarrow> adds_ts r r2 (xs @ ys)"
  by (auto simp: adds_ts_def last_n_append)

lemma pull_segments_cache:
  assumes "pick_ok pick"
  shows "cache_ok r \<Longrightarrow> fold (pull_segment R pick env) segs (seq, r) = (seq', r') \<Longrightarrow>
    cache_ok r' \<and> (\<exists>news. adds_ts r r' news)"
proof (induction segs arbitrary: seq r)
  case Nil
  then show ?case by (auto simp: adds_ts_def cache_ok_def intro: exI [of _ "[]"])
next
  case (Cons seg segs)
  obtain seq1 r1 where 1: "pull_segment R pick env seg (seq, r) = (seq1, r1)"
    by (cases "pull_segment R pick env seg (seq, r)")
  from pull_segment_cache [OF assms Cons.prems(1) 1] obtain xs where x: "cache_ok r1" "adds_ts r r1 xs" by blast
  from Cons.IH [OF x(1)] Cons.prems(2) 1 obtain ys where "cache_ok r'" "adds_ts r1 r' ys" by auto
  with adds_ts_trans [OF x(2)] show ?case by blast
qed

text \<open>
  A turn either leaves the segments and the broadcast alone, or pushes the new playlist
  followed by the TS segments it fetched.
\<close>

text \<open>A turn of the pull loop changes nothing, or fails to encrypt the playlist, or pushes it and its segments.\<close>

lemma pull_turn_cases:
  assumes "pull_turn R h pick env (l, r) = (l', r')"
  obtains (idle) "r' = r"
    | (fail) d e where "encrypt_with R env d r = (Inl e, r')"
    | (push) d c r1 and l2 :: pull_locals and parsed :: m3u8_info where "encrypt_with R env d r = (Inr c, r1)"
      "fold (pull_segment R pick env) (m3u8_segments parsed) (pl_seq_counter l + 1,
         broadcast_segment (pl_seq_counter l) (pe_clock env (pl_seq_counter l)) c
           (push_segment \<lparr>cs_seq = ucast (pl_seq_counter l), cs_seg_type = M3u8,
              cs_data = c, cs_duration = Fin 0\<rparr> r1)) = (pl_seq_counter l2, r')"
proof (cases "fetch_url (pe_m3u8 env)")
  case None
  with assms have "r' = r"
    by (auto simp: pull_turn_def split: if_splits prod.splits option.splits)
  then show ?thesis by (rule idle)
next
  case (Some d)
  show ?thesis
  proof (cases "pl_status l = Looping \<and> pe_running env \<and> h d \<noteq> pl_last_m3u8_hash l
      \<and> parse_m3u8 (bytes_str d) (sr_origin_url r) \<noteq> None")
    case False
    with Some assms have "r' = r"
      by (auto simp: pull_turn_def Let_def split: if_splits option.splits)
    then show ?thesis by (rule idle)
  next
    case True
    then obtain parsed where p: "parse_m3u8 (bytes_str d) (sr_origin_url r) = Some parsed" by blast
    obtain res r1 where e: "encrypt_with R env d r = (res, r1)" by (cases "encrypt_with R env d r")
    show ?thesis
    proof (cases res)
      case (Inl x)
      with True Some p e assms show ?thesis
        by (intro fail [of d x]) (auto simp: pull_turn_def Let_def)
    next
      case (Inr c)
      with True Some p e assms show ?thesis
        by (intro push [of d c r1 parsed l']) (auto simp: pull_turn_def Let_def split: prod.splits)
    qed
  qed
qed

lemma relay_turn_cache:
  assumes "pick_ok pick" "cache_ok r" "pull_turn R h pick env (l, r) = (l', r')"
  shows "cache_ok r' \<and> sr_max_segments r' = sr_max_segments r
    \<and> (sr_segments r' = sr_segments r \<and> sr_broadcast r' = sr_broadcast r
       \<or> (\<exists>c news ts fs. sr_segments r' = last_n (sr_max_segments r) (sr_segments r @ c # news)
            \<and> sr_broadcast r' = sr_broadcast r
                @ frame_encode (frame_new_with_ts Data (pl_seq_counter l) ts (cs_data c)) # fs
            \<and> length fs = length news \<and> cs_seg_type c = M3u8
            \<and> (\<forall>s \<in> set news. cs_seg_type s = Ts)))"
  using assms(3)
proof (cases rule: pull_turn_cases)
  case idle
  with assms(2) show ?thesis by simp
next
  case fail
  from encrypt_with_fields [OF fail] assms(2) show ?thesis by (simp add: cache_ok_def)
next
  case (push d c r1 l2 parsed)
  let ?c = "\<lparr>cs_seq = ucast (pl_seq_counter l), cs_seg_type = M3u8,
            cs_data = c, cs_duration = Fin 0\<rparr>"
  let ?r2 = "broadcast_segment (pl_seq_counter l) (pe_clock env (pl_seq_counter l)) c (push_segment ?c r1)"
  note f = encrypt_with_fields [OF push(1)]
  have ok2: "cache_ok ?r2"
    using f assms(2) by (simp add: cache_ok_def push_segment_def evict_front_last_n broadcast_segment_def)
  from pull_segments_cache [OF assms(1) ok2 push(2)] obtain news where
    n: "cache_ok r'" "adds_ts ?r2 r' news" by blast
  from n(2) obtain fs where fs: "sr_broadcast r' = sr_broadcast ?r2 @ fs" "length fs = length news"
    by (auto simp: adds_ts_def prefix_def)
  have "sr_segments r' = last_n (sr_max_segments r) (sr_segments r @ ?c # news)"
    using n(2) f by (simp add: adds_ts_def push_segment_def evict_front_last_n last_n_append)
  moreover have "sr_broadcast ?r2 = sr_broadcast r
      @ [frame_encode (frame_new_with_ts Data (pl_seq_counter l) (pe_clock env (pl_seq_counter l)) c)]"
    using f by (simp add: broadcast_segment_def push_segment_def)
  ultimately show ?thesis
    using n fs f by (intro conjI disjI2 exI [of _ ?c] exI [of _ news] exI [of _ fs]
        exI [of _ "pe_clock env (pl_seq_counter l)"]) (auto simp: adds_ts_def)
qed

lemma find_last_n:
  fixes c :: cached_segment
  assumes "\<forall>s \<in> set news. cs_seg_type s = Ts" "cs_seg_type c = M3u8"
  shows "find (\<lambda>s. cs_seg_type s = M3u8) (rev (last_n m (old @ c # news)))
    = (if length news < m then Some c else None)"
proof -
  have ts: "find (\<lambda>s. cs_seg_type s = M3u8) xs = None" if "set xs \<subseteq> set news" for xs
    using that assms(1) by (auto simp: find_None_iff)
  have skip: "find (\<lambda>s. cs_seg_type s = M3u8) (rev news @ ys) = find (\<lambda>s. cs_seg_type s = M3u8) ys" for ys
    using assms(1) by (induction news rule: rev_induct) auto
  have "rev (last_n m xs) = take m (rev xs)" for xs :: "cached_segment list"
    by (cases "m \<le> length xs") (simp_all add: last_n_def rev_drop)
  from this [of "old @ c # news"]
  have rv: "rev (last_n m (old @ c # news)) = take m (rev news @ c # rev old)"
    by (simp del: take_append)
  show ?thesis
  proof (cases "length news < m")
    case True
    then obtain k where "m = length news + Suc k" by (metis less_iff_Suc_add add_Suc_right)
    then show ?thesis unfolding rv using True assms(2) by (simp add: skip)
  next
    case False
    have "set (take m (rev news @ c # rev old)) \<subseteq> set news"
      using False set_take_subset [of m "rev news"] by auto
    with ts False show ?thesis unfolding rv by simp
  qed
qed

section \<open>Properties\<close>

text \<open>
  C19: the encrypted broadcast is decryptable from the start. If sealing never fails, then
  after any run of the pull loop, whatever the origin served, the \<open>k\<close>-th broadcast message
  is the encoding of a data frame with sequence number \<open>k\<close>, and a viewer that decrypts the
  payloads in order from the first one recovers a plaintext for every single frame.
\<close>

theorem broadcast_decryptable:
  assumes "ring_sound R" "ring_seals R" "\<forall>env \<in> set envs. env_ok env"
    and "pull_turns R h pick envs (pull_locals_new seed, stream_relay_new key url ki mc ms) = (l, r)"
  shows "\<exists>cs plains. frames_of_chunks (sr_broadcast r) cs
    \<and> fst (decrypt_all R cs (stream_cipher_new ki)) = map Inr plains
    \<and> map length cs = map (\<lambda>d. length d + 28) plains
    \<and> set plains \<subseteq> \<Union> (env_data ` set envs)"
proof -
  obtain ps cs where s: "relay_sync R ki (\<Union> (env_data ` set envs)) (pl_seq_counter l) r ps cs"
    using sync_run [OF assms] .
  then have "decrypt_all R cs (stream_cipher_new ki) = (map (Inr \<circ> snd) ps, sr_encryptor r)"
    by (intro decrypt_all_in_step [OF assms(1)]) (auto simp: relay_sync_def)
  moreover have "map length cs = map (\<lambda>p. length (snd p) + 28) ps"
    using encrypt_all_lengths [OF assms(1)] s by (auto simp: relay_sync_def)
  ultimately show ?thesis
    using s by (intro exI [of _ cs] exI [of _ "map snd ps"]) (auto simp: relay_sync_def)
qed

text \<open>
  But the playlist handed to a new viewer is not. A connection first receives the
  cached playlist chunk as a frame with sequence number 0; that chunk was broadcast as some
  frame \<open>k\<close> and sealed under the key of \<open>k\<close>, so unless \<open>k\<close> is 0 (modulo \<open>2 ^ 32\<close>), decrypting
  it as chunk 0 fails.
\<close>

theorem initial_playlist_wrong_key:
  assumes "ring_sound R" "ring_seals R" "ring_authentic R ki" "\<forall>env \<in> set envs. env_ok env"
    and "pull_turns R h pick envs (pull_locals_new seed, stream_relay_new key url ki mc ms) = (l, r)"
    and "latest_m3u8 r = Some d"
  shows "\<exists>k < length (sr_broadcast r). \<exists>ts.
      sr_broadcast r ! k = frame_encode (frame_new_with_ts Data (word_of_nat k) ts d)
      \<and> (word_of_nat k \<noteq> (0 :: u32) \<longrightarrow>
           fst (decrypt_chunk R d (stream_cipher_new ki)) = Inl DecryptFailed)"
proof -
  obtain ps cs where s: "relay_sync R ki (\<Union> (env_data ` set envs)) (pl_seq_counter l) r ps cs"
    using sync_run [OF assms(1,2,4,5)] .
  from assms(6) obtain seg where "find (\<lambda>s. cs_seg_type s = M3u8) (rev (sr_segments r)) = Some seg"
    "cs_data seg = d" by (auto simp: latest_m3u8_def)
  then have "seg \<in> set (sr_segments r)" "cs_data seg = d"
    by (auto simp: find_Some_iff) (metis length_rev nth_mem set_rev)
  with s have "d \<in> set cs" by (auto simp: relay_sync_def)
  then obtain k where k: "k < length cs" "cs ! k = d" by (auto simp: in_set_conv_nth)
  have "fst (decrypt_chunk R d (stream_cipher_new ki)) = Inl DecryptFailed" if "word_of_nat k \<noteq> (0 :: u32)"
    using s nth_chunk_wrong_key [OF assms(1) _ _ _ k(1), of "stream_cipher_new ki" ps _ "stream_cipher_new ki"]
      assms(3) that k(2)
    by (auto simp: relay_sync_def stream_cipher_new_def)
  with s k show ?thesis by (auto simp: relay_sync_def frames_of_chunks_def)
qed

text \<open>
  What \<open>latest_m3u8\<close> answers. A turn of the pull loop either changes neither the cache
  nor the broadcast, or broadcasts a new playlist followed by \<open>n\<close> new segments; then the
  playlist is the latest one if \<open>n\<close> is below the cache limit, and otherwise it has already
  been evicted by its own segments and there is none.
\<close>

theorem latest_playlist_after_turn:
  assumes "pick_ok pick" "cache_ok r" and "pull_turn R h pick env (l, r) = (l', r')"
  shows "latest_m3u8 r' = latest_m3u8 r \<and> sr_broadcast r' = sr_broadcast r
    \<or> (\<exists>d ts fs. sr_broadcast r' = sr_broadcast r
          @ frame_encode (frame_new_with_ts Data (pl_seq_counter l) ts d) # fs
        \<and> latest_m3u8 r' = (if length fs < sr_max_segments r then Some d else None))"
proof -
  consider (same) "sr_segments r' = sr_segments r" "sr_broadcast r' = sr_broadcast r"
    | (pushed) c news ts fs where
      "sr_segments r' = last_n (sr_max_segments r) (sr_segments r @ c # news)"
      "sr_broadcast r' = sr_broadcast r
         @ frame_encode (frame_new_with_ts Data (pl_seq_counter l) ts (cs_data c)) # fs"
      "length fs = length news" "cs_seg_type c = M3u8" "\<forall>s \<in> set news. cs_seg_type s = Ts"
    using relay_turn_cache [OF assms] by blast
  then show ?thesis
  proof cases
    case same
    then show ?thesis by (simp add: latest_m3u8_def)
  next
    case pushed
    have "latest_m3u8 r' = (if length fs < sr_max_segments r then Some (cs_data c) else None)"
      by (simp add: latest_m3u8_def pushed(1) find_last_n [OF pushed(5,4)] pushed(3))
    with pushed(2) show ?thesis by blast
  qed
qed

text \<open>
  C24: the relay's memory is bounded. Whatever the origin serves and for how long, the
  segment cache never exceeds its limit and the map of fetched URLs never exceeds 100
  entries between turns.
\<close>

theorem relay_memory_bounded:
  assumes "pick_ok pick"
    and "pull_turns R h pick envs (pull_locals_new seed, stream_relay_new key url ki mc ms) = (l, r)"
  shows "length (sr_segments r) \<le> ms \<and> card (dom (sr_fetched_urls r)) \<le> 100"
proof -
  have "cache_ok r' \<and> sr_max_segments r' = ms"
    if "pull_turns R h pick es (pull_locals_new seed, stream_relay_new key url ki mc ms) = (l', r')" for es l' r'
    using that
  proof (induction es arbitrary: l' r' rule: rev_induct)
    case Nil
    then show ?case by (auto simp: pull_turns_def cache_ok_def stream_relay_new_def)
  next
    case (snoc e es)
    obtain l1 r1 where 1: "pull_turns R h pick es (pull_locals_new seed, stream_relay_new key url ki mc ms) = (l1, r1)"
      by (cases "pull_turns R h pick es (pull_locals_new seed, stream_relay_new key url ki mc ms)")
    with snoc.prems have "pull_turn R h pick e (l1, r1) = (l', r')" by (simp add: pull_turns_def)
    from relay_turn_cache [OF assms(1) _ this] snoc.IH [OF 1] show ?case by simp
  qed
  from this [OF assms(2)] show ?thesis by (simp add: cache_ok_def)
qed

text \<open>
  The HLS relay's admission obeys the same contract as the FLV relay's: the client
  count never exceeds the maximum, equals the number of slots held when every leave comes
  from an admitted connection, and leaked slots lock everybody out.
\<close>

theorem relay_admission:
  "relay_client_count (snd (run_ops relay_add_client relay_remove_client relay_internal ops
       (stream_relay_new key url ki n ms))) \<le> n
    \<and> (holders 0 (fst (run_ops relay_add_client relay_remove_client relay_internal ops
          (stream_relay_new key url ki n ms))) ops = Some h
        \<longrightarrow> relay_client_count (snd (run_ops relay_add_client relay_remove_client relay_internal ops
          (stream_relay_new key url ki n ms))) = h)
    \<and> \<not> fst (relay_add_client (snd (run_ops relay_add_client relay_remove_client relay_internal
          (replicate n Enter) (stream_relay_new key url ki n ms))))"
proof -
  let ?r = "stream_relay_new key url ki n ms"
  have r: "relay_client_count ?r = 0" "sr_max_clients ?r = n"
    by (simp_all add: stream_relay_new_def relay_client_count_def)
  show ?thesis
    using relay.run_bounded [of ?r ops] relay.run_accounting [of ?r ops h]
      relay.leaked_slots_exhaust [of ?r n] by (simp add: r)
qed

section \<open>A concrete run\<close>

lemma toy_seals: "ring_seals toy_ring"
  by (simp add: ring_seals_def)

definition toy_env :: "bytes \<Rightarrow> pull_env" where
  "toy_env m = \<lparr>pe_running = True, pe_m3u8 = HttpResponse 200 (Some m), pe_segment = (\<lambda>_. HttpError),
     pe_nonce = (\<lambda>_. replicate 12 0), pe_clock = (\<lambda>_. 0)\<rparr>"

definition toy_key :: key_info where
  "toy_key = \<lparr>master_key = [], ki_salt = [], ki_cipher = Aes128Gcm\<rparr>"

definition toy_hash :: "bytes \<Rightarrow> u64" where
  "toy_hash d = 1 + word_of_nat (length d)"

definition toy_pick :: "(string, u64) map \<Rightarrow> string list" where
  "toy_pick m = sorted_list_of_set (dom m)"

lemma toy_pick_ok: "pick_ok toy_pick"
  by (simp add: pick_ok_def toy_pick_def)

lemma toy_env_ok: "length m < 2 ^ 32 \<Longrightarrow> env_ok (toy_env m)"
  by (auto simp: env_ok_def env_data_def toy_env_def fetch_url_def)

lemma parse_blank: "parse_m3u8 (bytes_str []) base = Some (ms_info m3u8_start)"
  "parse_m3u8 (bytes_str [10]) base = Some (ms_info m3u8_start)"
  by (simp_all add: parse_m3u8_def bytes_str_def m3u8_line_def str_trim_def strip_cr_def NL_def
      str_starts_with_def TARGETDURATION_def MEDIA_SEQUENCE_def EXTINF_def Let_def is_ws_def)

abbreviation toy_start :: "pull_locals \<times> stream_relay" where
  "toy_start \<equiv> (pull_locals_new 1, stream_relay_new [] [] toy_key 5 10)"

lemma toy_run:
  "\<exists>l r d. pull_turns toy_ring toy_hash toy_pick [toy_env [], toy_env [10]] toy_start = (l, r)
     \<and> length (sr_broadcast r) = 2 \<and> latest_m3u8 r = Some d \<and> cache_ok r"
proof -
  have "sr_origin_url (stream_relay_new [] [] toy_key 5 10) = []" by (simp add: stream_relay_new_def)
  then show ?thesis
    by (simp add: pull_turns_def pull_turn_def toy_env_def fetch_url_def pull_locals_new_def toy_hash_def
        parse_blank m3u8_start_def encrypt_with_def encrypt_chunk_def stream_relay_new_def
        stream_cipher_new_def toy_chunk_key Let_def push_segment_def broadcast_segment_def
        latest_m3u8_def cache_ok_def)
qed

theorem broadcast_decryptable_witness:
  "\<exists>l r cs plains. pull_turns toy_ring toy_hash toy_pick [toy_env [], toy_env [10]] toy_start = (l, r)
     \<and> length cs = 2 \<and> fst (decrypt_all toy_ring cs (stream_cipher_new toy_key)) = map Inr plains
     \<and> map length cs = map (\<lambda>d. length d + 28) plains"
proof -
  obtain l r where r: "pull_turns toy_ring toy_hash toy_pick [toy_env [], toy_env [10]] toy_start = (l, r)"
    "length (sr_broadcast r) = 2" using toy_run by blast
  have ok: "\<forall>env \<in> set [toy_env [], toy_env [10]]. env_ok env" by (simp add: toy_env_ok)
  from broadcast_decryptable [OF toy_sound toy_seals ok r(1)] obtain cs plains where
    "frames_of_chunks (sr_broadcast r) cs" "map length cs = map (\<lambda>d. length d + 28) plains"
    "fst (decrypt_all toy_ring cs (stream_cipher_new toy_key)) = map Inr plains" by blast
  with r show ?thesis
    by (intro exI [of _ l] exI [of _ r] exI [of _ cs] exI [of _ plains]) (simp add: frames_of_chunks_def)
qed

theorem initial_playlist_wrong_key_witness:
  "\<exists>l r d. pull_turns toy_ring toy_hash toy_pick [toy_env [], toy_env [10]] toy_start = (l, r)
     \<and> latest_m3u8 r = Some d \<and> (\<exists>k < length (sr_broadcast r). \<exists>ts.
      sr_broadcast r ! k = frame_encode (frame_new_with_ts Data (word_of_nat k) ts d))"
proof -
  obtain l r d where r: "pull_turns toy_ring toy_hash toy_pick [toy_env [], toy_env [10]] toy_start = (l, r)"
    "latest_m3u8 r = Some d" using toy_run by blast
  have ok: "\<forall>env \<in> set [toy_env [], toy_env [10]]. env_ok env" by (simp add: toy_env_ok)
  from initial_playlist_wrong_key [OF toy_sound toy_seals toy_authentic ok r] r show ?thesis by blast
qed

theorem latest_playlist_after_turn_witness:
  "\<exists>d. latest_m3u8 (snd (pull_turn toy_ring toy_hash toy_pick (toy_env []) toy_start)) = d"
proof -
  obtain l r where r: "pull_turn toy_ring toy_hash toy_pick (toy_env []) toy_start = (l, r)"
    by (cases "pull_turn toy_ring toy_hash toy_pick (toy_env []) toy_start")
  have "cache_ok (stream_relay_new [] [] toy_key 5 10)" by (simp add: cache_ok_def stream_relay_new_def)
  from latest_playlist_after_turn [OF toy_pick_ok this r] show ?thesis by blast
qed

theorem relay_memory_bounded_witness:
  "\<exists>l r. pull_turns toy_ring toy_hash toy_pick [toy_env [], toy_env [10]] toy_start = (l, r)
     \<and> length (sr_segments r) \<le> 10"
proof -
  obtain l r where r: "pull_turns toy_ring toy_hash toy_pick [toy_env [], toy_env [10]] toy_start = (l, r)"
    using toy_run by blast
  from relay_memory_bounded [OF toy_pick_ok r] r show ?thesis by blast
qed

theorem relay_admission_witness:
  "relay_client_count (snd (run_ops relay_add_client relay_remove_client relay_internal
     [Enter, Enter, Leave] (stream_relay_new [] [] toy_key 1 10))) \<le> 1"
  using relay_admission [of "[Enter, Enter, Leave]" "[]" "[]" toy_key 1 10] by simp

end
