(* ===== verification/Flv_Tag.thy ===== *)
theory Flv_Tag
  imports Rust_Base
begin

text \<open>
  FLV tags and their wire format: the types of agent-rust/src/relay/flv.rs and the two
  builders of agent-rust/src/relay/flv_output.rs.
\<close>

section \<open>Tags\<close>

definition FLV_HEADER_LEN :: nat where "FLV_HEADER_LEN = 9"
definition TAG_HEADER_LEN :: nat where "TAG_HEADER_LEN = 11"
definition PREV_TAG_SIZE_LEN :: nat where "PREV_TAG_SIZE_LEN = 4"

lemmas flv_consts = FLV_HEADER_LEN_def TAG_HEADER_LEN_def PREV_TAG_SIZE_LEN_def

datatype flv_tag_type = Audio | Video | Script

fun flv_tag_type_u8 :: "flv_tag_type \<Rightarrow> u8" where
  "flv_tag_type_u8 Audio = 0x08"
| "flv_tag_type_u8 Video = 0x09"
| "flv_tag_type_u8 Script = 0x12"

definition flv_tag_type_try_from :: "u8 \<Rightarrow> u8 + flv_tag_type" where
  "flv_tag_type_try_from v =
     (if v = 0x08 then Inr Audio
      else if v = 0x09 then Inr Video
      else if v = 0x12 then Inr Script
      else Inl v)"

record flv_tag =
  tag_type :: flv_tag_type
  timestamp_ms :: u32
  tag_data :: bytes
  tag_origin_ts :: u64

lemma flv_try_from_u8 [simp]: "flv_tag_type_try_from (flv_tag_type_u8 t) = Inr t"
  by (cases t) (simp_all add: flv_tag_type_try_from_def)

section \<open>Building the wire format\<close>

definition build_flv_header :: bytes where
  "build_flv_header =
     [0x46, 0x4C, 0x56] @ [0x01] @ [0x05] @ put_u32 9 @ put_u32 0"

definition build_flv_tag_wire :: "flv_tag \<Rightarrow> bytes" where
  "build_flv_tag_wire tag =
     (let data_size = (word_of_nat (length (tag_data tag)) :: u32);
          ts = timestamp_ms tag;
          prev = 11 + data_size
      in [flv_tag_type_u8 (tag_type tag)]
         @ [ucast (drop_bit 16 data_size), ucast (drop_bit 8 data_size), ucast data_size]
         @ [ucast (drop_bit 16 ts), ucast (drop_bit 8 ts), ucast ts]
         @ [ucast (drop_bit 24 ts)]
         @ [0, 0, 0]
         @ tag_data tag
         @ put_u32 prev)"

lemma build_flv_header_eq:
  "build_flv_header = [0x46, 0x4C, 0x56, 1, 5, 0, 0, 0, 9, 0, 0, 0, 0]"
  by code_simp

lemma length_flv_header [simp]: "length build_flv_header = 13"
  by (simp add: build_flv_header_eq)

lemma length_flv_tag_wire [simp]: "length (build_flv_tag_wire t) = 15 + length (tag_data t)"
  by (simp add: build_flv_tag_wire_def Let_def)

section \<open>24-bit fields\<close>

text \<open>The reads of \<open>pull_flv_stream\<close>: three big-endian bytes, and a timestamp with its extension.\<close>

definition get_u24 :: "u8 \<Rightarrow> u8 \<Rightarrow> u8 \<Rightarrow> u32" where
  "get_u24 a b c = (push_bit 16 (ucast a) OR push_bit 8 (ucast b)) OR ucast c"

definition get_flv_timestamp :: "u8 \<Rightarrow> u8 \<Rightarrow> u8 \<Rightarrow> u8 \<Rightarrow> u32" where
  "get_flv_timestamp a b c ext =
     ((push_bit 16 (ucast a) OR push_bit 8 (ucast b)) OR ucast c) OR push_bit 24 (ucast ext)"

lemma get_put_timestamp:
  "get_flv_timestamp (ucast (drop_bit 16 ts)) (ucast (drop_bit 8 ts)) (ucast ts)
     (ucast (drop_bit 24 ts)) = (ts :: u32)"
proof (rule bit_word_eqI)
  fix n
  assume "n < LENGTH(32)"
  then consider "n < 8" | "8 \<le> n \<and> n < 16" | "16 \<le> n \<and> n < 24" | "24 \<le> n \<and> n < 32" by force
  then show "bit (get_flv_timestamp (ucast (drop_bit 16 ts)) (ucast (drop_bit 8 ts)) (ucast ts)
     (ucast (drop_bit 24 ts))) n = bit ts n"
    by cases (auto simp: get_flv_timestamp_def bit_simps)
qed

lemma get_put_u24:
  "get_u24 (ucast (drop_bit 16 w)) (ucast (drop_bit 8 w)) (ucast w) = take_bit 24 (w :: u32)"
proof (rule bit_word_eqI)
  fix n
  assume "n < LENGTH(32)"
  then consider "n < 8" | "8 \<le> n \<and> n < 16" | "16 \<le> n \<and> n < 24" | "24 \<le> n \<and> n < 32" by force
  then show "bit (get_u24 (ucast (drop_bit 16 w)) (ucast (drop_bit 8 w)) (ucast w)) n
      = bit (take_bit 24 w) n"
    by cases (auto simp: get_u24_def bit_simps)
qed

lemma get_put_u24_small:
  assumes "n < 2 ^ 24"
  shows "unat (get_u24 (ucast (drop_bit 16 (word_of_nat n :: u32))) (ucast (drop_bit 8 (word_of_nat n :: u32)))
    (ucast (word_of_nat n :: u32))) = n"
  using assms by (simp only: get_put_u24) (simp add: unsigned_take_bit_eq unat_of_nat take_bit_nat_eq_self)

lemma get_u24_bound: "unat (get_u24 a b c) < 2 ^ 24"
proof -
  have "get_u24 a b c = take_bit 24 (get_u24 a b c)"
    by (rule bit_word_eqI) (auto simp: get_u24_def bit_simps dest: bit_imp_le_length)
  then have "unat (get_u24 a b c) = take_bit 24 (unat (get_u24 a b c))"
    by (metis unsigned_take_bit_eq)
  then show ?thesis by (metis take_bit_nat_less_exp)
qed

end
