(* ===== verification/Gop_Cache.thy ===== *)
theory Gop_Cache
  imports Flv_Tag "HOL-Library.Sublist"
begin

text \<open>
  The GOP cache, agent-rust/src/relay/gop_cache.rs: classification of FLV tags, the cache
  with its ring of finished GOPs and the GOP under construction, and the start-up
  sequence a new viewer receives. The abstract specification \<open>gops_of\<close> splits the whole
  history of tags into GOPs; the cache is proved to hold the last ones of it.
\<close>

section \<open>Frame types\<close>

datatype video_frame_type = VKeyframe | VInterFrame | VSeqHeader | VOther
datatype audio_frame_type = ASeqHeader | ARawData | AOther

definition parse_video_frame_type :: "flv_tag \<Rightarrow> video_frame_type" where
  "parse_video_frame_type tag =
     (if tag_type tag \<noteq> Video \<or> tag_data tag = [] then VOther
      else let first_byte = tag_data tag ! 0;
               ftype = drop_bit 4 first_byte AND 0x0F;
               codec_id = first_byte AND 0x0F;
               by_type = (if ftype = 1 then VKeyframe else if ftype = 2 then VInterFrame else VOther)
           in if codec_id = 7 \<or> codec_id = 12
              then if length (tag_data tag) < 2 then VOther
                   else if tag_data tag ! 1 = 0 then VSeqHeader
                   else by_type
              else by_type)"

definition parse_audio_frame_type :: "flv_tag \<Rightarrow> audio_frame_type" where
  "parse_audio_frame_type tag =
     (if tag_type tag \<noteq> Audio \<or> tag_data tag = [] then AOther
      else let first_byte = tag_data tag ! 0;
               sound_format = drop_bit 4 first_byte AND 0x0F
           in if sound_format = 10
              then if length (tag_data tag) < 2 then AOther
                   else if tag_data tag ! 1 = 0 then ASeqHeader
                   else ARawData
              else AOther)"

section \<open>The cache\<close>

record gop =
  gop_keyframe :: flv_tag
  gop_frames :: "flv_tag list"

definition gop_new :: "flv_tag \<Rightarrow> gop" where
  "gop_new k = \<lparr>gop_keyframe = k, gop_frames = []\<rparr>"

definition gop_all_tags :: "gop \<Rightarrow> flv_tag list" where
  "gop_all_tags g = gop_keyframe g # gop_frames g"

definition gop_len :: "gop \<Rightarrow> nat" where
  "gop_len g = 1 + length (gop_frames g)"

record gop_cache_config =
  gop_count :: nat
  max_frames_per_gop :: nat

definition gop_cache_config_default :: gop_cache_config where
  "gop_cache_config_default = \<lparr>gop_count = 2, max_frames_per_gop = 4096\<rparr>"

record gop_cache =
  gc_config :: gop_cache_config
  gop_ring :: "gop list"
  current_gop :: "gop option"
  gc_metadata :: "flv_tag option"
  video_seq_header :: "flv_tag option"
  aac_seq_header :: "flv_tag option"
  hit_count :: u64
  total_tags :: u64

definition gop_cache_new :: "gop_cache_config \<Rightarrow> gop_cache" where
  "gop_cache_new cfg = \<lparr>gc_config = cfg, gop_ring = [], current_gop = None, gc_metadata = None,
     video_seq_header = None, aac_seq_header = None, hit_count = 0, total_tags = 0\<rparr>"

definition add_to_current_gop :: "flv_tag \<Rightarrow> gop_cache \<Rightarrow> gop_cache" where
  "add_to_current_gop tag c =
     (case current_gop c of
        Some g \<Rightarrow>
          (if gop_len g < max_frames_per_gop (gc_config c)
           then c\<lparr>current_gop := Some (g\<lparr>gop_frames := gop_frames g @ [tag]\<rparr>)\<rparr>
           else c)
      | None \<Rightarrow> c)"

definition finalize_current_gop :: "gop_cache \<Rightarrow> gop_cache" where
  "finalize_current_gop c =
     (case current_gop c of
        Some g \<Rightarrow> c\<lparr>current_gop := None,
                     gop_ring := evict_front (gop_count (gc_config c)) (gop_ring c @ [g])\<rparr>
      | None \<Rightarrow> c)"

definition gop_add_tag :: "flv_tag \<Rightarrow> gop_cache \<Rightarrow> gop_cache" where
  "gop_add_tag tag c0 =
     (let c = c0\<lparr>total_tags := total_tags c0 + 1\<rparr> in
      case tag_type tag of
        Script \<Rightarrow> c\<lparr>gc_metadata := Some tag\<rparr>
      | Audio \<Rightarrow>
          (case parse_audio_frame_type tag of
             ASeqHeader \<Rightarrow> c\<lparr>aac_seq_header := Some tag\<rparr>
           | ARawData \<Rightarrow> add_to_current_gop tag c
           | AOther \<Rightarrow> add_to_current_gop tag c)
      | Video \<Rightarrow>
          (case parse_video_frame_type tag of
             VSeqHeader \<Rightarrow> c\<lparr>video_seq_header := Some tag\<rparr>
           | VKeyframe \<Rightarrow> (finalize_current_gop c)\<lparr>current_gop := Some (gop_new tag)\<rparr>
           | VInterFrame \<Rightarrow> add_to_current_gop tag c
           | VOther \<Rightarrow> add_to_current_gop tag c))"

definition opt_list :: "'a option \<Rightarrow> 'a list" where
  "opt_list x = (case x of None \<Rightarrow> [] | Some a \<Rightarrow> [a])"

definition get_startup_tags :: "gop_cache \<Rightarrow> flv_tag list" where
  "get_startup_tags c =
     opt_list (gc_metadata c) @ opt_list (aac_seq_header c) @ opt_list (video_seq_header c)
       @ concat (map gop_all_tags (gop_ring c))
       @ (case current_gop c of Some g \<Rightarrow> gop_all_tags g | None \<Rightarrow> [])"

definition gop_cache_is_empty :: "gop_cache \<Rightarrow> bool" where
  "gop_cache_is_empty c \<longleftrightarrow> gop_ring c = [] \<and> current_gop c = None"

record gop_cache_stats =
  cached_gops :: nat
  cached_frames :: nat
  has_metadata :: bool
  has_video_seq_header :: bool
  has_aac_seq_header :: bool
  st_total_tags :: u64

definition gop_stats :: "gop_cache \<Rightarrow> gop_cache_stats" where
  "gop_stats c =
     \<lparr>cached_gops = length (gop_ring c),
      cached_frames = sum_list (map gop_len (gop_ring c))
        + (case current_gop c of Some g \<Rightarrow> gop_len g | None \<Rightarrow> 0),
      has_metadata = (gc_metadata c \<noteq> None),
      has_video_seq_header = (video_seq_header c \<noteq> None),
      has_aac_seq_header = (aac_seq_header c \<noteq> None),
      st_total_tags = total_tags c\<rparr>"

definition gop_clear :: "gop_cache \<Rightarrow> gop_cache" where
  "gop_clear c = c\<lparr>gop_ring := [], current_gop := None, gc_metadata := None,
     video_seq_header := None, aac_seq_header := None\<rparr>"

definition gop_run :: "gop_cache_config \<Rightarrow> flv_tag list \<Rightarrow> gop_cache" where
  "gop_run cfg ts = fold gop_add_tag ts (gop_cache_new cfg)"

section \<open>Abstract specification: the history split into GOPs\<close>

abbreviation is_script :: "flv_tag \<Rightarrow> bool" where
  "is_script t \<equiv> tag_type t = Script"

abbreviation is_aac_header :: "flv_tag \<Rightarrow> bool" where
  "is_aac_header t \<equiv> parse_audio_frame_type t = ASeqHeader"

abbreviation is_video_header :: "flv_tag \<Rightarrow> bool" where
  "is_video_header t \<equiv> parse_video_frame_type t = VSeqHeader"

abbreviation is_keyframe :: "flv_tag \<Rightarrow> bool" where
  "is_keyframe t \<equiv> parse_video_frame_type t = VKeyframe"

definition is_media :: "flv_tag \<Rightarrow> bool" where
  "is_media t \<longleftrightarrow> \<not> is_script t \<and> \<not> is_aac_header t \<and> \<not> is_video_header t"

text \<open>
  A GOP starts at a keyframe and runs to the next one; media tags before the first
  keyframe belong to none.
\<close>

definition gops_step :: "flv_tag list list \<Rightarrow> flv_tag \<Rightarrow> flv_tag list list" where
  "gops_step gs t =
     (if \<not> is_media t then gs
      else if is_keyframe t then gs @ [[t]]
      else if gs = [] then []
      else butlast gs @ [last gs @ [t]])"

definition gops_of :: "flv_tag list \<Rightarrow> flv_tag list list" where
  "gops_of ts = foldl gops_step [] ts"

definition last_opt :: "'a list \<Rightarrow> 'a option" where
  "last_opt xs = (if xs = [] then None else Some (last xs))"

lemma gops_of_simps [simp]:
  "gops_of [] = []"
  "gops_of (ts @ [t]) = gops_step (gops_of ts) t"
  by (simp_all add: gops_of_def)

lemma last_opt_simps [simp]: "last_opt [] = None" "last_opt (xs @ [x]) = Some x"
  by (simp_all add: last_opt_def)

lemma opt_list_simps [simp]: "opt_list None = []" "opt_list (Some x) = [x]"
  by (simp_all add: opt_list_def)

lemma set_last_opt: "x \<in> set (opt_list (last_opt xs)) \<Longrightarrow> x \<in> set xs"
  by (auto simp: last_opt_def split: if_splits)

lemma non_video: "tag_type t \<noteq> Video \<Longrightarrow> parse_video_frame_type t = VOther"
  and non_audio: "tag_type t \<noteq> Audio \<Longrightarrow> parse_audio_frame_type t = AOther"
  by (simp_all add: parse_video_frame_type_def parse_audio_frame_type_def)

lemma keyframe_is_media: "is_keyframe t \<Longrightarrow> is_media t"
  using non_video [of t] non_audio [of t] by (cases "tag_type t") (auto simp: is_media_def)

text \<open>The specification is what it says: each GOP is a keyframe followed by other media.\<close>

lemma gops_of_shape:
  "g \<in> set (gops_of ts) \<Longrightarrow> g \<noteq> [] \<and> is_keyframe (hd g) \<and> (\<forall>t \<in> set (tl g). \<not> is_keyframe t)"
proof (induction ts arbitrary: g rule: rev_induct)
  case Nil
  then show ?case by simp
next
  case (snoc t ts)
  have old: "g' \<in> set (gops_of ts) \<Longrightarrow>
      g' \<noteq> [] \<and> is_keyframe (hd g') \<and> (\<forall>t \<in> set (tl g'). \<not> is_keyframe t)" for g'
    by (rule snoc.IH)
  consider "g \<in> set (gops_of ts)" | "is_keyframe t" "g = [t]"
    | "\<not> is_keyframe t" "gops_of ts \<noteq> []" "g = last (gops_of ts) @ [t]"
  proof -
    show ?thesis
    proof (cases "is_keyframe t \<or> \<not> is_media t \<or> gops_of ts = []")
      case True
      with snoc.prems that(1,2) show ?thesis by (auto simp: gops_step_def split: if_splits)
    next
      case False
      then have "gops_of (ts @ [t]) = butlast (gops_of ts) @ [last (gops_of ts) @ [t]]"
        by (simp add: gops_step_def)
      with snoc.prems False that(1,3) show ?thesis by (auto dest: in_set_butlastD)
    qed
  qed
  then show ?case
  proof cases
    case 3
    with old [OF last_in_set [OF 3(2)]] show ?thesis by simp
  qed (use old in auto)
qed

lemma concat_gops_of: "concat (gops_of ts) = dropWhile (\<lambda>t. \<not> is_keyframe t) (filter is_media ts)"
proof (induction ts rule: rev_induct)
  case Nil
  then show ?case by simp
next
  case (snoc t ts)
  have none: "gops_of ts = [] \<longleftrightarrow> (\<forall>x \<in> set (filter is_media ts). \<not> is_keyframe x)"
  proof
    assume "gops_of ts = []"
    then have "dropWhile (\<lambda>t. \<not> is_keyframe t) (filter is_media ts) = []"
      by (simp flip: snoc.IH)
    then show "\<forall>x \<in> set (filter is_media ts). \<not> is_keyframe x"
      by (simp only: dropWhile_eq_Nil_conv)
  next
    assume "\<forall>x \<in> set (filter is_media ts). \<not> is_keyframe x"
    then have "concat (gops_of ts) = []" using snoc.IH by simp
    with gops_of_shape [of _ ts] show "gops_of ts = []" by (cases "gops_of ts") force+
  qed
  show ?case
  proof (cases "gops_of ts = []")
    case True
    with none show ?thesis
      by (auto simp: gops_step_def keyframe_is_media dropWhile_append)
  next
    case False
    then obtain gs g where g: "gops_of ts = gs @ [g]" by (metis rev_exhaust)
    have "concat (gops_step (gops_of ts) t) = concat (gops_of ts) @ (if is_media t then [t] else [])"
      by (auto simp: gops_step_def g)
    moreover have "\<not> (\<forall>x \<in> set (filter is_media ts). \<not> is_keyframe x)" using False none by blast
    ultimately show ?thesis using snoc.IH by (auto simp: dropWhile_append)
  qed
qed

section \<open>The cache refines the specification\<close>

text \<open>A GOP in the cache is cut at the configured number of tags (but keeps its keyframe).\<close>

definition gop_limit :: "gop_cache_config \<Rightarrow> nat" where
  "gop_limit cfg = max 1 (max_frames_per_gop cfg)"

definition abs_ring :: "gop_cache_config \<Rightarrow> flv_tag list \<Rightarrow> flv_tag list list" where
  "abs_ring cfg ts = map (take (gop_limit cfg)) (last_n (gop_count cfg) (butlast (gops_of ts)))"

definition abs_current :: "gop_cache_config \<Rightarrow> flv_tag list \<Rightarrow> flv_tag list option" where
  "abs_current cfg ts = map_option (take (gop_limit cfg)) (last_opt (gops_of ts))"

definition gop_repr :: "gop_cache_config \<Rightarrow> flv_tag list \<Rightarrow> gop_cache \<Rightarrow> bool" where
  "gop_repr cfg ts c \<longleftrightarrow>
     gc_config c = cfg
     \<and> gc_metadata c = last_opt (filter is_script ts)
     \<and> aac_seq_header c = last_opt (filter is_aac_header ts)
     \<and> video_seq_header c = last_opt (filter is_video_header ts)
     \<and> map gop_all_tags (gop_ring c) = abs_ring cfg ts
     \<and> map_option gop_all_tags (current_gop c) = abs_current cfg ts
     \<and> total_tags c = word_of_nat (length ts)"

lemma gop_all_tags_new [simp]: "gop_all_tags (gop_new k) = [k]"
  by (simp add: gop_all_tags_def gop_new_def)

lemma gop_len_all_tags: "gop_len g = length (gop_all_tags g)"
  by (simp add: gop_len_def gop_all_tags_def)

lemma take_one_limit [simp]: "take (gop_limit cfg) [k] = [k]"
  by (simp add: gop_limit_def)

lemma take_limit_snoc:
  assumes "xs \<noteq> []"
  shows "take (gop_limit cfg) (xs @ [t]) =
    (if length (take (gop_limit cfg) xs) < max_frames_per_gop cfg
     then take (gop_limit cfg) xs @ [t] else take (gop_limit cfg) xs)"
proof -
  have "1 \<le> length xs" using assms by (simp add: Suc_leI)
  then show ?thesis by (auto simp: gop_limit_def max_def not_less_eq_eq take_Cons')
qed

text \<open>The three effects of \<open>add_tag\<close> on the GOPs, on both levels.\<close>

lemma repr_media:
  assumes r: "gop_repr cfg ts c" and m: "is_media t" and k: "\<not> is_keyframe t"
  shows "gop_repr cfg (ts @ [t]) (add_to_current_gop t (c\<lparr>total_tags := total_tags c + 1\<rparr>))"
proof (cases "current_gop c")
  case None
  with r have "gops_of ts = []"
    by (auto simp: gop_repr_def abs_current_def last_opt_def split: if_splits)
  with r m k None show ?thesis
    by (auto simp: gop_repr_def add_to_current_gop_def abs_ring_def abs_current_def gops_step_def
        is_media_def)
next
  case (Some g)
  with r obtain gs h where gs: "gops_of ts = gs @ [h]"
    by (metis abs_current_def gop_repr_def last_opt_simps(1) option.map(1) option.map(2)
        option.distinct(1) rev_exhaust)
  with r Some have g: "gop_all_tags g = take (gop_limit cfg) h"
    by (simp add: gop_repr_def abs_current_def)
  have "h \<noteq> []" using gops_of_shape [of h ts] gs by simp
  note snoc = take_limit_snoc [OF this, of cfg t, folded g]
  have cfg: "gc_config c = cfg" using r by (simp add: gop_repr_def)
  have ring: "abs_ring cfg (ts @ [t]) = abs_ring cfg ts"
    and cur: "abs_current cfg (ts @ [t]) = Some (take (gop_limit cfg) (h @ [t]))"
    using m k gs by (simp_all add: abs_ring_def abs_current_def gops_step_def)
  have "gop_all_tags (g\<lparr>gop_frames := gop_frames g @ [t]\<rparr>) = gop_all_tags g @ [t]"
    by (simp add: gop_all_tags_def)
  with r m Some cfg snoc g show ?thesis
    by (auto simp: gop_repr_def add_to_current_gop_def ring cur gop_len_all_tags is_media_def)
qed

lemma repr_keyframe:
  assumes r: "gop_repr cfg ts c" and k: "is_keyframe t"
  shows "gop_repr cfg (ts @ [t])
    ((finalize_current_gop (c\<lparr>total_tags := total_tags c + 1\<rparr>))\<lparr>current_gop := Some (gop_new t)\<rparr>)"
proof -
  have m: "is_media t" using k by (rule keyframe_is_media)
  have cur: "abs_current cfg (ts @ [t]) = Some [t]"
    using m k by (simp add: abs_current_def gops_step_def)
  have ring: "abs_ring cfg (ts @ [t]) = map (take (gop_limit cfg)) (last_n (gop_count cfg) (gops_of ts))"
    using m k by (simp add: abs_ring_def gops_step_def)
  show ?thesis
  proof (cases "current_gop c")
    case None
    with r have "gops_of ts = []"
      by (auto simp: gop_repr_def abs_current_def last_opt_def split: if_splits)
    with r None m k cur ring show ?thesis
      by (auto simp: gop_repr_def finalize_current_gop_def is_media_def abs_ring_def)
  next
    case (Some g)
    with r obtain gs h where gs: "gops_of ts = gs @ [h]"
      by (metis abs_current_def gop_repr_def last_opt_simps(1) option.map(1) option.map(2)
          option.distinct(1) rev_exhaust)
    let ?n = "gop_count cfg" and ?cut = "map (take (gop_limit cfg))"
    have old: "map gop_all_tags (gop_ring c) = ?cut (last_n ?n gs)"
      and g: "gop_all_tags g = take (gop_limit cfg) h"
      using r Some gs by (simp_all add: gop_repr_def abs_ring_def abs_current_def)
    have "map gop_all_tags (last_n ?n (gop_ring c @ [g])) = last_n ?n (?cut (last_n ?n gs @ [h]))"
      by (simp add: map_last_n old g)
    also have "\<dots> = ?cut (last_n ?n (gs @ [h]))"
      by (simp only: flip: map_last_n) (simp only: last_n_snoc)
    finally show ?thesis
      using r Some m k cur ring gs
      by (simp add: gop_repr_def finalize_current_gop_def is_media_def evict_front_last_n)
  qed
qed

lemma header_cases:
  obtains (script) "is_script t" "\<not> is_aac_header t" "\<not> is_video_header t"
  | (aac) "is_aac_header t" "tag_type t = Audio" "\<not> is_video_header t"
  | (video) "is_video_header t" "tag_type t = Video" "\<not> is_aac_header t"
  | (key) "is_keyframe t" "tag_type t = Video"
  | (media) "is_media t" "\<not> is_keyframe t" "\<not> is_script t"
proof -
  have a: "is_aac_header t \<Longrightarrow> tag_type t = Audio"
    using non_audio [of t] by auto
  have v: "parse_video_frame_type t \<noteq> VOther \<Longrightarrow> tag_type t = Video"
    using non_video [of t] by auto
  show ?thesis
    using a v that by (auto simp: is_media_def) (metis flv_tag_type.distinct(1,3,5) video_frame_type.distinct(5,11))+
qed

lemma gop_repr_step:
  assumes r: "gop_repr cfg ts c"
  shows "gop_repr cfg (ts @ [t]) (gop_add_tag t c)"
proof (cases rule: header_cases [of t])
  case script
  with r show ?thesis
    by (auto simp: gop_repr_def gop_add_tag_def abs_ring_def abs_current_def gops_step_def is_media_def)
next
  case aac
  with r show ?thesis
    by (auto simp: gop_repr_def gop_add_tag_def abs_ring_def abs_current_def gops_step_def is_media_def)
next
  case video
  with r show ?thesis
    by (auto simp: gop_repr_def gop_add_tag_def abs_ring_def abs_current_def gops_step_def is_media_def)
next
  case key
  with repr_keyframe [OF r, of t] show ?thesis by (simp add: gop_add_tag_def)
next
  case media
  with repr_media [OF r, of t] show ?thesis
    by (cases "tag_type t"; cases "parse_audio_frame_type t"; cases "parse_video_frame_type t")
      (simp_all add: gop_add_tag_def is_media_def)
qed

lemma gop_run_snoc: "gop_run cfg (ts @ [t]) = gop_add_tag t (gop_run cfg ts)"
  by (simp add: gop_run_def)

lemma gop_run_repr: "gop_repr cfg ts (gop_run cfg ts)"
proof (induction ts rule: rev_induct)
  case Nil
  show ?case
    by (simp add: gop_run_def gop_cache_new_def gop_repr_def abs_ring_def abs_current_def)
next
  case (snoc t ts)
  then show ?case by (simp add: gop_run_snoc gop_repr_step)
qed

lemmas gop_run_fields = gop_run_repr [unfolded gop_repr_def]

section \<open>The start-up sequence\<close>

text \<open>The cached GOPs of a history, oldest first, the one under construction last.\<close>

definition cached_gops_of :: "gop_cache_config \<Rightarrow> flv_tag list \<Rightarrow> flv_tag list list" where
  "cached_gops_of cfg ts = abs_ring cfg ts @ opt_list (abs_current cfg ts)"

lemma cached_gops_of_last_n:
  "cached_gops_of cfg ts = map (take (gop_limit cfg)) (last_n (gop_count cfg + 1) (gops_of ts))"
proof (cases "gops_of ts" rule: rev_cases)
  case Nil
  then show ?thesis by (simp add: cached_gops_of_def abs_ring_def abs_current_def last_n_def)
next
  case (snoc gs h)
  have "last_n (gop_count cfg + 1) (gs @ [h]) = last_n (gop_count cfg) gs @ [h]"
    by (cases "length gs \<le> gop_count cfg") (simp_all add: last_n_def)
  with snoc show ?thesis by (simp add: cached_gops_of_def abs_ring_def abs_current_def)
qed

lemma startup_tags_repr:
  assumes "gop_repr cfg ts c"
  shows "get_startup_tags c =
    opt_list (last_opt (filter is_script ts)) @ opt_list (last_opt (filter is_aac_header ts))
      @ opt_list (last_opt (filter is_video_header ts)) @ concat (cached_gops_of cfg ts)"
proof -
  have "(case current_gop c of Some g \<Rightarrow> gop_all_tags g | None \<Rightarrow> [])
      = concat (opt_list (map_option gop_all_tags (current_gop c)))"
    by (cases "current_gop c") simp_all
  with assms show ?thesis
    by (simp add: gop_repr_def get_startup_tags_def cached_gops_of_def)
qed

lemma subseq_concat_map_take: "subseq (concat (map (take n) gs)) (concat gs)"
  by (induction gs) (auto intro!: list_emb_append_mono prefix_imp_subseq [OF take_is_prefix])

lemma subseq_cached_gops: "subseq (concat (cached_gops_of cfg ts)) ts"
proof -
  let ?n = "gop_count cfg + 1"
  have "subseq (concat (map (take (gop_limit cfg)) (last_n ?n (gops_of ts)))) (concat (last_n ?n (gops_of ts)))"
    by (rule subseq_concat_map_take)
  moreover have "suffix (concat (last_n ?n (gops_of ts))) (concat (gops_of ts))"
    using last_n_suffix [of "gops_of ts" ?n] by (metis concat_append suffixI)
  moreover have "suffix (concat (gops_of ts)) (filter is_media ts)"
    by (simp add: concat_gops_of suffix_dropWhile)
  ultimately show ?thesis
    by (metis cached_gops_of_last_n subseq_filter_left subseq_order.trans suffix_imp_subseq)
qed

lemma length_cached_gops:
  "length (concat (cached_gops_of cfg ts)) \<le> (gop_count cfg + 1) * gop_limit cfg"
proof -
  have "\<And>gs :: flv_tag list list. length (concat (map (take m) gs)) \<le> length gs * m" for m
  proof -
    fix gs :: "flv_tag list list"
    show "length (concat (map (take m) gs)) \<le> length gs * m" by (induction gs) auto
  qed
  note b = this
  have "length (last_n (gop_count cfg + 1) (gops_of ts)) \<le> gop_count cfg + 1" by simp
  then have "length (last_n (gop_count cfg + 1) (gops_of ts)) * gop_limit cfg
      \<le> (gop_count cfg + 1) * gop_limit cfg" by (rule mult_le_mono1)
  with b [of "gop_limit cfg" "last_n (gop_count cfg + 1) (gops_of ts)"] show ?thesis
    unfolding cached_gops_of_last_n by linarith
qed

lemma length_opt_list: "length (opt_list x) \<le> 1"
  by (cases x) simp_all

lemma length_concat_gops: "length (concat (map gop_all_tags gs)) = sum_list (map gop_len gs)"
  by (induction gs) (simp_all add: gop_len_all_tags)

lemma length_opt_list_eq: "length (opt_list x) = (if x \<noteq> None then 1 else 0)"
  by (cases x) simp_all

lemma length_startup_tags:
  "length (get_startup_tags c) = cached_frames (gop_stats c)
      + (if has_metadata (gop_stats c) then 1 else 0)
      + (if has_video_seq_header (gop_stats c) then 1 else 0)
      + (if has_aac_seq_header (gop_stats c) then 1 else 0)"
  by (simp add: get_startup_tags_def gop_stats_def length_opt_list_eq length_concat_gops
      gop_len_all_tags split: option.split)

lemma is_empty_iff_no_frames: "gop_cache_is_empty c \<longleftrightarrow> cached_frames (gop_stats c) = 0"
  by (cases "gop_ring c") (auto simp: gop_cache_is_empty_def gop_stats_def gop_len_def split: option.splits)

section \<open>Properties\<close>

text \<open>
  C5: after any history of tags, the cache holds exactly what the abstract split of that
  history into GOPs says: the last metadata, AAC and video sequence headers, the last
  \<open>gop_count\<close> finished GOPs in order, and the GOP under construction, each GOP cut after
  \<open>max_frames_per_gop\<close> tags.
\<close>

theorem gop_cache_refines_history:
  "gc_metadata (gop_run cfg ts) = last_opt (filter is_script ts)
    \<and> aac_seq_header (gop_run cfg ts) = last_opt (filter is_aac_header ts)
    \<and> video_seq_header (gop_run cfg ts) = last_opt (filter is_video_header ts)
    \<and> map gop_all_tags (gop_ring (gop_run cfg ts))
        = map (take (gop_limit cfg)) (last_n (gop_count cfg) (butlast (gops_of ts)))
    \<and> map_option gop_all_tags (current_gop (gop_run cfg ts))
        = map_option (take (gop_limit cfg)) (last_opt (gops_of ts))"
  using gop_run_fields [of cfg ts] by (simp add: abs_ring_def abs_current_def)

text \<open>
  C4: a new viewer can start decoding at once. The start-up tags are at most three
  headers (the newest metadata, AAC header and video header seen, in this order) followed
  by media tags that begin with a keyframe and keep the order of the stream; and as soon
  as one keyframe has been seen there are media tags.
\<close>

theorem startup_tags_decodable:
  "\<exists>headers body. get_startup_tags (gop_run cfg ts) = headers @ body
    \<and> headers = opt_list (last_opt (filter is_script ts)) @ opt_list (last_opt (filter is_aac_header ts))
        @ opt_list (last_opt (filter is_video_header ts))
    \<and> subseq body ts
    \<and> (if \<exists>t \<in> set ts. is_keyframe t then body \<noteq> [] \<and> is_keyframe (hd body) else body = [])"
proof -
  let ?gs = "last_n (gop_count cfg + 1) (gops_of ts)"
  let ?body = "concat (cached_gops_of cfg ts)"
  have "if \<exists>t \<in> set ts. is_keyframe t then ?body \<noteq> [] \<and> is_keyframe (hd ?body) else ?body = []"
  proof (cases "\<exists>t \<in> set ts. is_keyframe t")
    case True
    then have "concat (gops_of ts) \<noteq> []"
      by (auto simp: concat_gops_of dropWhile_eq_Nil_conv keyframe_is_media)
    then have "gops_of ts \<noteq> []" by auto
    then have "?gs \<noteq> []" by (simp flip: length_greater_0_conv)
    then obtain g hs where g: "?gs = g # hs" by (cases ?gs) auto
    then have "g \<in> set (gops_of ts)" using set_last_n [of "gop_count cfg + 1" "gops_of ts"] by auto
    from gops_of_shape [OF this] g True show ?thesis
      by (cases g) (auto simp: cached_gops_of_last_n gop_limit_def take_Cons')
  next
    case False
    then have "concat (gops_of ts) = []" by (auto simp: concat_gops_of dropWhile_eq_Nil_conv)
    then have "gops_of ts = []" using gops_of_shape [of _ ts] by (cases "gops_of ts") force+
    with False show ?thesis by (simp add: cached_gops_of_last_n last_n_def)
  qed
  then show ?thesis
    using startup_tags_repr [OF gop_run_repr, of cfg ts] subseq_cached_gops [of cfg ts]
    by (intro exI [of _ "opt_list (last_opt (filter is_script ts))
        @ opt_list (last_opt (filter is_aac_header ts)) @ opt_list (last_opt (filter is_video_header ts))"]
        exI [of _ ?body]) simp
qed

text \<open>
  The cache is bounded whatever the stream does: at most \<open>gop_count\<close> finished GOPs,
  and at most \<open>3 + (gop_count + 1) * max 1 max_frames_per_gop\<close> start-up tags.
\<close>

theorem gop_cache_bounded:
  "length (gop_ring (gop_run cfg ts)) \<le> gop_count cfg
    \<and> length (get_startup_tags (gop_run cfg ts)) \<le> 3 + (gop_count cfg + 1) * max 1 (max_frames_per_gop cfg)"
proof
  have "length (map gop_all_tags (gop_ring (gop_run cfg ts))) \<le> gop_count cfg"
    using gop_run_fields [of cfg ts] by (simp add: abs_ring_def)
  then show "length (gop_ring (gop_run cfg ts)) \<le> gop_count cfg" by simp
  show "length (get_startup_tags (gop_run cfg ts)) \<le> 3 + (gop_count cfg + 1) * max 1 (max_frames_per_gop cfg)"
    using length_cached_gops [of cfg ts] length_opt_list [of "last_opt (filter is_script ts)"]
      length_opt_list [of "last_opt (filter is_aac_header ts)"]
      length_opt_list [of "last_opt (filter is_video_header ts)"]
    by (simp add: startup_tags_repr [OF gop_run_repr] gop_limit_def)
qed

text \<open>
  The statistics describe the start-up sequence: the number of start-up tags is the
  cached frames plus one for each header reported present, the tag total counts every
  tag fed (modulo \<open>2 ^ 64\<close>), and the cache reports empty exactly when no frame is cached.
\<close>

theorem gop_stats_correct:
  "length (get_startup_tags (gop_run cfg ts)) = cached_frames (gop_stats (gop_run cfg ts))
      + (if has_metadata (gop_stats (gop_run cfg ts)) then 1 else 0)
      + (if has_video_seq_header (gop_stats (gop_run cfg ts)) then 1 else 0)
      + (if has_aac_seq_header (gop_stats (gop_run cfg ts)) then 1 else 0)
    \<and> st_total_tags (gop_stats (gop_run cfg ts)) = word_of_nat (length ts)
    \<and> (gop_cache_is_empty (gop_run cfg ts) \<longleftrightarrow> cached_frames (gop_stats (gop_run cfg ts)) = 0)"
  using gop_run_fields [of cfg ts]
  by (simp add: length_startup_tags is_empty_iff_no_frames) (simp add: gop_stats_def)

text \<open>
  Clearing forgets. After \<open>clear\<close>, the cache behaves towards new viewers exactly like
  a fresh one, whatever it held before and whatever is fed afterwards.
\<close>

theorem gop_clear_is_fresh:
  "get_startup_tags (fold gop_add_tag us (gop_clear (gop_run cfg ts))) = get_startup_tags (gop_run cfg us)"
proof -
  have eq: "gop_clear (gop_run cfg ts) = (gop_cache_new cfg)\<lparr>hit_count := h, total_tags := n\<rparr>"
    if "h = hit_count (gop_run cfg ts)" "n = total_tags (gop_run cfg ts)" for h n
    using that gop_run_fields [of cfg ts] by (simp add: gop_clear_def gop_cache_new_def)
  have "\<exists>h' n'. fold gop_add_tag us (c\<lparr>hit_count := h, total_tags := n\<rparr>)
      = (fold gop_add_tag us c)\<lparr>hit_count := h', total_tags := n'\<rparr>" for c h n
  proof (induction us arbitrary: c h n)
    case Nil
    show ?case by auto
  next
    case (Cons u us)
    have "gop_add_tag u (c\<lparr>hit_count := h, total_tags := n\<rparr>)
        = (gop_add_tag u c)\<lparr>hit_count := h, total_tags := n + 1\<rparr>"
      by (simp add: gop_add_tag_def add_to_current_gop_def finalize_current_gop_def Let_def
          split: flv_tag_type.splits audio_frame_type.splits video_frame_type.splits option.splits)
    with Cons.IH [where c = "gop_add_tag u c" and h = h and n = "n + 1"] show ?case by simp
  qed
  then obtain h' n' where "fold gop_add_tag us (gop_clear (gop_run cfg ts))
      = (gop_run cfg us)\<lparr>hit_count := h', total_tags := n'\<rparr>"
    using eq [OF refl refl] unfolding gop_run_def by metis
  then show ?thesis by (simp add: get_startup_tags_def)
qed

end
