(* ===== verification/Flv_Pull.thy ===== *)
theory Flv_Pull
  imports Framing Gop_Cache
begin

text \<open>
  Reading an upstream HTTP-FLV body, \<open>pull_flv_stream\<close> of agent-rust/src/relay/flv.rs:
  the header and tag parser over a growing buffer, the broadcast of every parsed tag and
  its entry into the GOP cache. The HTTP client, the clock (\<open>clk\<close>, the reading of
  \<open>SystemTime::now\<close> for the tag with a given counter) and the shared running flag are the
  environment: the response and the chunks, each with the flag's value at that moment,
  are arguments. The broadcast channel appears as the log of the tags sent to it.
\<close>

section \<open>The parser\<close>

datatype pull_error = BuildClient | ConnectFailed | HttpStatus nat | ReadChunk | NotFlv

datatype flv_event =
    HeaderSkipped nat
  | UnknownTag u8
  | TagRead flv_tag_type u32 bytes

text \<open>
  One turn of the inner loop. The state is the flag \<open>flv_header_parsed\<close>; \<open>break\<close> is
  \<open>Inr None\<close>, and the number is how many bytes the turn drains from the buffer.
\<close>

definition flv_nx :: "(bool, pull_error, flv_event) decoder" where
  "flv_nx flv_header_parsed buffer =
     (if \<not> flv_header_parsed then
        (if length buffer < FLV_HEADER_LEN then Inr None
         else if subslice 0 3 buffer \<noteq> [0x46, 0x4C, 0x56] then Inl NotFlv
         else let header_size = unat (get_u32 [0, buffer ! 5, buffer ! 6, buffer ! 7]);
                  skip = header_size + PREV_TAG_SIZE_LEN
              in if length buffer < skip then Inr None
                 else Inr (Some (HeaderSkipped skip, True, skip)))
      else if length buffer < TAG_HEADER_LEN then Inr None
      else case flv_tag_type_try_from (buffer ! 0) of
        Inl v \<Rightarrow> Inr (Some (UnknownTag v, True, TAG_HEADER_LEN))
      | Inr ty \<Rightarrow>
          (let data_size = unat (get_u24 (buffer ! 1) (buffer ! 2) (buffer ! 3));
               timestamp = get_flv_timestamp (buffer ! 4) (buffer ! 5) (buffer ! 6) (buffer ! 7);
               total_tag_len = TAG_HEADER_LEN + data_size + PREV_TAG_SIZE_LEN
           in if length buffer < total_tag_len then Inr None
              else Inr (Some (TagRead ty timestamp
                     (subslice TAG_HEADER_LEN (TAG_HEADER_LEN + data_size) buffer), True, total_tag_len))))"

lemma flv_nx_consumed: "flv_nx h b = Inr (Some (ev, h', n)) \<Longrightarrow> 0 < n \<and> n \<le> length b"
  by (auto simp: flv_nx_def Let_def flv_consts split: if_splits sum.splits)

section \<open>The pull loop\<close>

record pull_state =
  ps_buffer :: bytes
  ps_header_parsed :: bool
  ps_tag_counter :: u64
  ps_broadcast :: "flv_tag list"
  ps_cache :: gop_cache

definition tag_packet :: "(u64 \<Rightarrow> u64) \<Rightarrow> u64 \<Rightarrow> flv_tag_type \<Rightarrow> u32 \<Rightarrow> bytes \<Rightarrow> flv_tag" where
  "tag_packet clk k ty ts d =
     \<lparr>tag_type = ty, timestamp_ms = ts, tag_data = d, tag_origin_ts = clk k\<rparr>"

definition flv_apply_event :: "(u64 \<Rightarrow> u64) \<Rightarrow> flv_event \<Rightarrow> pull_state \<Rightarrow> pull_state" where
  "flv_apply_event clk ev st =
     (case ev of
        HeaderSkipped n \<Rightarrow> st
      | UnknownTag v \<Rightarrow> st
      | TagRead ty ts d \<Rightarrow>
          (let tag = tag_packet clk (ps_tag_counter st) ty ts d
           in st\<lparr>ps_broadcast := ps_broadcast st @ [tag],
                 ps_cache := gop_add_tag tag (ps_cache st),
                 ps_tag_counter := ps_tag_counter st + 1\<rparr>))"

lemma flv_apply_event_parser [simp]:
  "ps_buffer (flv_apply_event clk ev st) = ps_buffer st"
  "ps_header_parsed (flv_apply_event clk ev st) = ps_header_parsed st"
  by (simp_all add: flv_apply_event_def Let_def split: flv_event.split)

function flv_parse_loop :: "(u64 \<Rightarrow> u64) \<Rightarrow> pull_state \<Rightarrow> pull_error option \<times> pull_state" where
  "flv_parse_loop clk st =
     (case flv_nx (ps_header_parsed st) (ps_buffer st) of
        Inl e \<Rightarrow> (Some e, st)
      | Inr None \<Rightarrow> (None, st)
      | Inr (Some (ev, h, n)) \<Rightarrow>
          flv_parse_loop clk (flv_apply_event clk ev
            (st\<lparr>ps_buffer := drop n (ps_buffer st), ps_header_parsed := h\<rparr>)))"
  by pat_completeness auto
termination
proof (relation "measure (\<lambda>(clk, st). length (ps_buffer st))")
  fix clk :: "u64 \<Rightarrow> u64" and st :: pull_state and x2 x y ev h n
  assume "flv_nx (ps_header_parsed st) (ps_buffer st) = Inr x2" "x2 = Some x" "(ev, y) = x" "(h, n) = y"
  then have "flv_nx (ps_header_parsed st) (ps_buffer st) = Inr (Some (ev, h, n))" by auto
  from flv_nx_consumed [OF this]
  show "((clk, flv_apply_event clk ev (st\<lparr>ps_buffer := drop n (ps_buffer st), ps_header_parsed := h\<rparr>)),
      (clk, st)) \<in> measure (\<lambda>(clk, st). length (ps_buffer st))" by simp linarith
qed simp

declare flv_parse_loop.simps [simp del]

datatype flv_chunk = ChunkError | Chunk bytes

text \<open>\<open>while let Some(chunk_result) = stream.next().await\<close>\<close>

fun flv_chunk_loop :: "(u64 \<Rightarrow> u64) \<Rightarrow> pull_state \<Rightarrow> (bool \<times> flv_chunk) list
    \<Rightarrow> (pull_error + unit) \<times> pull_state" where
  "flv_chunk_loop clk st [] = (Inr (), st)"
| "flv_chunk_loop clk st ((running, c) # cs) =
     (if \<not> running then (Inr (), st)
      else case c of
        ChunkError \<Rightarrow> (Inl ReadChunk, st)
      | Chunk bs \<Rightarrow>
          (case flv_parse_loop clk (st\<lparr>ps_buffer := ps_buffer st @ bs\<rparr>) of
             (Some e, st') \<Rightarrow> (Inl e, st')
           | (None, st') \<Rightarrow> flv_chunk_loop clk st' cs))"

datatype flv_response =
    NoClient
  | NoConnection
  | Response nat "(bool \<times> flv_chunk) list"

definition status_is_success :: "nat \<Rightarrow> bool" where
  "status_is_success s \<longleftrightarrow> 200 \<le> s \<and> s < 300"

definition pull_flv_stream :: "(u64 \<Rightarrow> u64) \<Rightarrow> flv_response \<Rightarrow> flv_tag list \<Rightarrow> gop_cache
    \<Rightarrow> (pull_error + unit) \<times> pull_state" where
  "pull_flv_stream clk resp sent cache =
     (let st = \<lparr>ps_buffer = [], ps_header_parsed = False, ps_tag_counter = 0,
                ps_broadcast = sent, ps_cache = cache\<rparr>
      in case resp of
        NoClient \<Rightarrow> (Inl BuildClient, st)
      | NoConnection \<Rightarrow> (Inl ConnectFailed, st)
      | Response status chunks \<Rightarrow>
          (if \<not> status_is_success status then (Inl (HttpStatus status), st)
           else flv_chunk_loop clk st chunks))"

section \<open>The parser is a framing decoder\<close>

lemma flv_nx_stable:
  assumes "flv_nx h b \<noteq> Inr None"
  shows "flv_nx h (b @ x) = flv_nx h b"
proof (cases h)
  case False
  with assms have "9 \<le> length b" by (simp add: flv_nx_def flv_consts split: if_splits)
  then have "\<And>i. i < 9 \<Longrightarrow> (b @ x) ! i = b ! i" by (simp add: nth_append)
  with assms False \<open>9 \<le> length b\<close> show ?thesis
    by (auto simp: flv_nx_def Let_def flv_consts split: if_splits)
next
  case True
  with assms have "11 \<le> length b" by (simp add: flv_nx_def flv_consts split: if_splits)
  then have "\<And>i. i < 11 \<Longrightarrow> (b @ x) ! i = b ! i" by (simp add: nth_append)
  with assms True show ?thesis
    by (auto simp: flv_nx_def Let_def flv_consts split: if_splits sum.splits)
qed

interpretation flv: framing flv_nx
  by unfold_locales (use flv_nx_consumed flv_nx_stable in \<open>force+\<close>)

lemma flv_nx_Nil [simp]: "flv_nx h [] = Inr None"
  by (simp add: flv_nx_def flv_consts)

text \<open>The loop with its effects is the parser's run followed by the effects.\<close>

lemma fold_apply_parser [simp]:
  "ps_buffer (fold (flv_apply_event clk) evs st) = ps_buffer st"
  "ps_header_parsed (fold (flv_apply_event clk) evs st) = ps_header_parsed st"
  by (induction evs arbitrary: st) simp_all

lemma flv_apply_event_commute:
  "flv_apply_event clk ev (st\<lparr>ps_buffer := b, ps_header_parsed := h\<rparr>)
     = (flv_apply_event clk ev st)\<lparr>ps_buffer := b, ps_header_parsed := h\<rparr>"
  by (simp add: flv_apply_event_def Let_def split: flv_event.split)

lemma fold_apply_commute:
  "fold (flv_apply_event clk) evs (st\<lparr>ps_buffer := b, ps_header_parsed := h\<rparr>)
     = (fold (flv_apply_event clk) evs st)\<lparr>ps_buffer := b, ps_header_parsed := h\<rparr>"
  by (induction evs arbitrary: st) (simp_all add: flv_apply_event_commute)

lemma flv_parse_loop_drain:
  "drain flv_nx (ps_header_parsed st) (ps_buffer st) = (evs, h, r, e) \<Longrightarrow>
   flv_parse_loop clk st = (e, (fold (flv_apply_event clk) evs st)\<lparr>ps_buffer := r, ps_header_parsed := h\<rparr>)"
proof (induction clk st arbitrary: evs rule: flv_parse_loop.induct)
  case (1 clk st)
  show ?case
  proof (cases rule: flv.decoder_cases [of "ps_header_parsed st" "ps_buffer st"])
    case (item ev h' n)
    let ?st = "st\<lparr>ps_buffer := drop n (ps_buffer st), ps_header_parsed := h'\<rparr>"
    obtain evs' where d: "drain flv_nx h' (drop n (ps_buffer st)) = (evs', h, r, e)" "evs = ev # evs'"
      using "1.prems" flv.drain_item [OF item] by (auto split: prod.splits)
    have "flv_parse_loop clk (flv_apply_event clk ev ?st) =
        (e, (fold (flv_apply_event clk) evs' (flv_apply_event clk ev ?st))\<lparr>ps_buffer := r, ps_header_parsed := h\<rparr>)"
      using "1.IH" [OF item refl refl refl, of evs'] d(1) by simp
    with item d(2) show ?thesis
      by (simp add: flv_parse_loop.simps [of clk st] flv_apply_event_commute fold_apply_commute)
  qed (use "1.prems" in \<open>auto simp: flv_parse_loop.simps [of clk st] flv.drain_error flv.drain_wait\<close>)
qed

lemma flv_chunk_loop_feed:
  assumes "feed_chunks flv_nx (ps_header_parsed st) (ps_buffer st) cs = (evs, h, r, e)"
  shows "flv_chunk_loop clk st (map (\<lambda>c. (True, Chunk c)) cs) =
    (case e of None \<Rightarrow> Inr () | Some x \<Rightarrow> Inl x,
     (fold (flv_apply_event clk) evs st)\<lparr>ps_buffer := r, ps_header_parsed := h\<rparr>)"
  using assms
proof (induction cs arbitrary: st evs)
  case Nil
  then show ?case by simp
next
  case (Cons c cs)
  let ?st = "st\<lparr>ps_buffer := ps_buffer st @ c\<rparr>"
  obtain evs1 h1 r1 e1 where d: "drain flv_nx (ps_header_parsed st) (ps_buffer st @ c) = (evs1, h1, r1, e1)"
    by (cases "drain flv_nx (ps_header_parsed st) (ps_buffer st @ c)") auto
  have same: "fold (flv_apply_event clk) evs1 ?st
      = (fold (flv_apply_event clk) evs1 st)\<lparr>ps_buffer := ps_buffer st @ c\<rparr>"
    using fold_apply_commute [where clk = clk and evs = evs1 and st = st
        and b = "ps_buffer st @ c" and h = "ps_header_parsed st"] by simp
  have loop: "flv_parse_loop clk ?st =
      (e1, (fold (flv_apply_event clk) evs1 st)\<lparr>ps_buffer := r1, ps_header_parsed := h1\<rparr>)"
    using flv_parse_loop_drain [of ?st evs1 h1 r1 e1 clk] d same by simp
  show ?case
  proof (cases e1)
    case (Some x)
    with Cons.prems d loop show ?thesis by auto
  next
    case None
    with Cons.prems d obtain evs2 where f: "feed_chunks flv_nx h1 r1 cs = (evs2, h, r, e)"
      "evs = evs1 @ evs2" by (auto split: prod.splits)
    let ?st2 = "(fold (flv_apply_event clk) evs1 st)\<lparr>ps_buffer := r1, ps_header_parsed := h1\<rparr>"
    from Cons.IH [of ?st2 evs2] f loop None show ?thesis
      by (simp add: fold_apply_commute)
  qed
qed

section \<open>What the effects leave\<close>

lemma flv_apply_event_fields [simp]:
  "ps_cache (st\<lparr>ps_buffer := b, ps_header_parsed := h\<rparr>) = ps_cache st"
  "ps_broadcast (st\<lparr>ps_buffer := b, ps_header_parsed := h\<rparr>) = ps_broadcast st"
  by simp_all

text \<open>Every tag sent to the broadcast channel is fed to the cache, in the same order.\<close>

definition new_tags :: "pull_state \<Rightarrow> pull_state \<Rightarrow> flv_tag list \<Rightarrow> bool" where
  "new_tags st st' ts \<longleftrightarrow> ps_broadcast st' = ps_broadcast st @ ts
     \<and> ps_cache st' = fold gop_add_tag ts (ps_cache st)"

lemma new_tags_refl: "new_tags st st []"
  by (simp add: new_tags_def)

lemma new_tags_trans: "new_tags a b ts \<Longrightarrow> new_tags b c us \<Longrightarrow> new_tags a c (ts @ us)"
  by (simp add: new_tags_def)

lemma flv_apply_event_new_tags: "\<exists>ts. new_tags st (flv_apply_event clk ev st) ts"
proof (cases ev)
  case (TagRead ty ts d)
  then have "new_tags st (flv_apply_event clk ev st) [tag_packet clk (ps_tag_counter st) ty ts d]"
    by (simp add: new_tags_def flv_apply_event_def Let_def)
  then show ?thesis ..
qed (auto simp: flv_apply_event_def intro: new_tags_refl)

lemma flv_parse_loop_new_tags: "\<exists>ts. new_tags st (snd (flv_parse_loop clk st)) ts"
proof (induction clk st rule: flv_parse_loop.induct)
  case (1 clk st)
  show ?case
  proof (cases rule: flv.decoder_cases [of "ps_header_parsed st" "ps_buffer st"])
    case (item ev h n)
    let ?st = "st\<lparr>ps_buffer := drop n (ps_buffer st), ps_header_parsed := h\<rparr>"
    obtain ts where "new_tags (flv_apply_event clk ev ?st) (snd (flv_parse_loop clk st)) ts"
      using "1.IH" [OF item refl refl refl] item by (auto simp: flv_parse_loop.simps [of clk st])
    moreover obtain us where "new_tags ?st (flv_apply_event clk ev ?st) us"
      using flv_apply_event_new_tags by blast
    moreover have "new_tags st ?st []" by (simp add: new_tags_def)
    ultimately show ?thesis by (blast intro: new_tags_trans)
  qed (auto simp: flv_parse_loop.simps [of clk st] intro: new_tags_refl)
qed

lemma flv_chunk_loop_new_tags: "\<exists>ts. new_tags st (snd (flv_chunk_loop clk st cs)) ts"
proof (induction clk st cs rule: flv_chunk_loop.induct)
  case (2 clk st running c cs)
  show ?case
  proof (cases "running \<and> c \<noteq> ChunkError")
    case False
    then show ?thesis by (auto intro: new_tags_refl)
  next
    case True
    then obtain bs where c: "c = Chunk bs" by (cases c) auto
    let ?st = "st\<lparr>ps_buffer := ps_buffer st @ bs\<rparr>"
    obtain e st' where l: "flv_parse_loop clk ?st = (e, st')" by (cases "flv_parse_loop clk ?st")
    have "new_tags st ?st []" by (simp add: new_tags_def)
    then obtain ts where ts: "new_tags st st' ts"
      using flv_parse_loop_new_tags [of ?st clk] l new_tags_trans by fastforce
    show ?thesis
    proof (cases e)
      case None
      with "2.IH" True c l [symmetric]
      have "\<exists>us. new_tags st' (snd (flv_chunk_loop clk st' cs)) us" by simp
      then obtain us where "new_tags st' (snd (flv_chunk_loop clk st' cs)) us" ..
      with ts new_tags_trans None True c l show ?thesis by fastforce
    qed (use ts True c l in auto)
  qed
qed (auto intro: new_tags_refl)

section \<open>Reading back the wire format\<close>

definition wire_tag :: "flv_tag \<Rightarrow> bool" where
  "wire_tag t \<longleftrightarrow> length (tag_data t) < 2 ^ 24"

lemma flv_nx_wire:
  assumes "wire_tag t"
  shows "flv_nx True (build_flv_tag_wire t @ y) =
    Inr (Some (TagRead (tag_type t) (timestamp_ms t) (tag_data t), True, length (build_flv_tag_wire t)))"
proof -
  let ?n = "word_of_nat (length (tag_data t)) :: u32" and ?ts = "timestamp_ms t"
  have n: "unat (get_u24 (ucast (drop_bit 16 ?n)) (ucast (drop_bit 8 ?n)) (ucast ?n)) = length (tag_data t)"
    using assms by (intro get_put_u24_small) (simp add: wire_tag_def)
  have wire: "build_flv_tag_wire t @ y = [flv_tag_type_u8 (tag_type t), ucast (drop_bit 16 ?n),
      ucast (drop_bit 8 ?n), ucast ?n, ucast (drop_bit 16 ?ts), ucast (drop_bit 8 ?ts), ucast ?ts,
      ucast (drop_bit 24 ?ts), 0, 0, 0] @ tag_data t @ put_u32 (11 + ?n) @ y"
    by (simp add: build_flv_tag_wire_def Let_def)
  show ?thesis
    unfolding flv_nx_def wire length_flv_tag_wire
    by (simp add: Let_def flv_consts n get_put_timestamp subslice_def del: unat_of_nat)
qed

lemma drain_wires:
  assumes "\<forall>t \<in> set ts. wire_tag t"
  shows "drain flv_nx True (concat (map build_flv_tag_wire ts)) =
    (map (\<lambda>t. TagRead (tag_type t) (timestamp_ms t) (tag_data t)) ts, True, [], None)"
  using flv.drain_encoded [where P = wire_tag and wire = build_flv_tag_wire and s = True
      and g = "\<lambda>t. TagRead (tag_type t) (timestamp_ms t) (tag_data t)" and fs = ts and y = "[]"] assms
  by (simp add: flv_nx_wire flv.drain_wait)

text \<open>The tags as the reader stamps them: its own clock instead of the sender's.\<close>

fun restamp :: "(u64 \<Rightarrow> u64) \<Rightarrow> u64 \<Rightarrow> flv_tag list \<Rightarrow> flv_tag list" where
  "restamp clk k [] = []"
| "restamp clk k (t # ts) = t\<lparr>tag_origin_ts := clk k\<rparr> # restamp clk (k + 1) ts"

lemma fold_tag_reads:
  "fold (flv_apply_event clk) (map (\<lambda>t. TagRead (tag_type t) (timestamp_ms t) (tag_data t)) ts) st =
     st\<lparr>ps_broadcast := ps_broadcast st @ restamp clk (ps_tag_counter st) ts,
        ps_cache := fold gop_add_tag (restamp clk (ps_tag_counter st) ts) (ps_cache st),
        ps_tag_counter := ps_tag_counter st + word_of_nat (length ts)\<rparr>"
proof (induction ts arbitrary: st)
  case (Cons t ts)
  have "tag_packet clk k (tag_type t) (timestamp_ms t) (tag_data t) = t\<lparr>tag_origin_ts := clk k\<rparr>" for k
    by (cases t) (simp add: tag_packet_def)
  with Cons show ?case by (simp add: flv_apply_event_def Let_def add.assoc)
qed simp

text \<open>A pull depends on the bytes of the body, not on how they are cut.\<close>

lemma pull_same_bytes:
  assumes "concat cs = concat ds" and "status_is_success status"
  shows "fst (pull_flv_stream clk (Response status (map (\<lambda>c. (True, Chunk c)) cs)) sent cache)
       = fst (pull_flv_stream clk (Response status (map (\<lambda>c. (True, Chunk c)) ds)) sent cache)
    \<and> ps_broadcast (snd (pull_flv_stream clk (Response status (map (\<lambda>c. (True, Chunk c)) cs)) sent cache))
       = ps_broadcast (snd (pull_flv_stream clk (Response status (map (\<lambda>c. (True, Chunk c)) ds)) sent cache))
    \<and> ps_cache (snd (pull_flv_stream clk (Response status (map (\<lambda>c. (True, Chunk c)) cs)) sent cache))
       = ps_cache (snd (pull_flv_stream clk (Response status (map (\<lambda>c. (True, Chunk c)) ds)) sent cache))"
proof -
  let ?st = "\<lparr>ps_buffer = [], ps_header_parsed = False, ps_tag_counter = 0,
    ps_broadcast = sent, ps_cache = cache\<rparr>"
  obtain evs h r e where c: "feed_chunks flv_nx False [] cs = (evs, h, r, e)"
    by (cases "feed_chunks flv_nx False [] cs") auto
  moreover obtain evs' h' r' e' where d: "feed_chunks flv_nx False [] ds = (evs', h', r', e')"
    by (cases "feed_chunks flv_nx False [] ds") auto
  ultimately have "evs' = evs" "e' = e"
    using flv.chunking_irrelevant [of False cs ds] assms(1) by simp_all
  with flv_chunk_loop_feed [of ?st cs evs h r e clk] flv_chunk_loop_feed [of ?st ds evs' h' r' e' clk] c d
  show ?thesis using assms(2) by (simp add: pull_flv_stream_def)
qed

text \<open>The standard header: four bytes are skipped, eleven more dropped with an unknown tag.\<close>

lemma header_desync:
  assumes "2 \<le> length w"
  shows "flv_parse_loop clk \<lparr>ps_buffer = build_flv_header @ w, ps_header_parsed = False,
       ps_tag_counter = k, ps_broadcast = sent, ps_cache = cache\<rparr>
    = flv_parse_loop clk \<lparr>ps_buffer = drop 2 w, ps_header_parsed = True,
       ps_tag_counter = k, ps_broadcast = sent, ps_cache = cache\<rparr>"
    (is "flv_parse_loop clk ?s0 = flv_parse_loop clk ?s2")
proof -
  let ?s1 = "\<lparr>ps_buffer = [5, 0, 0, 0, 9, 0, 0, 0, 0] @ w, ps_header_parsed = True,
     ps_tag_counter = k, ps_broadcast = sent, ps_cache = cache\<rparr>"
  have z: "get_u32 [0, 0, 0, 0] = 0" by (simp add: get_u32_def from_be_def)
  have n0: "flv_nx False (build_flv_header @ w) = Inr (Some (HeaderSkipped 4, True, 4))"
    by (simp add: flv_nx_def build_flv_header_eq flv_consts subslice_def z)
  have n1: "flv_nx True ([5, 0, 0, 0, 9, 0, 0, 0, 0] @ w) = Inr (Some (UnknownTag 5, True, 11))"
    using assms by (simp add: flv_nx_def flv_consts flv_tag_type_try_from_def)
  have dr: "drop 11 ([5, 0, 0, 0, 9, 0, 0, 0, 0] @ w) = drop 2 w"
    by (simp add: drop_Cons')
  have "flv_parse_loop clk ?s0 = flv_parse_loop clk ?s1"
    using n0 by (simp add: flv_parse_loop.simps [of clk ?s0] flv_apply_event_def)
      (simp add: build_flv_header_eq)
  also have "\<dots> = flv_parse_loop clk ?s2"
    using n1 dr by (simp add: flv_parse_loop.simps [of clk ?s1] flv_apply_event_def
        del: append_Cons)
  finally show ?thesis .
qed

text \<open>Bytes that do not name a tag type cost eleven bytes.\<close>

lemma unknown_tag_drops:
  assumes "11 \<le> length b" "hd b \<notin> {0x08, 0x09, 0x12}"
  shows "flv_parse_loop clk \<lparr>ps_buffer = b, ps_header_parsed = True,
       ps_tag_counter = k, ps_broadcast = sent, ps_cache = cache\<rparr>
    = flv_parse_loop clk \<lparr>ps_buffer = drop 11 b, ps_header_parsed = True,
       ps_tag_counter = k, ps_broadcast = sent, ps_cache = cache\<rparr>"
    (is "flv_parse_loop clk ?s = _")
proof -
  have "b \<noteq> []" using assms(1) by auto
  then have "flv_nx True b = Inr (Some (UnknownTag (hd b), True, 11))"
    using assms by (simp add: flv_nx_def flv_consts hd_conv_nth flv_tag_type_try_from_def)
  then show ?thesis by (simp add: flv_parse_loop.simps [of clk ?s] flv_apply_event_def)
qed

text \<open>The size field of a short tag, where the parser that lost two bytes looks for a type.\<close>

lemma short_tag_wire:
  assumes "length (tag_data t) < 2048"
  shows "hd (drop 2 (build_flv_tag_wire t @ y)) \<notin> {0x08, 0x09, 0x12}"
    and "drop 11 (drop 2 (build_flv_tag_wire t @ y))
      = drop 2 (tag_data t @ put_u32 (11 + word_of_nat (length (tag_data t)))) @ y"
proof -
  let ?n = "word_of_nat (length (tag_data t)) :: u32"
  have n: "unat ?n = length (tag_data t)" using assms by (simp add: unat_of_nat)
  have "unat (ucast (drop_bit 8 ?n) :: u8) = length (tag_data t) div 256"
    using assms by (simp add: unsigned_ucast_eq unsigned_take_bit_eq take_bit_eq_mod n drop_bit_eq_div unat_div div_less_iff_less_mult)
  then have "unat (ucast (drop_bit 8 ?n) :: u8) < 8" using assms by (simp add: div_less_iff_less_mult)
  then have "(ucast (drop_bit 8 ?n) :: u8) \<notin> {0x08, 0x09, 0x12}" by auto
  then show "hd (drop 2 (build_flv_tag_wire t @ y)) \<notin> {0x08, 0x09, 0x12}"
    by (simp add: build_flv_tag_wire_def Let_def)
  show "drop 11 (drop 2 (build_flv_tag_wire t @ y))
      = drop 2 (tag_data t @ put_u32 (11 + ?n)) @ y"
    by (simp add: build_flv_tag_wire_def Let_def)
qed

lemma pull_unchunked:
  assumes "concat cs = body" "status_is_success status"
  shows "ps_broadcast (snd (pull_flv_stream clk (Response status (map (\<lambda>c. (True, Chunk c)) cs)) sent cache))
    = ps_broadcast (snd (flv_parse_loop clk \<lparr>ps_buffer = body, ps_header_parsed = False,
       ps_tag_counter = 0, ps_broadcast = sent, ps_cache = cache\<rparr>))"
proof -
  have "ps_broadcast (snd (pull_flv_stream clk (Response status (map (\<lambda>c. (True, Chunk c)) cs)) sent cache))
    = ps_broadcast (snd (pull_flv_stream clk (Response status (map (\<lambda>c. (True, Chunk c)) [body])) sent cache))"
    using pull_same_bytes [of cs "[body]" status clk sent cache] assms by simp
  also have "\<dots> = ps_broadcast (snd (flv_parse_loop clk \<lparr>ps_buffer = body, ps_header_parsed = False,
       ps_tag_counter = 0, ps_broadcast = sent, ps_cache = cache\<rparr>))"
    using assms(2) by (simp add: pull_flv_stream_def Let_def case_prod_unfold split: option.split)
  finally show ?thesis .
qed

section \<open>Properties\<close>

text \<open>
  C14: how the network cuts the upstream body into chunks is invisible. Two pulls of the
  same bytes, with no read error and the stream running throughout, end with the same
  result, the same broadcast tags and the same GOP cache.
\<close>

theorem pull_independent_of_chunking:
  assumes "concat cs = concat ds" and "status_is_success status"
  shows "fst (pull_flv_stream clk (Response status (map (\<lambda>c. (True, Chunk c)) cs)) sent cache)
       = fst (pull_flv_stream clk (Response status (map (\<lambda>c. (True, Chunk c)) ds)) sent cache)
    \<and> ps_broadcast (snd (pull_flv_stream clk (Response status (map (\<lambda>c. (True, Chunk c)) cs)) sent cache))
       = ps_broadcast (snd (pull_flv_stream clk (Response status (map (\<lambda>c. (True, Chunk c)) ds)) sent cache))
    \<and> ps_cache (snd (pull_flv_stream clk (Response status (map (\<lambda>c. (True, Chunk c)) cs)) sent cache))
       = ps_cache (snd (pull_flv_stream clk (Response status (map (\<lambda>c. (True, Chunk c)) ds)) sent cache))"
  by (rule pull_same_bytes [OF assms])

theorem pull_independent_of_chunking_witness:
  "ps_broadcast (snd (pull_flv_stream (\<lambda>_. 0) (Response 200 (map (\<lambda>c. (True, Chunk c)) [[1], [2, 3]]))
       [] (gop_cache_new gop_cache_config_default)))
   = ps_broadcast (snd (pull_flv_stream (\<lambda>_. 0) (Response 200 (map (\<lambda>c. (True, Chunk c)) [[1, 2, 3]]))
       [] (gop_cache_new gop_cache_config_default)))"
proof -
  have "concat [[1], [2, 3]] = concat [[1, 2, 3 :: u8]]" "status_is_success 200"
    by (simp_all add: status_is_success_def)
  from pull_independent_of_chunking [OF this] show ?thesis by blast
qed

lemma pull_flv_stream_new_tags:
  "\<exists>ts. ps_broadcast (snd (pull_flv_stream clk resp sent cache)) = sent @ ts
     \<and> ps_cache (snd (pull_flv_stream clk resp sent cache)) = fold gop_add_tag ts cache"
proof -
  let ?st = "\<lparr>ps_buffer = [], ps_header_parsed = False, ps_tag_counter = 0,
    ps_broadcast = sent, ps_cache = cache\<rparr>"
  have "\<exists>ts. new_tags ?st (snd (pull_flv_stream clk resp sent cache)) ts"
  proof (cases resp)
    case (Response status cs)
    then show ?thesis
      using flv_chunk_loop_new_tags [of ?st clk cs] new_tags_refl [of ?st]
      by (cases "status_is_success status") (auto simp: pull_flv_stream_def)
  qed (use new_tags_refl [of ?st] in \<open>auto simp: pull_flv_stream_def\<close>)
  then show ?thesis by (simp add: new_tags_def)
qed

text \<open>
  The cache and the broadcast never disagree. Whatever the upstream does (refused
  connection, bad status, invalid header, read errors, unknown tags, a stop in the
  middle), a pull only appends to the broadcast, and the cache is the previous cache fed
  with exactly the appended tags in order.
\<close>

theorem pull_keeps_cache_consistent:
  "\<exists>ts. ps_broadcast (snd (pull_flv_stream clk resp sent cache)) = sent @ ts
     \<and> ps_cache (snd (pull_flv_stream clk resp sent cache)) = fold gop_add_tag ts cache"
  by (rule pull_flv_stream_new_tags)

text \<open>
  Past the header, reading inverts writing. From a buffer that holds the wire form of
  tags (each below 16 MiB), the parser broadcasts those tags, in order and unchanged but
  for the origin timestamp it stamps itself, leaves no byte over and reports no error.
\<close>

theorem parse_inverts_wire:
  assumes "\<forall>t \<in> set ts. length (tag_data t) < 2 ^ 24"
    and "ps_header_parsed st" and "ps_buffer st = concat (map build_flv_tag_wire ts)"
  shows "fst (flv_parse_loop clk st) = None
    \<and> ps_broadcast (snd (flv_parse_loop clk st)) = ps_broadcast st @ restamp clk (ps_tag_counter st) ts
    \<and> ps_buffer (snd (flv_parse_loop clk st)) = []"
proof -
  have "drain flv_nx (ps_header_parsed st) (ps_buffer st) =
      (map (\<lambda>t. TagRead (tag_type t) (timestamp_ms t) (tag_data t)) ts, True, [], None)"
    using drain_wires [of ts] assms by (simp add: wire_tag_def)
  from flv_parse_loop_drain [OF this, of clk] show ?thesis by (simp add: fold_tag_reads)
qed

theorem parse_inverts_wire_witness:
  "map tag_data (ps_broadcast (snd (flv_parse_loop (\<lambda>_. 7)
     \<lparr>ps_buffer = build_flv_tag_wire \<lparr>tag_type = Audio, timestamp_ms = 5, tag_data = [0xAF, 1], tag_origin_ts = 0\<rparr>,
      ps_header_parsed = True, ps_tag_counter = 0, ps_broadcast = [],
      ps_cache = gop_cache_new gop_cache_config_default\<rparr>))) = [[0xAF, 1]]"
  using parse_inverts_wire [of "[\<lparr>tag_type = Audio, timestamp_ms = 5, tag_data = [0xAF, 1], tag_origin_ts = 0\<rparr>]"
    "\<lparr>ps_buffer = build_flv_tag_wire \<lparr>tag_type = Audio, timestamp_ms = 5, tag_data = [0xAF, 1], tag_origin_ts = 0\<rparr>,
      ps_header_parsed = True, ps_tag_counter = 0, ps_broadcast = [],
      ps_cache = gop_cache_new gop_cache_config_default\<rparr>" "\<lambda>_. 7"]
  by simp

text \<open>
  But the header is skipped wrongly. The data offset is read from bytes 5 to 7, which
  are the three high bytes of the field, so for the standard header (which this agent
  itself writes) the parser skips 4 bytes instead of 13, takes the flags byte for an
  unknown tag and drops 11 more: it goes on two bytes into the first tag. In particular
  an agent that pulls from another agent loses the first keyframe of the stream.
\<close>

theorem standard_header_desynchronises:
  assumes "2 \<le> length w"
  shows "flv_parse_loop clk \<lparr>ps_buffer = build_flv_header @ w, ps_header_parsed = False,
       ps_tag_counter = k, ps_broadcast = sent, ps_cache = cache\<rparr>
    = flv_parse_loop clk \<lparr>ps_buffer = drop 2 w, ps_header_parsed = True,
       ps_tag_counter = k, ps_broadcast = sent, ps_cache = cache\<rparr>
    \<and> ps_broadcast (snd (flv_parse_loop clk \<lparr>ps_buffer = build_flv_header @ build_flv_tag_wire
         \<lparr>tag_type = Video, timestamp_ms = 0, tag_data = [0x17, 1, 0, 0, 0, 9], tag_origin_ts = 0\<rparr>,
       ps_header_parsed = False, ps_tag_counter = k, ps_broadcast = sent, ps_cache = cache\<rparr>)) = sent"
proof -
  let ?w = "build_flv_tag_wire
         \<lparr>tag_type = Video, timestamp_ms = 0, tag_data = [0x17, 1, 0, 0, 0, 9], tag_origin_ts = 0\<rparr>"
  have "?w = [9, 0, 0, 6, 0, 0, 0, 0, 0, 0, 0, 0x17, 1, 0, 0, 0, 9, 0, 0, 0, 17]" by code_simp
  then have w: "2 \<le> length ?w" "drop 2 ?w = [0, 6, 0, 0, 0, 0, 0, 0, 0, 0x17, 1, 0, 0, 0, 9, 0, 0, 0, 17]" by simp_all
  let ?t = "\<lparr>ps_buffer = [0, 6, 0, 0, 0, 0, 0, 0, 0, 0x17, 1, 0, 0, 0, 9, 0, 0, 0, 17], ps_header_parsed = True,
       ps_tag_counter = k, ps_broadcast = sent, ps_cache = cache\<rparr>"
  let ?u = "\<lparr>ps_buffer = [0, 0, 0, 9, 0, 0, 0, 17], ps_header_parsed = True,
       ps_tag_counter = k, ps_broadcast = sent, ps_cache = cache\<rparr>"
  have "flv_parse_loop clk ?t = flv_parse_loop clk ?u"
    by (simp add: flv_parse_loop.simps [of clk ?t] flv_nx_def flv_consts flv_tag_type_try_from_def
        flv_apply_event_def)
  also have "\<dots> = (None, ?u)"
    by (simp add: flv_parse_loop.simps [of clk ?u] flv_nx_def flv_consts)
  finally show ?thesis using header_desync [OF assms] header_desync [OF w(1)] by (simp add: w(2))
qed

theorem standard_header_desynchronises_witness:
  "flv_parse_loop (\<lambda>_. 0) \<lparr>ps_buffer = build_flv_header @ [1, 2, 3], ps_header_parsed = False,
       ps_tag_counter = 0, ps_broadcast = [], ps_cache = gop_cache_new gop_cache_config_default\<rparr>
    = flv_parse_loop (\<lambda>_. 0) \<lparr>ps_buffer = [3], ps_header_parsed = True,
       ps_tag_counter = 0, ps_broadcast = [], ps_cache = gop_cache_new gop_cache_config_default\<rparr>"
  using standard_header_desynchronises [of "[1, 2, 3]" "\<lambda>_. 0" 0 "[]" "gop_cache_new gop_cache_config_default"]
  by simp

end
