(* ===== verification/Flv_Puller.thy ===== *)
theory Flv_Puller
  imports Flv_Pull Backoff Admission
begin

text \<open>
  The HTTP-FLV relay \<open>FlvPuller\<close> of agent-rust/src/relay/flv.rs: its shared state (the
  fields behind \<open>Arc<RwLock<\<dots>>>\<close>, each method taking one lock), the client admission, and
  the spawned pull task with its failover between the primary and the backup origin. The
  task's environment is a list of turns: the running flag it reads and the response each
  URL would give at that moment.
\<close>

section \<open>The shared state\<close>

record flv_puller =
  fp_stream_key :: string
  fp_flv_url :: string
  fp_backup_flv_url :: "string option"
  fp_running :: bool
  fp_bytes_sent :: u64
  fp_client_count :: nat
  fp_max_clients :: nat
  fp_gop_cache :: gop_cache

definition puller_with_backup :: "string \<Rightarrow> string \<Rightarrow> string option \<Rightarrow> nat \<Rightarrow> flv_puller" where
  "puller_with_backup key url backup max_clients =
     \<lparr>fp_stream_key = key, fp_flv_url = url, fp_backup_flv_url = backup, fp_running = False,
      fp_bytes_sent = 0, fp_client_count = 0, fp_max_clients = max_clients,
      fp_gop_cache = gop_cache_new gop_cache_config_default\<rparr>"

definition puller_new :: "string \<Rightarrow> string \<Rightarrow> nat \<Rightarrow> flv_puller" where
  "puller_new key url max_clients = puller_with_backup key url None max_clients"

text \<open>\<open>start\<close>: the flag is tested and set under one lock; the result says whether a pull task was spawned.\<close>

definition puller_start :: "flv_puller \<Rightarrow> bool \<times> flv_puller" where
  "puller_start p = (if fp_running p then (False, p) else (True, p\<lparr>fp_running := True\<rparr>))"

definition puller_stop :: "flv_puller \<Rightarrow> flv_puller" where
  "puller_stop p = p\<lparr>fp_running := False\<rparr>"

text \<open>\<open>try_read\<close> fails while a writer holds the lock; then the method answers \<open>false\<close>.\<close>

definition puller_is_running :: "bool \<Rightarrow> flv_puller \<Rightarrow> bool" where
  "puller_is_running lock_free p = (if lock_free then fp_running p else False)"

definition puller_add_client :: "flv_puller \<Rightarrow> bool \<times> flv_puller" where
  "puller_add_client p =
     (if fp_client_count p \<ge> fp_max_clients p then (False, p)
      else (True, p\<lparr>fp_client_count := fp_client_count p + 1\<rparr>))"

definition puller_remove_client :: "flv_puller \<Rightarrow> flv_puller" where
  "puller_remove_client p =
     (if fp_client_count p > 0 then p\<lparr>fp_client_count := fp_client_count p - 1\<rparr> else p)"

definition puller_client_count :: "flv_puller \<Rightarrow> nat" where
  "puller_client_count p = fp_client_count p"

definition puller_record_bytes_sent :: "u64 \<Rightarrow> flv_puller \<Rightarrow> flv_puller" where
  "puller_record_bytes_sent n p = p\<lparr>fp_bytes_sent := fp_bytes_sent p + n\<rparr>"

definition puller_current_bandwidth :: "flv_puller \<Rightarrow> u64" where
  "puller_current_bandwidth p = fp_bytes_sent p"

text \<open>The HEAD request to the primary URL: the milliseconds it took, or its failure.\<close>

definition puller_measure_rtt :: "(string \<Rightarrow> nat option) \<Rightarrow> flv_puller \<Rightarrow> u32" where
  "puller_measure_rtt head p =
     (case head (fp_flv_url p) of Some ms \<Rightarrow> word_of_nat ms | None \<Rightarrow> 9999)"

definition puller_get_startup_tags :: "flv_puller \<Rightarrow> flv_tag list" where
  "puller_get_startup_tags p = get_startup_tags (fp_gop_cache p)"

definition puller_gop_cache_stats :: "flv_puller \<Rightarrow> gop_cache_stats" where
  "puller_gop_cache_stats p = gop_stats (fp_gop_cache p)"

section \<open>The pull task\<close>

datatype task_status = Pulling | StreamEnded | StopSeen | DurationPanic

record attempt_log =
  al_url :: string
  al_error :: "pull_error option"
  al_wait :: "duration option"

record pull_task =
  pt_status :: task_status
  pt_using_backup :: bool
  pt_backoff :: exponential_backoff
  pt_seed :: u64
  pt_broadcast :: "flv_tag list"
  pt_cache :: gop_cache
  pt_attempts :: "attempt_log list"

definition pull_task_new :: "u64 \<Rightarrow> flv_puller \<Rightarrow> pull_task" where
  "pull_task_new seed p = \<lparr>pt_status = Pulling, pt_using_backup = False,
     pt_backoff = backoff_new 2 60, pt_seed = seed, pt_broadcast = [],
     pt_cache = fp_gop_cache p, pt_attempts = []\<rparr>"

definition current_url :: "flv_puller \<Rightarrow> pull_task \<Rightarrow> string" where
  "current_url p t =
     (if pt_using_backup t then
        (case fp_backup_flv_url p of Some url \<Rightarrow> url | None \<Rightarrow> fp_flv_url p)
      else fp_flv_url p)"

definition switch_origin :: "flv_puller \<Rightarrow> bool \<Rightarrow> bool" where
  "switch_origin p using_backup =
     (if \<not> using_backup \<and> fp_backup_flv_url p \<noteq> None then True
      else if using_backup then False
      else using_backup)"

definition pull_task_turn :: "flv_puller \<Rightarrow> (u64 \<Rightarrow> u64) \<Rightarrow> bool \<times> (string \<Rightarrow> flv_response)
    \<Rightarrow> pull_task \<Rightarrow> pull_task" where
  "pull_task_turn p clk = (\<lambda>(running, net) t.
     (if pt_status t \<noteq> Pulling then t
      else if \<not> running then t\<lparr>pt_status := StopSeen\<rparr>
      else
        let url = current_url p t;
            (res, ps) = pull_flv_stream clk (net url) (pt_broadcast t) (pt_cache t);
            t1 = t\<lparr>pt_broadcast := ps_broadcast ps, pt_cache := ps_cache ps\<rparr>
        in case res of
             Inr _ \<Rightarrow> t1\<lparr>pt_status := StreamEnded,
                         pt_attempts := pt_attempts t1 @ [\<lparr>al_url = url, al_error = None, al_wait = None\<rparr>]\<rparr>
           | Inl e \<Rightarrow>
               (case backoff_next (pt_backoff t1, pt_seed t1) of
                  (None, bo, s) \<Rightarrow> t1\<lparr>pt_backoff := bo, pt_seed := s, pt_status := DurationPanic\<rparr>
                | (Some wait, bo, s) \<Rightarrow>
                    t1\<lparr>pt_backoff := bo, pt_seed := s,
                       pt_using_backup := switch_origin p (pt_using_backup t1),
                       pt_attempts := pt_attempts t1 @ [\<lparr>al_url = url, al_error = Some e, al_wait = Some wait\<rparr>]\<rparr>)))"

definition pull_task_run :: "flv_puller \<Rightarrow> (u64 \<Rightarrow> u64) \<Rightarrow> (bool \<times> (string \<Rightarrow> flv_response)) list
    \<Rightarrow> pull_task \<Rightarrow> pull_task" where
  "pull_task_run p clk turns t = fold (pull_task_turn p clk) turns t"

section \<open>The puller provides admission\<close>

text \<open>What else happens to the shared state between the handlers' calls.\<close>

datatype puller_op = OpStart | OpStop | OpBytesSent u64 | OpCacheTag flv_tag

fun puller_internal :: "puller_op \<Rightarrow> flv_puller \<Rightarrow> flv_puller" where
  "puller_internal OpStart p = snd (puller_start p)"
| "puller_internal OpStop p = puller_stop p"
| "puller_internal (OpBytesSent n) p = puller_record_bytes_sent n p"
| "puller_internal (OpCacheTag t) p = p\<lparr>fp_gop_cache := gop_add_tag t (fp_gop_cache p)\<rparr>"

interpretation puller: admission puller_add_client puller_remove_client puller_internal
    puller_client_count fp_max_clients
proof unfold_locales
  fix x s
  show "puller_client_count (puller_internal x s) = puller_client_count s"
    by (cases x) (simp_all add: puller_client_count_def puller_start_def puller_stop_def
        puller_record_bytes_sent_def)
  show "fp_max_clients (puller_internal x s) = fp_max_clients s"
    by (cases x) (simp_all add: puller_start_def puller_stop_def puller_record_bytes_sent_def)
qed (auto simp: puller_add_client_def puller_remove_client_def puller_client_count_def)

abbreviation puller_ops :: "puller_op client_op list \<Rightarrow> flv_puller \<Rightarrow> bool list \<times> flv_puller" where
  "puller_ops \<equiv> run_ops puller_add_client puller_remove_client puller_internal"

lemma puller_ops_running:
  "Internal OpStop \<notin> set ops \<Longrightarrow> fp_running p \<Longrightarrow> fp_running (snd (puller_ops ops p))"
proof (induction ops arbitrary: p)
  case (Cons x ops)
  have "fp_running (snd (puller_add_client p)) = fp_running p"
    "fp_running (puller_remove_client p) = fp_running p"
    by (simp_all add: puller_add_client_def puller_remove_client_def)
  moreover have "fp_running (puller_internal y p)" if "x = Internal y" for y
    using Cons.prems that by (cases y) (auto simp: puller_start_def puller_record_bytes_sent_def)
  ultimately show ?case
    using Cons by (cases x) (auto simp: case_prod_unfold)
qed simp

section \<open>The pull task's invariant\<close>

definition nominal_wait :: "nat \<Rightarrow> real" where
  "nominal_wait k = min (2 * 2 ^ k) 60"

definition wait_in_bounds :: "nat \<Rightarrow> duration \<Rightarrow> bool" where
  "wait_in_bounds k w \<longleftrightarrow> 3 / 4 * nominal_wait k \<le> w \<and> w \<le> 5 / 4 * nominal_wait k"

definition nth_url :: "flv_puller \<Rightarrow> nat \<Rightarrow> string" where
  "nth_url p k = (case fp_backup_flv_url p of
     Some url \<Rightarrow> if odd k then url else fp_flv_url p
   | None \<Rightarrow> fp_flv_url p)"

definition attempts_ok :: "flv_puller \<Rightarrow> pull_task \<Rightarrow> bool" where
  "attempts_ok p t \<longleftrightarrow> (\<forall>k < length (pt_attempts t).
     al_url (pt_attempts t ! k) = nth_url p k
     \<and> (if al_error (pt_attempts t ! k) = None
        then Suc k = length (pt_attempts t) \<and> pt_status t = StreamEnded
        else \<exists>w. al_wait (pt_attempts t ! k) = Some w \<and> wait_in_bounds k w))"

definition task_inv :: "flv_puller \<Rightarrow> nat \<Rightarrow> pull_task \<Rightarrow> bool" where
  "task_inv p n t \<longleftrightarrow> length (pt_attempts t) \<le> n \<and> attempts_ok p t \<and> pt_status t \<noteq> DurationPanic
     \<and> bo_initial (pt_backoff t) = 2 \<and> bo_max (pt_backoff t) = 60 \<and> bo_multiplier (pt_backoff t) = 2
     \<and> (pt_status t = Pulling \<longrightarrow> unat (bo_attempt (pt_backoff t)) = length (pt_attempts t)
          \<and> pt_using_backup t = (fp_backup_flv_url p \<noteq> None \<and> odd (length (pt_attempts t))))"

lemma pulling_attempts_failed:
  "attempts_ok p t \<Longrightarrow> pt_status t = Pulling \<Longrightarrow> k < length (pt_attempts t) \<Longrightarrow>
   \<exists>w. al_error (pt_attempts t ! k) \<noteq> None \<and> al_wait (pt_attempts t ! k) = Some w \<and> wait_in_bounds k w"
  by (auto simp: attempts_ok_def split: if_splits)

lemma attempts_ok_snoc:
  assumes "attempts_ok p t" "pt_status t = Pulling"
    and "pt_attempts t' = pt_attempts t @ [a]" "al_url a = nth_url p (length (pt_attempts t))"
    and "if al_error a = None then pt_status t' = StreamEnded
         else \<exists>w. al_wait a = Some w \<and> wait_in_bounds (length (pt_attempts t)) w"
  shows "attempts_ok p t'"
  unfolding attempts_ok_def
proof (intro allI impI)
  fix k assume k: "k < length (pt_attempts t')"
  show "al_url (pt_attempts t' ! k) = nth_url p k
     \<and> (if al_error (pt_attempts t' ! k) = None
        then Suc k = length (pt_attempts t') \<and> pt_status t' = StreamEnded
        else \<exists>w. al_wait (pt_attempts t' ! k) = Some w \<and> wait_in_bounds k w)"
  proof (cases "k < length (pt_attempts t)")
    case True
    with pulling_attempts_failed [OF assms(1,2) True] assms(1,3) show ?thesis
      by (auto simp: attempts_ok_def nth_append)
  next
    case False
    with k assms(3) have "k = length (pt_attempts t)" by simp
    with assms(3,4,5) show ?thesis by (auto simp: nth_append)
  qed
qed

lemma task_inv_new: "task_inv p 0 (pull_task_new seed p)"
  by (simp add: task_inv_def attempts_ok_def pull_task_new_def backoff_new_def)

lemma task_inv_turn:
  assumes inv: "task_inv p n t" and n: "n < 2 ^ 31"
  shows "task_inv p (Suc n) (pull_task_turn p clk (running, net) t)"
proof (cases "pt_status t = Pulling \<and> running")
  case False
  then show ?thesis
    using inv by (auto simp: pull_task_turn_def task_inv_def attempts_ok_def)
next
  case True
  let ?m = "length (pt_attempts t)"
  have ok: "attempts_ok p t" and m: "unat (bo_attempt (pt_backoff t)) = ?m" "?m \<le> n"
    and ub: "pt_using_backup t = (fp_backup_flv_url p \<noteq> None \<and> odd ?m)"
    and bo: "bo_initial (pt_backoff t) = 2" "bo_max (pt_backoff t) = 60" "bo_multiplier (pt_backoff t) = 2"
    using inv True by (auto simp: task_inv_def)
  have url: "current_url p t = nth_url p ?m"
    using ub by (auto simp: current_url_def nth_url_def split: option.split)
  obtain res ps where r: "pull_flv_stream clk (net (nth_url p ?m)) (pt_broadcast t) (pt_cache t) = (res, ps)"
    by (cases "pull_flv_stream clk (net (nth_url p ?m)) (pt_broadcast t) (pt_cache t)")
  show ?thesis
  proof (cases res)
    case (Inr u)
    let ?t = "t\<lparr>pt_broadcast := ps_broadcast ps, pt_cache := ps_cache ps, pt_status := StreamEnded,
      pt_attempts := pt_attempts t @ [\<lparr>al_url = nth_url p ?m, al_error = None, al_wait = None\<rparr>]\<rparr>"
    have t: "pull_task_turn p clk (running, net) t = ?t"
      using True Inr by (simp add: pull_task_turn_def url r)
    have "attempts_ok p ?t" by (rule attempts_ok_snoc [OF ok]) (use True in auto)
    with m bo show ?thesis unfolding t task_inv_def by simp
  next
    case (Inl e)
    let ?w = "jittered (backoff_base (pt_backoff t)) (pt_seed t)"
    have bok: "backoff_ok (pt_backoff t)" using bo by (simp add: backoff_ok_def)
    have lt: "unat (bo_attempt (pt_backoff t)) < 2 ^ 31" using m n by simp
    have base: "backoff_base (pt_backoff t) = nominal_wait ?m"
      by (simp add: backoff_base_def nominal_wait_def bo m)
    have w: "wait_in_bounds ?m ?w"
      using jittered_bounds [of "nominal_wait ?m" "pt_seed t"]
      by (simp add: wait_in_bounds_def base) (simp add: nominal_wait_def)
    let ?t = "t\<lparr>pt_broadcast := ps_broadcast ps, pt_cache := ps_cache ps,
      pt_backoff := pt_backoff t\<lparr>bo_attempt := bo_attempt (pt_backoff t) + 1\<rparr>,
      pt_seed := xorshift64 (pt_seed t), pt_using_backup := switch_origin p (pt_using_backup t),
      pt_attempts := pt_attempts t @ [\<lparr>al_url = nth_url p ?m, al_error = Some e, al_wait = Some ?w\<rparr>]\<rparr>"
    have t: "pull_task_turn p clk (running, net) t = ?t"
      using True Inl by (simp add: pull_task_turn_def url r backoff_next_eq [OF bok lt])
    have "attempts_ok p ?t" by (rule attempts_ok_snoc [OF ok]) (use True w in auto)
    moreover have "unat (bo_attempt (pt_backoff t) + 1) = Suc ?m"
      using unat_inc [of "bo_attempt (pt_backoff t)"] lt m by simp
    moreover have "switch_origin p (pt_using_backup t) = (fp_backup_flv_url p \<noteq> None \<and> odd (Suc ?m))"
      by (auto simp: switch_origin_def ub)
    ultimately show ?thesis unfolding t task_inv_def using m bo True by simp
  qed
qed

lemma task_inv_run:
  "length turns \<le> 2 ^ 31 \<Longrightarrow> task_inv p (length turns) (pull_task_run p clk turns (pull_task_new seed p))"
proof (induction turns rule: rev_induct)
  case Nil
  then show ?case by (simp add: pull_task_run_def task_inv_new)
next
  case (snoc x turns)
  then show ?case
    using task_inv_turn [of p "length turns" _ clk "fst x" "snd x"] by (simp add: pull_task_run_def)
qed

lemma pull_turn_cache:
  "\<exists>ts. pt_broadcast (pull_task_turn p clk x t) = pt_broadcast t @ ts
     \<and> pt_cache (pull_task_turn p clk x t) = fold gop_add_tag ts (pt_cache t)"
proof -
  obtain running net where x: "x = (running, net)" by (cases x)
  obtain res ps where r: "pull_flv_stream clk (net (current_url p t)) (pt_broadcast t) (pt_cache t) = (res, ps)"
    by (cases "pull_flv_stream clk (net (current_url p t)) (pt_broadcast t) (pt_cache t)")
  with pull_flv_stream_new_tags [of clk "net (current_url p t)" "pt_broadcast t" "pt_cache t"]
  obtain ts where "ps_broadcast ps = pt_broadcast t @ ts" "ps_cache ps = fold gop_add_tag ts (pt_cache t)"
    by auto
  then show ?thesis
    by (cases "pt_status t = Pulling \<and> running")
      (auto simp: pull_task_turn_def x r Let_def split: sum.splits option.splits prod.splits)
qed

lemma pull_run_cache:
  "\<exists>ts. pt_broadcast (pull_task_run p clk turns t) = pt_broadcast t @ ts
     \<and> pt_cache (pull_task_run p clk turns t) = fold gop_add_tag ts (pt_cache t)"
proof (induction turns arbitrary: t)
  case (Cons x turns)
  from pull_turn_cache [of p clk x t] obtain us where
    us: "pt_broadcast (pull_task_turn p clk x t) = pt_broadcast t @ us"
    "pt_cache (pull_task_turn p clk x t) = fold gop_add_tag us (pt_cache t)" by blast
  from Cons.IH [of "pull_task_turn p clk x t"] us show ?case
    by (auto simp: pull_task_run_def intro: exI [of _ "us @ ts" for ts])
qed (simp add: pull_task_run_def)

lemma finished_task_is_inert: "pt_status t \<noteq> Pulling \<Longrightarrow> pull_task_run p clk turns t = t"
  by (induction turns) (auto simp: pull_task_run_def pull_task_turn_def)

section \<open>Properties\<close>

text \<open>
  C17: failover. Over any run of the pull task (up to \<open>2 ^ 31\<close> turns, whatever the network
  answers), the \<open>k\<close>-th attempt goes to the primary origin for even \<open>k\<close> and to the backup,
  if one is configured, for odd \<open>k\<close>; an attempt that failed is followed by a wait within 25
  percent of \<open>min (2 * 2 ^ k) 60\<close> seconds; only the last attempt can have ended normally,
  and then the task has ended. The exponent is the number of attempts since the task
  started, not since the last working connection: the backoff is never reset.
\<close>

theorem failover_schedule:
  assumes "length turns \<le> 2 ^ 31"
    and t: "t = pull_task_run p clk turns (pull_task_new seed p)"
  shows "pt_status t \<noteq> DurationPanic
    \<and> (\<forall>k < length (pt_attempts t).
        al_url (pt_attempts t ! k) =
          (case fp_backup_flv_url p of Some url \<Rightarrow> if odd k then url else fp_flv_url p | None \<Rightarrow> fp_flv_url p)
        \<and> (if al_error (pt_attempts t ! k) = None
           then Suc k = length (pt_attempts t) \<and> pt_status t = StreamEnded
           else \<exists>w. al_wait (pt_attempts t ! k) = Some w
              \<and> 3 / 4 * min (2 * 2 ^ k) 60 \<le> w \<and> w \<le> 5 / 4 * min (2 * 2 ^ k) 60))"
  using task_inv_run [OF assms(1), of p clk seed] unfolding t [symmetric]
    task_inv_def attempts_ok_def nth_url_def wait_in_bounds_def nominal_wait_def
  by (elim conjE) (intro conjI; assumption)

theorem failover_schedule_witness:
  "map al_url (pt_attempts (pull_task_run (puller_with_backup ''k'' ''http://a'' (Some ''http://b'') 5) id
     [(True, \<lambda>_. NoConnection), (True, \<lambda>_. Response 404 []), (False, \<lambda>_. NoClient)]
     (pull_task_new prng_init (puller_with_backup ''k'' ''http://a'' (Some ''http://b'') 5))))
   = [''http://a'', ''http://b'']"
proof -
  let ?p = "puller_with_backup ''k'' ''http://a'' (Some ''http://b'') 5"
  let ?turns = "[(True, \<lambda>_. NoConnection), (True, \<lambda>_. Response 404 []), (False, \<lambda>_. NoClient)]"
  let ?t = "pull_task_run ?p id ?turns (pull_task_new prng_init ?p)"
  have bok: "backoff_ok (backoff_new 2 60)" by (simp add: backoff_ok_def backoff_new_def)
  then have bok1: "backoff_ok (backoff_new 2 60\<lparr>bo_attempt := 1\<rparr>)" by (simp add: backoff_ok_def)
  have "length (pt_attempts ?t) = 2"
    using backoff_next_eq [OF bok, of prng_init] backoff_next_eq [OF bok1, of "xorshift64 prng_init"]
    by (simp add: pull_task_run_def pull_task_turn_def pull_task_new_def pull_flv_stream_def
        status_is_success_def backoff_new_def)
  moreover have "al_url (pt_attempts ?t ! k) = (if odd k then ''http://b'' else ''http://a'')"
    if "k < length (pt_attempts ?t)" for k
    using failover_schedule [of ?turns ?t ?p id prng_init] that
    by (simp add: puller_with_backup_def)
  ultimately show ?thesis by (auto simp: list_eq_iff_nth_eq less_2_cases_iff)
qed


text \<open>
  A puller whose upstream ended normally is dead for good. Once a pull returned
  \<open>Ok\<close>, the task broadcasts nothing any more; and since the task leaves the running flag
  set, a later \<open>start\<close> spawns no new task, whatever the clients did in between.
\<close>

theorem ended_puller_never_restarts:
  assumes "pt_status (pull_task_run p clk turns t) = StreamEnded" and "Internal OpStop \<notin> set ops"
  shows "pull_task_run p clk (turns @ later) t = pull_task_run p clk turns t
    \<and> fst (puller_start (snd (run_ops puller_add_client puller_remove_client puller_internal ops
         (snd (puller_start p))))) = False"
proof
  have "pull_task_run p clk (turns @ later) t = pull_task_run p clk later (pull_task_run p clk turns t)"
    by (simp add: pull_task_run_def)
  with finished_task_is_inert [of "pull_task_run p clk turns t" p clk later] assms(1)
  show "pull_task_run p clk (turns @ later) t = pull_task_run p clk turns t" by simp
  have "fp_running (snd (puller_start p))" by (simp add: puller_start_def)
  from puller_ops_running [OF assms(2) this]
  show "fst (puller_start (snd (puller_ops ops (snd (puller_start p))))) = False"
    by (simp add: puller_start_def)
qed

theorem ended_puller_never_restarts_witness:
  "fst (puller_start (snd (run_ops puller_add_client puller_remove_client puller_internal
     [Leave, Internal OpStart, Enter] (snd (puller_start (puller_new ''k'' ''u'' 5)))))) = False"
proof -
  let ?p = "puller_new ''k'' ''u'' 5"
  have "pt_status (pull_task_run ?p id [(True, \<lambda>_. Response 200 [])] (pull_task_new 1 ?p)) = StreamEnded"
    by (simp add: pull_task_run_def pull_task_turn_def pull_task_new_def pull_flv_stream_def
        status_is_success_def)
  from ended_puller_never_restarts [OF this, of "[Leave, Internal OpStart, Enter]"] show ?thesis by simp
qed

text \<open>
  C31: admission. Over any interleaving of connections entering and leaving with the
  relay's own steps the client count never exceeds the maximum; if every \<open>remove_client\<close>
  comes from an admitted connection, the count is the number of connections that hold a
  slot; and connections that never give their slot back lock everybody else out.
\<close>

theorem puller_admission:
  "puller_client_count (snd (run_ops puller_add_client puller_remove_client puller_internal ops
       (puller_with_backup key url backup n))) \<le> n
    \<and> (holders 0 (fst (run_ops puller_add_client puller_remove_client puller_internal ops
          (puller_with_backup key url backup n))) ops = Some h
        \<longrightarrow> puller_client_count (snd (run_ops puller_add_client puller_remove_client puller_internal ops
          (puller_with_backup key url backup n))) = h)
    \<and> \<not> fst (puller_add_client (snd (run_ops puller_add_client puller_remove_client puller_internal
          (replicate n Enter) (puller_with_backup key url backup n))))"
proof -
  let ?p = "puller_with_backup key url backup n"
  have p: "puller_client_count ?p = 0" "fp_max_clients ?p = n"
    by (simp_all add: puller_with_backup_def puller_client_count_def)
  show ?thesis
    using puller.run_bounded [of ?p ops] puller.run_accounting [of ?p ops h]
      puller.leaked_slots_exhaust [of ?p n] by (simp add: p)
qed

theorem puller_admission_witness:
  "puller_client_count (snd (run_ops puller_add_client puller_remove_client puller_internal
     [Enter, Enter, Enter, Leave] (puller_with_backup ''k'' ''u'' None 2))) = 1"
proof -
  have "holders 0 (fst (run_ops puller_add_client puller_remove_client puller_internal
     [Enter, Enter, Enter, Leave] (puller_with_backup ''k'' ''u'' None 2)))
     [Enter, Enter, Enter, Leave :: puller_op client_op] = Some 1"
    by (simp add: puller_with_backup_def puller_add_client_def)
  with puller_admission [of "[Enter, Enter, Enter, Leave]" "''k''" "''u''" None 2 1] show ?thesis by simp
qed

end
