(* ===== verification/Packet_Drop.thy ===== *)
theory Packet_Drop
  imports Complex_Main Gop_Cache
begin

text \<open>
  The packet dropping policy, agent-rust/src/relay/packet_drop.rs: priorities, the drop
  decision and the per-connection \<open>BackpressureTracker\<close>. The locale \<open>drop_filter\<close> is the
  contract the sending loops of main.rs rely on; it is interpreted on the tracker here
  and used by the sessions of theory \<open>Flv_Session\<close>.
\<close>

section \<open>Priorities\<close>

datatype packet_priority = Low | Medium | High

text \<open>The derived \<open>Ord\<close>: by discriminant.\<close>

fun priority_rank :: "packet_priority \<Rightarrow> nat" where
  "priority_rank Low = 0"
| "priority_rank Medium = 1"
| "priority_rank High = 2"

instantiation packet_priority :: linorder
begin

definition less_eq_packet_priority :: "packet_priority \<Rightarrow> packet_priority \<Rightarrow> bool" where
  "less_eq_packet_priority a b \<longleftrightarrow> priority_rank a \<le> priority_rank b"

definition less_packet_priority :: "packet_priority \<Rightarrow> packet_priority \<Rightarrow> bool" where
  "less_packet_priority a b \<longleftrightarrow> priority_rank a < priority_rank b"

instance
proof
  fix a b :: packet_priority
  show "a \<le> b \<Longrightarrow> b \<le> a \<Longrightarrow> a = b"
    by (cases a; cases b) (simp_all add: less_eq_packet_priority_def)
qed (auto simp: less_eq_packet_priority_def less_packet_priority_def)

end

definition get_packet_priority :: "flv_tag \<Rightarrow> packet_priority" where
  "get_packet_priority tag =
     (case tag_type tag of
        Script \<Rightarrow> High
      | Video \<Rightarrow>
          (case parse_video_frame_type tag of
             VSeqHeader \<Rightarrow> High
           | VKeyframe \<Rightarrow> High
           | VInterFrame \<Rightarrow> Low
           | VOther \<Rightarrow> Medium)
      | Audio \<Rightarrow>
          (case parse_audio_frame_type tag of
             ASeqHeader \<Rightarrow> High
           | ARawData \<Rightarrow> Medium
           | AOther \<Rightarrow> Medium))"

section \<open>The drop decision\<close>

record drop_policy =
  light_pressure_threshold :: u64
  medium_pressure_threshold :: u64
  drop_audio_enabled :: bool

definition drop_policy_default :: drop_policy where
  "drop_policy_default = \<lparr>light_pressure_threshold = 10, medium_pressure_threshold = 50,
     drop_audio_enabled = False\<rparr>"

definition should_drop :: "flv_tag \<Rightarrow> u64 \<Rightarrow> drop_policy \<Rightarrow> bool" where
  "should_drop tag lag policy =
     (let priority = get_packet_priority tag
      in if priority = High then False
         else if lag = 0 then False
         else case priority of
           Low \<Rightarrow> lag > 0
         | Medium \<Rightarrow> drop_audio_enabled policy \<and> lag > medium_pressure_threshold policy
         | High \<Rightarrow> False)"

section \<open>The tracker\<close>

record backpressure_tracker =
  lag_count :: u64
  consecutive_drops :: u32
  total_drops :: u64
  total_packets :: u64
  bp_policy :: drop_policy

definition tracker_new :: "drop_policy \<Rightarrow> backpressure_tracker" where
  "tracker_new p = \<lparr>lag_count = 0, consecutive_drops = 0, total_drops = 0, total_packets = 0,
     bp_policy = p\<rparr>"

definition tracker_with_default_policy :: backpressure_tracker where
  "tracker_with_default_policy = tracker_new drop_policy_default"

definition report_lag :: "u64 \<Rightarrow> backpressure_tracker \<Rightarrow> backpressure_tracker" where
  "report_lag n b = b\<lparr>lag_count := n\<rparr>"

definition relieve_pressure :: "backpressure_tracker \<Rightarrow> backpressure_tracker" where
  "relieve_pressure b =
     (if lag_count b > 0 then b\<lparr>lag_count := saturating_sub (lag_count b) 1\<rparr> else b)
       \<lparr>consecutive_drops := 0\<rparr>"

definition tracker_should_drop :: "backpressure_tracker \<Rightarrow> flv_tag \<Rightarrow> bool \<times> backpressure_tracker" where
  "tracker_should_drop b0 tag =
     (let b = b0\<lparr>total_packets := total_packets b0 + 1\<rparr>;
          drp = should_drop tag (lag_count b) (bp_policy b)
      in if drp
         then (drp, b\<lparr>consecutive_drops := consecutive_drops b + 1, total_drops := total_drops b + 1\<rparr>)
         else (drp, b\<lparr>consecutive_drops := 0\<rparr>))"

definition is_severe_pressure :: "backpressure_tracker \<Rightarrow> bool" where
  "is_severe_pressure b \<longleftrightarrow> lag_count b > medium_pressure_threshold (bp_policy b)"

text \<open>The rate is an \<open>f64\<close> quotient of counters; modelled as the exact real quotient.\<close>

definition drop_rate :: "backpressure_tracker \<Rightarrow> real" where
  "drop_rate b =
     (if total_packets b = 0 then 0
      else real (unat (total_drops b)) / real (unat (total_packets b)))"

record backpressure_stats =
  bs_lag_count :: u64
  bs_consecutive_drops :: u32
  bs_total_drops :: u64
  bs_total_packets :: u64
  bs_drop_rate :: real
  bs_is_severe :: bool

definition tracker_stats :: "backpressure_tracker \<Rightarrow> backpressure_stats" where
  "tracker_stats b = \<lparr>bs_lag_count = lag_count b, bs_consecutive_drops = consecutive_drops b,
     bs_total_drops = total_drops b, bs_total_packets = total_packets b,
     bs_drop_rate = drop_rate b, bs_is_severe = is_severe_pressure b\<rparr>"

section \<open>The contract of a dropping filter\<close>

text \<open>What a receiver of the broadcast channel observes.\<close>

datatype 'a recv_event = Recv 'a | Lagged u64

text \<open>
  The delivery loop over any filter: a received packet is dropped or sent, a lag
  notification updates the filter.
\<close>

fun deliver :: "('s \<Rightarrow> 'a \<Rightarrow> bool \<times> 's) \<Rightarrow> ('s \<Rightarrow> 's) \<Rightarrow> (u64 \<Rightarrow> 's \<Rightarrow> 's)
    \<Rightarrow> 's \<Rightarrow> 'a recv_event list \<Rightarrow> 'a list \<times> 's" where
  "deliver drp sent lagged s [] = ([], s)"
| "deliver drp sent lagged s (Lagged n # es) = deliver drp sent lagged (lagged n s) es"
| "deliver drp sent lagged s (Recv t # es) =
     (case drp s t of
        (True, s') \<Rightarrow> deliver drp sent lagged s' es
      | (False, s') \<Rightarrow>
          (case deliver drp sent lagged (sent s') es of (ts, s'') \<Rightarrow> (t # ts, s'')))"

fun received :: "'a recv_event list \<Rightarrow> 'a list" where
  "received [] = []"
| "received (Lagged n # es) = received es"
| "received (Recv t # es) = t # received es"

locale drop_filter =
  fixes drp :: "'s \<Rightarrow> 'a \<Rightarrow> bool \<times> 's"
    and sent :: "'s \<Rightarrow> 's"
    and lagged :: "u64 \<Rightarrow> 's \<Rightarrow> 's"
    and pressure :: "'s \<Rightarrow> nat"
    and essential :: "'a \<Rightarrow> bool"
    and lossy :: "'a \<Rightarrow> bool"
  assumes keep: "essential t \<Longrightarrow> \<not> fst (drp s t)"
    and calm: "pressure s = 0 \<Longrightarrow> \<not> fst (drp s t)"
    and busy: "0 < pressure s \<Longrightarrow> lossy t \<Longrightarrow> fst (drp s t)"
    and drop_pressure: "pressure (snd (drp s t)) = pressure s"
    and sent_pressure: "pressure (sent s) = pressure s - 1"
    and lagged_pressure: "pressure (lagged n s) = unat n"
begin

lemma drp_cases:
  obtains (dropped) s' where "drp s t = (True, s')" "pressure s' = pressure s" "\<not> essential t"
      "0 < pressure s"
  | (kept) s' where "drp s t = (False, s')" "pressure s' = pressure s" "0 < pressure s \<Longrightarrow> \<not> lossy t"
proof -
  obtain d s' where d: "drp s t = (d, s')" by (cases "drp s t")
  with drop_pressure [of s t] have p: "pressure s' = pressure s" by simp
  show ?thesis
  proof (cases d)
    case True
    with d keep [of t s] calm [of s t] p show ?thesis by (intro dropped [of s']) auto
  next
    case False
    with d busy [of s t] p show ?thesis by (intro kept [of s']) auto
  qed
qed

lemma delivered_subseq: "subseq (fst (deliver drp sent lagged s es)) (received es)"
  by (induction drp sent lagged s es rule: deliver.induct) (auto split: prod.splits bool.splits)

lemma essential_delivered:
  "filter essential (fst (deliver drp sent lagged s es)) = filter essential (received es)"
proof (induction es arbitrary: s)
  case Nil
  then show ?case by simp
next
  case (Cons e es)
  show ?case
  proof (cases e)
    case (Recv t)
    with Cons.IH show ?thesis
      by (cases rule: drp_cases [of s t]) (auto split: prod.splits, (metis fst_conv)+)
  next
    case (Lagged n)
    with Cons.IH show ?thesis by simp
  qed
qed

lemma calm_delivers_all:
  "pressure s = 0 \<Longrightarrow> fst (deliver drp sent lagged s (map Recv ts)) = ts"
proof (induction ts arbitrary: s)
  case (Cons t ts)
  show ?case
  proof (cases rule: drp_cases [of s t])
    case (kept s')
    with Cons.IH [of "sent s'"] Cons.prems show ?thesis
      by (auto simp: sent_pressure split: prod.splits)
  qed (use Cons.prems in simp)
qed simp

text \<open>
  Recovery: with pressure \<open>p\<close> and no further lag, lossy packets are held back until
  exactly \<open>p\<close> packets have been sent; from then on everything is delivered.
\<close>

lemma recovery:
  "\<exists>us vs held. ts = us @ vs \<and> fst (deliver drp sent lagged s (map Recv ts)) = held @ vs
     \<and> subseq held us \<and> (\<forall>t \<in> set held. \<not> lossy t)
     \<and> length held \<le> pressure s \<and> (vs \<noteq> [] \<longrightarrow> length held = pressure s)"
proof (induction ts arbitrary: s)
  case Nil
  then show ?case by simp
next
  case (Cons t ts)
  show ?case
  proof (cases "pressure s = 0")
    case True
    with calm_delivers_all [OF True, of "t # ts"] show ?thesis
      by (intro exI [of _ "[]"] exI [of _ "t # ts"]) simp
  next
    case False
    show ?thesis
    proof (cases rule: drp_cases [of s t])
      case (dropped s')
      from Cons.IH [of s'] obtain us vs held where h: "ts = us @ vs"
        "fst (deliver drp sent lagged s' (map Recv ts)) = held @ vs" "subseq held us"
        "\<forall>t \<in> set held. \<not> lossy t" "length held \<le> pressure s'"
        "vs \<noteq> [] \<longrightarrow> length held = pressure s'" by blast
      with dropped show ?thesis
        by (intro exI [of _ "t # us"] exI [of _ vs] exI [of _ held]) (simp add: list_emb_Cons)
    next
      case (kept s')
      from Cons.IH [of "sent s'"] obtain us vs held where h: "ts = us @ vs"
        "fst (deliver drp sent lagged (sent s') (map Recv ts)) = held @ vs" "subseq held us"
        "\<forall>t \<in> set held. \<not> lossy t" "length held \<le> pressure (sent s')"
        "vs \<noteq> [] \<longrightarrow> length held = pressure (sent s')" by blast
      with kept False show ?thesis
        by (intro exI [of _ "t # us"] exI [of _ vs] exI [of _ "t # held"])
          (auto simp: sent_pressure split: prod.splits)
    qed
  qed
qed

end

section \<open>The tracker meets the contract\<close>

lemma should_drop_iff:
  "should_drop tag lag p \<longleftrightarrow> lag \<noteq> 0 \<and>
     (get_packet_priority tag = Low
      \<or> get_packet_priority tag = Medium \<and> drop_audio_enabled p \<and> lag > medium_pressure_threshold p)"
  by (cases "get_packet_priority tag") (auto simp: should_drop_def Let_def word_gt_0)

lemma tracker_should_drop_simps:
  "fst (tracker_should_drop b t) = should_drop t (lag_count b) (bp_policy b)"
  "lag_count (snd (tracker_should_drop b t)) = lag_count b"
  "bp_policy (snd (tracker_should_drop b t)) = bp_policy b"
  "total_packets (snd (tracker_should_drop b t)) = total_packets b + 1"
  "total_drops (snd (tracker_should_drop b t)) =
     total_drops b + (if should_drop t (lag_count b) (bp_policy b) then 1 else 0)"
  "consecutive_drops (snd (tracker_should_drop b t)) =
     (if should_drop t (lag_count b) (bp_policy b) then consecutive_drops b + 1 else 0)"
  by (simp_all add: tracker_should_drop_def Let_def)

lemma lag_relieve: "unat (lag_count (relieve_pressure b)) = unat (lag_count b) - 1"
proof (cases "lag_count b = 0")
  case True
  then show ?thesis by (simp add: relieve_pressure_def)
next
  case False
  then have "1 \<le> lag_count b" by (simp add: word_le_nat_alt unat_gt_0 Suc_leI)
  with False show ?thesis
    by (simp add: relieve_pressure_def saturating_sub_def word_gt_0 unat_sub not_less)
qed

interpretation tracker: drop_filter tracker_should_drop relieve_pressure report_lag
    "\<lambda>b. unat (lag_count b)" "\<lambda>t. get_packet_priority t = High" "\<lambda>t. get_packet_priority t = Low"
  by unfold_locales
    (auto simp: tracker_should_drop_simps should_drop_iff lag_relieve report_lag_def unat_gt_0
      unsigned_eq_0_iff)

section \<open>Runs of the tracker\<close>

datatype tracker_op = ReportLag u64 | Relieve | Ask flv_tag

fun tracker_run :: "backpressure_tracker \<Rightarrow> tracker_op list \<Rightarrow> bool list \<times> backpressure_tracker" where
  "tracker_run b [] = ([], b)"
| "tracker_run b (ReportLag n # ops) = tracker_run (report_lag n b) ops"
| "tracker_run b (Relieve # ops) = tracker_run (relieve_pressure b) ops"
| "tracker_run b (Ask t # ops) =
     (case tracker_should_drop b t of (d, b') \<Rightarrow>
        (case tracker_run b' ops of (ds, b'') \<Rightarrow> (d # ds, b'')))"

lemma relieve_counters [simp]:
  "total_packets (relieve_pressure b) = total_packets b"
  "total_drops (relieve_pressure b) = total_drops b"
  "consecutive_drops (relieve_pressure b) = 0"
  by (simp_all add: relieve_pressure_def)

lemma report_lag_counters [simp]:
  "total_packets (report_lag n b) = total_packets b"
  "total_drops (report_lag n b) = total_drops b"
  "consecutive_drops (report_lag n b) = consecutive_drops b"
  by (simp_all add: report_lag_def)

lemma tracker_run_counts:
  "tracker_run b ops = (ds, b') \<Longrightarrow>
    total_packets b' = total_packets b + word_of_nat (length ds)
    \<and> total_drops b' = total_drops b + word_of_nat (length (filter id ds))"
proof (induction b ops arbitrary: ds rule: tracker_run.induct)
  case (4 b t ops)
  obtain d b1 where d: "tracker_should_drop b t = (d, b1)" by (cases "tracker_should_drop b t")
  obtain es where es: "tracker_run b1 ops = (es, b')" "ds = d # es"
    using "4.prems" d by (auto split: prod.splits)
  from "4.IH" [OF d [symmetric] es(1)] es(2) tracker_should_drop_simps(1,4,5) [of b t] d show ?case
    by simp
qed auto

section \<open>Properties\<close>

text \<open>
  With the default policy, which every connection uses, the decision is: drop exactly
  the inter frames (P/B video frames), and those as soon as there is any lag. Keyframes,
  sequence headers, metadata and audio are always kept. (The module's comment promises a
  medium level that also drops audio and a severe level that drops up to the next
  keyframe; the default policy has neither.)
\<close>

theorem default_policy_drops_inter_frames_only:
  "should_drop tag lag drop_policy_default \<longleftrightarrow> lag \<noteq> 0 \<and> parse_video_frame_type tag = VInterFrame"
proof -
  have "get_packet_priority tag = Low \<longleftrightarrow> parse_video_frame_type tag = VInterFrame"
    using non_video [of tag]
    by (auto simp: get_packet_priority_def split: flv_tag_type.splits video_frame_type.splits
        audio_frame_type.splits)
  then show ?thesis by (simp add: should_drop_iff drop_policy_default_def)
qed

text \<open>
  Under any policy a high-priority packet (metadata, sequence header, keyframe) is
  never dropped, nothing is dropped without lag, dropping is monotone in the lag, a
  packet of lower priority is dropped whenever one of higher priority would be, and the
  configured light-pressure threshold has no influence.
\<close>

theorem drop_decision_laws:
  "(get_packet_priority tag = High \<longrightarrow> \<not> should_drop tag lag p)
    \<and> \<not> should_drop tag 0 p
    \<and> (should_drop tag lag p \<and> lag \<le> lag' \<longrightarrow> should_drop tag lag' p)
    \<and> (get_packet_priority tag' \<le> get_packet_priority tag \<and> should_drop tag lag p
        \<longrightarrow> should_drop tag' lag p)
    \<and> should_drop tag lag (p\<lparr>light_pressure_threshold := n\<rparr>) = should_drop tag lag p"
proof (intro conjI impI)
  assume a: "should_drop tag lag p \<and> lag \<le> lag'"
  then have "lag' \<noteq> 0" by (auto simp: should_drop_iff)
  with a show "should_drop tag lag' p" by (auto simp: should_drop_iff intro: less_le_trans)
next
  assume "get_packet_priority tag' \<le> get_packet_priority tag \<and> should_drop tag lag p"
  then show "should_drop tag' lag p"
    by (cases "get_packet_priority tag"; cases "get_packet_priority tag'")
      (auto simp: should_drop_iff less_eq_packet_priority_def)
qed (simp_all add: should_drop_iff)

theorem drop_decision_laws_witness:
  "should_drop \<lparr>tag_type = Video, timestamp_ms = 0, tag_data = [0x27, 1], tag_origin_ts = 0\<rparr> 9
     drop_policy_default"
proof -
  let ?t = "\<lparr>tag_type = Video, timestamp_ms = 0, tag_data = [0x27, 1], tag_origin_ts = 0\<rparr>"
  have "should_drop ?t 1 drop_policy_default" by code_simp
  with drop_decision_laws [of ?t 1 drop_policy_default 9] show ?thesis by simp
qed

text \<open>
  The tracker's books balance over any sequence of lag reports, sends and drop
  questions: as long as fewer than \<open>2 ^ 64\<close> questions were asked, the packet total is the
  number of questions, the drop total the number of positive answers, and the reported
  drop rate is their quotient, between 0 and 1.
\<close>

theorem tracker_accounting:
  assumes "tracker_run (tracker_new p) ops = (ds, b)" and "length ds < 2 ^ 64"
  shows "unat (total_packets b) = length ds \<and> unat (total_drops b) = length (filter id ds)
    \<and> 0 \<le> drop_rate b \<and> drop_rate b \<le> 1
    \<and> (ds \<noteq> [] \<longrightarrow> drop_rate b = real (length (filter id ds)) / real (length ds))"
proof -
  have le: "length (filter id ds) \<le> length ds" by simp
  have "total_packets b = word_of_nat (length ds)"
    "total_drops b = word_of_nat (length (filter id ds))"
    using tracker_run_counts [OF assms(1)] by (simp_all add: tracker_new_def)
  then have n: "unat (total_packets b) = length ds" "unat (total_drops b) = length (filter id ds)"
    using assms(2) le_less_trans [OF le assms(2)] by (simp_all only: unat_of_nat) simp_all
  have "total_packets b = 0 \<longleftrightarrow> ds = []" by (simp flip: n(1) unsigned_eq_0_iff length_0_conv)
  then have "drop_rate b = (if ds = [] then 0 else real (length (filter id ds)) / real (length ds))"
    by (simp add: drop_rate_def n)
  with n le show ?thesis by (auto simp: divide_le_eq_1)
qed

theorem tracker_accounting_witness:
  "unat (total_drops (snd (tracker_run (tracker_new drop_policy_default)
     [ReportLag 1, Ask \<lparr>tag_type = Video, timestamp_ms = 0, tag_data = [0x27, 1], tag_origin_ts = 0\<rparr>])))
   = 1"
proof -
  let ?ops = "[ReportLag 1, Ask \<lparr>tag_type = Video, timestamp_ms = 0, tag_data = [0x27, 1], tag_origin_ts = 0\<rparr>]"
  have ds: "fst (tracker_run (tracker_new drop_policy_default) ?ops) = [True]" by code_simp
  obtain b where b: "tracker_run (tracker_new drop_policy_default) ?ops = ([True], b)"
    using ds by (cases "tracker_run (tracker_new drop_policy_default) ?ops") auto
  from tracker_accounting [OF b] b show ?thesis by simp
qed

end
