(* ===== verification/Flv_Session.thy ===== *)
theory Flv_Session
  imports Flv_Puller Packet_Drop
begin

text \<open>
  One viewer of an FLV relay, agent-rust/src/main.rs: the streaming part of
  \<open>handle_http_flv_connection\<close> (from \<open>add_client\<close> on) and \<open>handle_ws_flv_mode\<close>. The socket
  is an oracle \<open>wr\<close>: \<open>wr k\<close> says whether the connection's \<open>k\<close>-th write succeeds. The
  subscription is the list of what \<open>rx.recv()\<close> returns. The relay record is the part of
  the shared state this connection changes; the other connections' changes to it are
  interleaved freely, which theory \<open>Flv_Puller\<close> covers for the client count.
\<close>

section \<open>The send loop\<close>

datatype rx_result = RxOk flv_tag | RxLagged u64 | RxClosed

text \<open>
  The result: what was written, the relay, and whether the loop was left (\<open>break\<close>). With
  no event left the loop is still waiting in \<open>recv\<close>.
\<close>

fun flv_send_loop :: "(nat \<Rightarrow> bool) \<Rightarrow> nat \<Rightarrow> backpressure_tracker \<Rightarrow> flv_puller \<Rightarrow> rx_result list
    \<Rightarrow> bytes list \<times> flv_puller \<times> bool" where
  "flv_send_loop wr k bp_tracker relay [] = ([], relay, False)"
| "flv_send_loop wr k bp_tracker relay (RxOk packet # rx) =
     (case tracker_should_drop bp_tracker packet of
        (True, b) \<Rightarrow> flv_send_loop wr k b relay rx
      | (False, b) \<Rightarrow>
          (let tag_bytes = build_flv_tag_wire packet
           in if wr k then
                (case flv_send_loop wr (k + 1) (relieve_pressure b)
                        (puller_record_bytes_sent (word_of_nat (length tag_bytes)) relay) rx of
                   (ws, r, fin) \<Rightarrow> (tag_bytes # ws, r, fin))
              else ([], relay, True)))"
| "flv_send_loop wr k bp_tracker relay (RxLagged n # rx) =
     flv_send_loop wr k (report_lag n bp_tracker) relay rx"
| "flv_send_loop wr k bp_tracker relay (RxClosed # rx) = ([], relay, True)"

section \<open>HTTP-FLV\<close>

definition ascii :: "string \<Rightarrow> bytes" where
  "ascii s = map (\<lambda>c. word_of_nat (of_char c)) s"

definition CRLF :: string where
  "CRLF = [CHR 0x0D, CHR 0x0A]"

definition http_503_full :: string where
  "http_503_full = ''HTTP/1.1 503 Service Unavailable'' @ CRLF @ ''Content-Length: 15'' @ CRLF @ CRLF
     @ ''Max clients hit''"

definition flv_response_header :: "bool \<Rightarrow> string" where
  "flv_response_header cascade =
     ''HTTP/1.1 200 OK'' @ CRLF
     @ ''Content-Type: video/x-flv'' @ CRLF
     @ ''Cache-Control: no-cache, no-store'' @ CRLF
     @ ''Access-Control-Allow-Origin: *'' @ CRLF
     @ ''Access-Control-Allow-Headers: *'' @ CRLF
     @ ''Access-Control-Expose-Headers: *'' @ CRLF
     @ (if cascade then ''X-LiveCDN-Cascade: true'' @ CRLF else [])
     @ CRLF"

datatype session_end = Refused | IoError | Served | Serving

record session =
  ss_written :: "bytes list"
  ss_relay :: flv_puller
  ss_end :: session_end

definition startup_buffer :: "flv_tag list \<Rightarrow> bytes" where
  "startup_buffer tags = concat (map build_flv_tag_wire tags)"

text \<open>From the start-up tags on: both kinds of connection do the same.\<close>

definition flv_stream_to :: "(nat \<Rightarrow> bool) \<Rightarrow> nat \<Rightarrow> bytes list \<Rightarrow> bool \<Rightarrow> flv_puller \<Rightarrow> rx_result list
    \<Rightarrow> session" where
  "flv_stream_to wr k written peer_closed relay rx =
     (let startup_tags = puller_get_startup_tags relay;
          startup_buf = startup_buffer startup_tags
      in if startup_tags \<noteq> [] \<and> \<not> wr k
         then \<lparr>ss_written = written, ss_relay = puller_remove_client relay, ss_end = Served\<rparr>
         else
           let (k1, written1, relay1) =
                 (if startup_tags \<noteq> []
                  then (k + 1, written @ [startup_buf],
                        puller_record_bytes_sent (word_of_nat (length startup_buf)) relay)
                  else (k, written, relay));
               (ws, relay2, fin) = flv_send_loop wr k1 tracker_with_default_policy relay1 rx
           in if fin \<or> peer_closed
              then \<lparr>ss_written = written1 @ ws, ss_relay = puller_remove_client relay2, ss_end = Served\<rparr>
              else \<lparr>ss_written = written1 @ ws, ss_relay = relay2, ss_end = Serving\<rparr>)"

definition http_flv_session :: "(nat \<Rightarrow> bool) \<Rightarrow> bool \<Rightarrow> flv_puller \<Rightarrow> rx_result list \<Rightarrow> session" where
  "http_flv_session wr cascade relay rx =
     (case puller_add_client relay of
        (False, r) \<Rightarrow>
          (if wr 0 then \<lparr>ss_written = [ascii http_503_full], ss_relay = r, ss_end = Refused\<rparr>
           else \<lparr>ss_written = [], ss_relay = r, ss_end = IoError\<rparr>)
      | (True, r) \<Rightarrow>
          (if \<not> wr 0 then \<lparr>ss_written = [], ss_relay = r, ss_end = IoError\<rparr>
           else
             let header = ascii (flv_response_header cascade)
             in if \<not> wr 1 then \<lparr>ss_written = [header], ss_relay = r, ss_end = IoError\<rparr>
                else flv_stream_to wr 2 [header, build_flv_header] False r rx))"

section \<open>WebSocket FLV mode\<close>

definition ws_full_message :: string where
  "ws_full_message = CHR 0x7B # CHR 0x22 # ''error'' @ CHR 0x22 # CHR 0x3A # CHR 0x22
     # ''max clients reached'' @ [CHR 0x22, CHR 0x7D]"

text \<open>
  \<open>peer_closed\<close>: the receiving task has seen a close frame or an error, which ends the
  \<open>select!\<close>. (The detached sending task still drains the subscription until a write fails.)
\<close>

definition ws_flv_session :: "(nat \<Rightarrow> bool) \<Rightarrow> bool \<Rightarrow> flv_puller \<Rightarrow> rx_result list \<Rightarrow> session" where
  "ws_flv_session wr peer_closed relay rx =
     (case puller_add_client relay of
        (False, r) \<Rightarrow>
          \<lparr>ss_written = (if wr 0 then [ascii ws_full_message] else []), ss_relay = r, ss_end = Refused\<rparr>
      | (True, r) \<Rightarrow>
          (if \<not> wr 0 then \<lparr>ss_written = [], ss_relay = puller_remove_client r, ss_end = Served\<rparr>
           else flv_stream_to wr 1 [build_flv_header] peer_closed r rx))"

section \<open>A viewer that joins a running stream\<close>

text \<open>
  The relay has broadcast \<open>hist\<close> in all. The handler reads the start-up tags after \<open>i\<close> of
  them (the cache then holds that much) and subscribes after \<open>j\<close>: a broadcast receiver
  sees what is sent after its subscription.
\<close>

definition join_relay :: "nat \<Rightarrow> flv_tag list \<Rightarrow> flv_puller" where
  "join_relay n hist = (puller_with_backup [] [] None n)
     \<lparr>fp_gop_cache := gop_run gop_cache_config_default hist\<rparr>"

definition join_session :: "(nat \<Rightarrow> bool) \<Rightarrow> flv_tag list \<Rightarrow> nat \<Rightarrow> nat \<Rightarrow> session" where
  "join_session wr hist i j =
     http_flv_session wr False (join_relay 1 (take i hist)) (map RxOk (drop j hist))"

section \<open>The send loop delivers through the tracker\<close>

fun to_rx :: "flv_tag recv_event \<Rightarrow> rx_result" where
  "to_rx (Recv t) = RxOk t"
| "to_rx (Lagged n) = RxLagged n"

abbreviation flv_deliver :: "backpressure_tracker \<Rightarrow> flv_tag recv_event list \<Rightarrow> flv_tag list" where
  "flv_deliver b es \<equiv> fst (deliver tracker_should_drop relieve_pressure report_lag b es)"

lemma send_loop_delivers:
  assumes "\<And>i. wr i"
  shows "\<exists>r. flv_send_loop wr k b relay (map to_rx es) = (map build_flv_tag_wire (flv_deliver b es), r, False)"
proof (induction es arbitrary: k b relay)
  case (Cons e es)
  show ?case
  proof (cases e)
    case (Recv t)
    obtain d b' where d: "tracker_should_drop b t = (d, b')" by (cases "tracker_should_drop b t")
    show ?thesis
    proof (cases d)
      case True
      with Recv d Cons.IH [of k b' relay] show ?thesis by simp
    next
      case False
      with Recv d assms Cons.IH [of "k + 1" "relieve_pressure b'"
          "puller_record_bytes_sent (word_of_nat (length (build_flv_tag_wire t))) relay"]
      show ?thesis by (auto simp: case_prod_unfold Let_def)
    qed
  next
    case (Lagged n)
    with Cons.IH [of k "report_lag n b" relay] show ?thesis by simp
  qed
qed simp

text \<open>What the loop does to the relay: it records the bytes it wrote, nothing else.\<close>

definition total_len :: "bytes list \<Rightarrow> nat" where
  "total_len ws = sum_list (map length ws)"

lemma total_len_simps [simp]:
  "total_len [] = 0" "total_len (w # ws) = length w + total_len ws"
  "total_len (us @ ws) = total_len us + total_len ws"
  by (simp_all add: total_len_def)

lemma send_loop_relay:
  "flv_send_loop wr k b relay rx = (ws, r, fin) \<Longrightarrow>
   r = puller_record_bytes_sent (word_of_nat (total_len ws)) relay"
proof (induction wr k b relay rx arbitrary: ws r fin rule: flv_send_loop.induct)
  case (2 wr k b relay t rx)
  obtain d b' where d: "tracker_should_drop b t = (d, b')" by (cases "tracker_should_drop b t")
  show ?case
  proof (cases d)
    case True
    with "2.IH"(1) "2.prems" d show ?thesis by simp
  next
    case False
    show ?thesis
    proof (cases "wr k")
      case True
      let ?w = "build_flv_tag_wire t"
      obtain vs where vs: "flv_send_loop wr (k + 1) (relieve_pressure b')
          (puller_record_bytes_sent (word_of_nat (length ?w)) relay) rx = (vs, r, fin)" "ws = ?w # vs"
        using "2.prems" d False True by (auto simp: Let_def split: prod.splits)
      from "2.IH"(2) [OF d [symmetric] _ refl True vs(1)] False vs(2) show ?thesis
        by (simp add: puller_record_bytes_sent_def ac_simps)
    next
      case False
      with "2.prems" d \<open>\<not> d\<close> show ?thesis by (simp add: puller_record_bytes_sent_def)
    qed
  qed
qed (auto simp: puller_record_bytes_sent_def)

lemma stream_to_cases:
  obtains ws b where
    "flv_stream_to wr k written pc relay rx =
       \<lparr>ss_written = written @ ws,
        ss_relay = (if b then puller_remove_client else id)
          (puller_record_bytes_sent (word_of_nat (total_len ws)) relay),
        ss_end = (if b then Served else Serving)\<rparr>"
proof -
  let ?tags = "puller_get_startup_tags relay"
  let ?buf = "startup_buffer ?tags"
  have zero: "puller_record_bytes_sent 0 relay = relay"
    by (simp add: puller_record_bytes_sent_def)
  consider (fail) "?tags \<noteq> []" "\<not> wr k" | (sent) "?tags \<noteq> []" "wr k" | (none) "?tags = []" by blast
  then show ?thesis
  proof cases
    case fail
    then show ?thesis by (intro that [of "[]" True]) (simp add: flv_stream_to_def zero)
  next
    case sent
    let ?r = "puller_record_bytes_sent (word_of_nat (length ?buf)) relay"
    obtain ws r fin where l: "flv_send_loop wr (k + 1) tracker_with_default_policy ?r rx = (ws, r, fin)"
      by (cases "flv_send_loop wr (k + 1) tracker_with_default_policy ?r rx")
    have "r = puller_record_bytes_sent (word_of_nat (total_len (?buf # ws))) relay"
      using send_loop_relay [OF l] by (simp add: puller_record_bytes_sent_def ac_simps)
    with sent l show ?thesis
      by (intro that [of "?buf # ws" "fin \<or> pc"]) (simp add: flv_stream_to_def Let_def)
  next
    case none
    obtain ws r fin where l: "flv_send_loop wr k tracker_with_default_policy relay rx = (ws, r, fin)"
      by (cases "flv_send_loop wr k tracker_with_default_policy relay rx")
    with none send_loop_relay [OF l] show ?thesis
      by (intro that [of ws "fin \<or> pc"]) (simp add: flv_stream_to_def Let_def)
  qed
qed

lemma stream_to_delivers:
  assumes "\<And>i. wr i"
  shows "ss_written (flv_stream_to wr k written pc relay (map to_rx es)) = written
      @ (if puller_get_startup_tags relay = [] then [] else [startup_buffer (puller_get_startup_tags relay)])
      @ map build_flv_tag_wire (flv_deliver tracker_with_default_policy es)"
    and "ss_end (flv_stream_to wr k written False relay (map to_rx es)) = Serving"
proof -
  have "\<exists>r. flv_send_loop wr k' tracker_with_default_policy r' (map to_rx es)
      = (map build_flv_tag_wire (flv_deliver tracker_with_default_policy es), r, False)" for k' r'
    by (rule send_loop_delivers [OF assms])
  from this [of "k + 1" "puller_record_bytes_sent (word_of_nat (length (startup_buffer
      (puller_get_startup_tags relay)))) relay"] this [of k relay]
  show "ss_written (flv_stream_to wr k written pc relay (map to_rx es)) = written
      @ (if puller_get_startup_tags relay = [] then [] else [startup_buffer (puller_get_startup_tags relay)])
      @ map build_flv_tag_wire (flv_deliver tracker_with_default_policy es)"
    and "ss_end (flv_stream_to wr k written False relay (map to_rx es)) = Serving"
    using assms by (auto simp: flv_stream_to_def Let_def)
qed

lemma http_session_admitted:
  "(\<And>i. wr i) \<Longrightarrow> fp_client_count relay < fp_max_clients relay \<Longrightarrow>
   http_flv_session wr c relay rx = flv_stream_to wr 2 [ascii (flv_response_header c), build_flv_header] False
     (relay\<lparr>fp_client_count := fp_client_count relay + 1\<rparr>) rx"
  by (simp add: http_flv_session_def puller_add_client_def Let_def)

lemma startup_tags_count [simp]:
  "puller_get_startup_tags (relay\<lparr>fp_client_count := n\<rparr>) = puller_get_startup_tags relay"
  by (simp add: puller_get_startup_tags_def)

text \<open>The media part of the start-up tags is the end of the media history, when no GOP was cut.\<close>

lemma startup_body_suffix:
  assumes "\<forall>g \<in> set (gops_of ts). length g \<le> gop_limit cfg"
  shows "\<exists>pre. filter is_media ts = pre @ concat (cached_gops_of cfg ts)"
proof -
  let ?gs = "last_n (gop_count cfg + 1) (gops_of ts)"
  obtain old where old: "gops_of ts = old @ ?gs" using last_n_suffix by blast
  have "map (take (gop_limit cfg)) ?gs = ?gs"
    using assms set_last_n [of "gop_count cfg + 1" "gops_of ts"] by (intro map_idI) auto
  then have "concat (gops_of ts) = concat old @ concat (cached_gops_of cfg ts)"
    by (subst old) (simp add: cached_gops_of_last_n)
  moreover have "filter is_media ts
      = takeWhile (\<lambda>t. \<not> is_keyframe t) (filter is_media ts) @ concat (gops_of ts)"
    by (simp add: concat_gops_of)
  ultimately show ?thesis by (metis append.assoc)
qed

lemma received_map_Recv [simp]: "received (map Recv ts) = ts"
  by (induction ts) simp_all

lemma map_to_rx_Recv: "map RxOk ts = map to_rx (map Recv ts)"
  by (induction ts) simp_all

lemma http_session_count:
  "fp_client_count (ss_relay (http_flv_session wr c relay rx)) =
      fp_client_count relay
      + (case ss_end (http_flv_session wr c relay rx) of
           Serving \<Rightarrow> 1
         | IoError \<Rightarrow> if fp_client_count relay < fp_max_clients relay then 1 else 0
         | _ \<Rightarrow> 0)"
  "ss_end (http_flv_session wr c relay rx) = IoError \<longleftrightarrow>
      \<not> wr 0 \<or> \<not> wr 1 \<and> fp_client_count relay < fp_max_clients relay"
proof -
  let ?r = "relay\<lparr>fp_client_count := Suc (fp_client_count relay)\<rparr>"
  let ?h = "[ascii (flv_response_header c), build_flv_header]"
  obtain ws b where s: "flv_stream_to wr 2 ?h False ?r rx =
      \<lparr>ss_written = ?h @ ws, ss_relay = (if b then puller_remove_client else id)
          (puller_record_bytes_sent (word_of_nat (total_len ws)) ?r),
        ss_end = (if b then Served else Serving)\<rparr>" by (rule stream_to_cases)
  show "fp_client_count (ss_relay (http_flv_session wr c relay rx)) =
      fp_client_count relay
      + (case ss_end (http_flv_session wr c relay rx) of
           Serving \<Rightarrow> 1
         | IoError \<Rightarrow> if fp_client_count relay < fp_max_clients relay then 1 else 0
         | _ \<Rightarrow> 0)"
    by (auto simp: http_flv_session_def puller_add_client_def s Let_def puller_remove_client_def
        puller_record_bytes_sent_def)
  show "ss_end (http_flv_session wr c relay rx) = IoError \<longleftrightarrow>
      \<not> wr 0 \<or> \<not> wr 1 \<and> fp_client_count relay < fp_max_clients relay"
    by (auto simp: http_flv_session_def puller_add_client_def s Let_def)
qed

lemma ws_session_count:
  "fp_client_count (ss_relay (ws_flv_session wr pc relay rx)) =
      fp_client_count relay + (if ss_end (ws_flv_session wr pc relay rx) = Serving then 1 else 0)"
  "ss_end (ws_flv_session wr pc relay rx) \<noteq> IoError"
proof -
  let ?r = "relay\<lparr>fp_client_count := Suc (fp_client_count relay)\<rparr>"
  obtain vs d where t: "flv_stream_to wr (Suc 0) [build_flv_header] pc ?r rx =
      \<lparr>ss_written = [build_flv_header] @ vs, ss_relay = (if d then puller_remove_client else id)
          (puller_record_bytes_sent (word_of_nat (total_len vs)) ?r),
        ss_end = (if d then Served else Serving)\<rparr>" by (rule stream_to_cases)
  show "fp_client_count (ss_relay (ws_flv_session wr pc relay rx)) =
      fp_client_count relay + (if ss_end (ws_flv_session wr pc relay rx) = Serving then 1 else 0)"
    by (auto simp: ws_flv_session_def puller_add_client_def t puller_remove_client_def
        puller_record_bytes_sent_def)
  show "ss_end (ws_flv_session wr pc relay rx) \<noteq> IoError"
    by (auto simp: ws_flv_session_def puller_add_client_def t)
qed

section \<open>Properties\<close>

text \<open>
  What a viewer receives while its writes succeed: the response header, the FLV
  header, the start-up tags in one buffer, then a subsequence \<open>ts\<close> of the broadcast tags.
  Every metadata tag, sequence header and keyframe that reaches the subscription is in
  \<open>ts\<close>, and without lag \<open>ts\<close> is everything.
\<close>

theorem viewer_receives:
  assumes "\<And>i. wr i" and "fp_client_count relay < fp_max_clients relay"
  shows "\<exists>ts. ss_written (http_flv_session wr c relay (map to_rx es)) =
        [ascii (flv_response_header c), build_flv_header]
        @ (if puller_get_startup_tags relay = [] then [] else [startup_buffer (puller_get_startup_tags relay)])
        @ map build_flv_tag_wire ts
      \<and> subseq ts (received es)
      \<and> filter (\<lambda>t. get_packet_priority t = High) ts = filter (\<lambda>t. get_packet_priority t = High) (received es)
      \<and> ((\<exists>us. es = map Recv us) \<longrightarrow> ts = received es)
      \<and> ss_end (http_flv_session wr c relay (map to_rx es)) = Serving"
proof (intro exI conjI impI)
  let ?b = tracker_with_default_policy
  show "ss_written (http_flv_session wr c relay (map to_rx es)) =
      [ascii (flv_response_header c), build_flv_header]
      @ (if puller_get_startup_tags relay = [] then [] else [startup_buffer (puller_get_startup_tags relay)])
      @ map build_flv_tag_wire (flv_deliver ?b es)"
    by (simp add: http_session_admitted [OF assms] stream_to_delivers(1) [OF assms(1)])
  show "ss_end (http_flv_session wr c relay (map to_rx es)) = Serving"
    by (simp add: http_session_admitted [OF assms] stream_to_delivers(2) [OF assms(1)])
  show "subseq (flv_deliver ?b es) (received es)" by (rule tracker.delivered_subseq)
  show "filter (\<lambda>t. get_packet_priority t = High) (flv_deliver ?b es)
      = filter (\<lambda>t. get_packet_priority t = High) (received es)"
    by (rule tracker.essential_delivered)
  assume "\<exists>us. es = map Recv us"
  then obtain us where "es = map Recv us" ..
  then show "flv_deliver ?b es = received es"
    using tracker.calm_delivers_all [of ?b us]
    by (simp add: tracker_with_default_policy_def tracker_new_def)
qed

theorem viewer_receives_witness:
  "ss_written (http_flv_session (\<lambda>_. True) True (join_relay 3 [])
     (map to_rx [Recv \<lparr>tag_type = Audio, timestamp_ms = 7, tag_data = [0xAF, 1], tag_origin_ts = 0\<rparr>]))
   = [ascii (flv_response_header True), build_flv_header,
      build_flv_tag_wire \<lparr>tag_type = Audio, timestamp_ms = 7, tag_data = [0xAF, 1], tag_origin_ts = 0\<rparr>]"
proof -
  let ?t = "\<lparr>tag_type = Audio, timestamp_ms = 7, tag_data = [0xAF, 1], tag_origin_ts = 0\<rparr>"
  have "fp_client_count (join_relay 3 []) < fp_max_clients (join_relay 3 [])"
    "puller_get_startup_tags (join_relay 3 []) = []"
    by (simp_all add: join_relay_def puller_with_backup_def puller_get_startup_tags_def gop_run_def
        gop_cache_new_def get_startup_tags_def)
  note adm = this
  obtain ts where "ss_written (http_flv_session (\<lambda>_. True) True (join_relay 3 []) (map to_rx [Recv ?t])) =
      [ascii (flv_response_header True), build_flv_header] @ map build_flv_tag_wire ts"
    "(\<exists>us. [Recv ?t] = map Recv us) \<longrightarrow> ts = received [Recv ?t]"
    using viewer_receives [OF TrueI adm(1), of True "[Recv ?t]"] unfolding adm(2) by auto
  moreover have "\<exists>us. [Recv ?t] = map Recv us" by (rule exI [of _ "[?t]"]) simp
  ultimately show ?thesis by simp
qed



text \<open>
  A gapless join. If nothing is broadcast between reading the start-up tags and
  subscribing, the viewer gets one contiguous end of the stream: the media tags of the
  start-up buffer are the last three GOPs broadcast so far (two complete ones and the
  current one, each from its keyframe), and every later tag follows.
\<close>

theorem join_is_gapless:
  assumes "\<And>k. wr k" and "\<forall>g \<in> set (gops_of (take i hist)). length g \<le> 4096"
  shows "\<exists>headers pre.
      concat (ss_written (join_session wr hist i i)) =
        ascii (flv_response_header False) @ build_flv_header
        @ startup_buffer (headers @ concat (last_n 3 (gops_of (take i hist))) @ drop i hist)
      \<and> headers = opt_list (last_opt (filter is_script (take i hist)))
          @ opt_list (last_opt (filter is_aac_header (take i hist)))
          @ opt_list (last_opt (filter is_video_header (take i hist)))
      \<and> filter is_media (take i hist) = pre @ concat (last_n 3 (gops_of (take i hist)))
      \<and> (\<forall>g \<in> set (last_n 3 (gops_of (take i hist))). g \<noteq> [] \<and> is_keyframe (hd g))"
proof -
  let ?ts = "take i hist" and ?cfg = gop_cache_config_default
  let ?relay = "join_relay 1 ?ts"
  have adm: "fp_client_count ?relay < fp_max_clients ?relay"
    by (simp add: join_relay_def puller_with_backup_def)
  have st: "puller_get_startup_tags ?relay = get_startup_tags (gop_run ?cfg ?ts)"
    unfolding join_relay_def puller_get_startup_tags_def by simp
  have cfg: "gop_limit ?cfg = 4096" "gop_count ?cfg + 1 = 3"
    by (simp_all add: gop_limit_def gop_cache_config_default_def)
  have body: "cached_gops_of ?cfg ?ts = last_n 3 (gops_of ?ts)"
    unfolding cached_gops_of_last_n cfg using assms(2) set_last_n [of 3 "gops_of ?ts"]
    by (intro map_idI) auto
  with startup_body_suffix [of ?ts ?cfg] assms(2) obtain pre where
    pre: "filter is_media ?ts = pre @ concat (last_n 3 (gops_of ?ts))" by (auto simp: cfg)
  have keyed: "\<forall>g \<in> set (last_n 3 (gops_of ?ts)). g \<noteq> [] \<and> is_keyframe (hd g)"
    using gops_of_shape [of _ ?ts] set_last_n [of 3 "gops_of ?ts"] by (meson subsetD)
  have all: "flv_deliver tracker_with_default_policy (map Recv (drop i hist)) = drop i hist"
    by (rule tracker.calm_delivers_all) (simp add: tracker_with_default_policy_def tracker_new_def)
  have "concat (ss_written (join_session wr hist i i)) = ascii (flv_response_header False)
      @ build_flv_header @ startup_buffer (get_startup_tags (gop_run ?cfg ?ts) @ drop i hist)"
    unfolding join_session_def http_session_admitted [OF assms(1) adm] map_to_rx_Recv
      stream_to_delivers(1) [OF assms(1)] all
    using st by (simp add: startup_buffer_def)
  with pre keyed show ?thesis
    by (intro exI [of _ "opt_list (last_opt (filter is_script ?ts))
          @ opt_list (last_opt (filter is_aac_header ?ts)) @ opt_list (last_opt (filter is_video_header ?ts))"]
        exI [of _ pre])
      (simp add: startup_tags_repr [OF gop_run_repr] body)
qed

text \<open>A keyframe before the join, a P frame after it.\<close>

theorem join_is_gapless_witness:
  "\<exists>headers. concat (ss_written (join_session (\<lambda>_. True)
      [\<lparr>tag_type = Video, timestamp_ms = 0, tag_data = [0x17, 1, 7], tag_origin_ts = 0\<rparr>,
       \<lparr>tag_type = Video, timestamp_ms = 40, tag_data = [0x27, 1, 8], tag_origin_ts = 0\<rparr>] 1 1))
    = ascii (flv_response_header False) @ build_flv_header @ startup_buffer (headers @
      [\<lparr>tag_type = Video, timestamp_ms = 0, tag_data = [0x17, 1, 7], tag_origin_ts = 0\<rparr>,
       \<lparr>tag_type = Video, timestamp_ms = 40, tag_data = [0x27, 1, 8], tag_origin_ts = 0\<rparr>])"
proof -
  let ?h = "[\<lparr>tag_type = Video, timestamp_ms = 0, tag_data = [0x17, 1, 7], tag_origin_ts = 0\<rparr>,
       \<lparr>tag_type = Video, timestamp_ms = 40, tag_data = [0x27, 1, 8], tag_origin_ts = 0\<rparr>]"
  have g: "gops_of (take 1 ?h) = [[hd ?h]]" by code_simp
  then have "\<forall>g \<in> set (gops_of (take 1 ?h)). length g \<le> 4096" by simp
  moreover have "concat (last_n 3 [[hd ?h]]) @ drop 1 ?h = ?h" by (simp add: last_n_def)
  ultimately show ?thesis using join_is_gapless [of "\<lambda>_. True" 1 ?h, OF TrueI] unfolding g by metis
qed

text \<open>
  But the join is racy. The start-up tags are read before the subscription is made,
  so whatever is broadcast in between is in neither: the session is the same for every
  content of that gap, a keyframe that starts a new GOP included.
\<close>

theorem join_gap_is_invisible:
  "join_session wr (pre @ gap @ post) (length pre) (length pre + length gap)
     = join_session wr (pre @ gap' @ post) (length pre) (length pre + length gap')"
  by (simp add: join_session_def)

text \<open>
  Slots and errors. Whatever the socket, the client and the stream do: a WebSocket
  connection that ends has given its slot back; an HTTP-FLV connection does so too when
  it is refused or served, but an error while writing the response header or the FLV
  header (the two writes behind \<open>?\<close>) ends it with its slot still taken.
\<close>

theorem session_slots:
  "fp_client_count (ss_relay (http_flv_session wr c relay rx)) =
      fp_client_count relay
      + (case ss_end (http_flv_session wr c relay rx) of
           Serving \<Rightarrow> 1
         | IoError \<Rightarrow> if fp_client_count relay < fp_max_clients relay then 1 else 0
         | _ \<Rightarrow> 0)
    \<and> fp_client_count (ss_relay (ws_flv_session wr pc relay rx)) =
      fp_client_count relay + (if ss_end (ws_flv_session wr pc relay rx) = Serving then 1 else 0)
    \<and> ss_end (ws_flv_session wr pc relay rx) \<noteq> IoError
    \<and> (ss_end (http_flv_session wr c relay rx) = IoError \<longleftrightarrow>
        \<not> wr 0 \<or> \<not> wr 1 \<and> fp_client_count relay < fp_max_clients relay)"
  by (intro conjI http_session_count ws_session_count)

text \<open>A viewer that disconnects between the response header and the FLV header.\<close>

theorem session_slots_witness:
  "ss_end (http_flv_session (\<lambda>k. k < 1) False (join_relay 3 []) [RxClosed]) = IoError
    \<and> fp_client_count (ss_relay (http_flv_session (\<lambda>k. k < 1) False (join_relay 3 []) [RxClosed])) = 1"
proof -
  have adm: "fp_client_count (join_relay 3 []) = 0" "fp_max_clients (join_relay 3 []) = 3"
    by (simp_all add: join_relay_def puller_with_backup_def)
  note l = session_slots [of "\<lambda>k. k < 1" False "join_relay 3 []" "[RxClosed]" False]
  from l have e: "ss_end (http_flv_session (\<lambda>k. k < 1) False (join_relay 3 []) [RxClosed]) = IoError"
    by (simp add: adm)
  with l show ?thesis by (simp add: adm)
qed

text \<open>
  Bandwidth accounting. A connection that got past the headers adds to the relay's
  byte counter exactly the bytes it wrote after them (start-up buffer and tags, dropped
  packets not counted), whatever the lag, the drops and the moment it ends.
\<close>

theorem session_bytes_accounted:
  assumes "wr 0" "wr 1" and "fp_client_count relay < fp_max_clients relay"
  shows "\<exists>ws. ss_written (http_flv_session wr c relay rx) =
        [ascii (flv_response_header c), build_flv_header] @ ws
      \<and> fp_bytes_sent (ss_relay (http_flv_session wr c relay rx)) =
        fp_bytes_sent relay + word_of_nat (sum_list (map length ws))"
proof -
  let ?r = "relay\<lparr>fp_client_count := Suc (fp_client_count relay)\<rparr>"
  let ?h = "[ascii (flv_response_header c), build_flv_header]"
  obtain ws b where s: "flv_stream_to wr 2 ?h False ?r rx =
      \<lparr>ss_written = ?h @ ws, ss_relay = (if b then puller_remove_client else id)
          (puller_record_bytes_sent (word_of_nat (total_len ws)) ?r),
        ss_end = (if b then Served else Serving)\<rparr>" by (rule stream_to_cases)
  with assms show ?thesis
    by (intro exI [of _ ws])
      (simp add: http_flv_session_def puller_add_client_def Let_def puller_remove_client_def
        puller_record_bytes_sent_def total_len_def)
qed

theorem session_bytes_accounted_witness:
  "\<exists>ws. ss_written (http_flv_session (\<lambda>k. k < 2) False (join_relay 3 []) [RxClosed]) =
        [ascii (flv_response_header False), build_flv_header] @ ws
      \<and> fp_bytes_sent (ss_relay (http_flv_session (\<lambda>k. k < 2) False (join_relay 3 []) [RxClosed])) =
        word_of_nat (sum_list (map length ws))"
proof -
  have "fp_client_count (join_relay 3 []) < fp_max_clients (join_relay 3 [])"
    "fp_bytes_sent (join_relay 3 []) = 0"
    by (simp_all add: join_relay_def puller_with_backup_def)
  with session_bytes_accounted [of "\<lambda>k. k < 2" "join_relay 3 []" False "[RxClosed]"] show ?thesis by simp
qed

end
