(* ===== verification/Encrypted_Session.thy ===== *)
theory Encrypted_Session
  imports Stream_Relay Flv_Session
begin

text \<open>
  A viewer of the encrypted mode, \<open>handle_ws_encrypted_mode\<close> of agent-rust/src/main.rs,
  and what reaches it of the encrypted broadcast. As for the FLV sessions, the socket is
  an oracle \<open>wr\<close> for the writes and the subscription is the list of what \<open>rx.recv()\<close>
  returns. The viewer's side is the agent's own frame decoder and stream decryptor.
\<close>

section \<open>The connection\<close>

datatype chunk_rx = ChunkOk bytes | ChunkLagged u64 | ChunkClosed

text \<open>\<open>while let Ok(data) = rx.recv().await\<close>: a lag ends the loop as a closed channel does.\<close>

fun enc_send_loop :: "(nat \<Rightarrow> bool) \<Rightarrow> nat \<Rightarrow> stream_relay \<Rightarrow> chunk_rx list
    \<Rightarrow> bytes list \<times> stream_relay \<times> bool" where
  "enc_send_loop wr k relay [] = ([], relay, False)"
| "enc_send_loop wr k relay (ChunkOk d # rx) =
     (if wr k then
        (case enc_send_loop wr (k + 1) (relay_record_bytes_sent (word_of_nat (length d)) relay) rx of
           (ws, r, fin) \<Rightarrow> (d # ws, r, fin))
      else ([], relay, True))"
| "enc_send_loop wr k relay (ChunkLagged n # rx) = ([], relay, True)"
| "enc_send_loop wr k relay (ChunkClosed # rx) = ([], relay, True)"

record enc_session =
  es_written :: "bytes list"
  es_relay :: stream_relay
  es_end :: session_end

definition initial_playlist :: "stream_relay \<Rightarrow> bytes list" where
  "initial_playlist relay = (case latest_m3u8 relay of
     Some d \<Rightarrow> [frame_encode (frame_new Data 0 d)] | None \<Rightarrow> [])"

text \<open>The result of sending the playlist is ignored; its bytes are not counted.\<close>

definition ws_encrypted_session :: "(nat \<Rightarrow> bool) \<Rightarrow> bool \<Rightarrow> stream_relay \<Rightarrow> chunk_rx list \<Rightarrow> enc_session" where
  "ws_encrypted_session wr peer_closed relay rx =
     (case relay_add_client relay of
        (False, r) \<Rightarrow>
          \<lparr>es_written = (if wr 0 then [ascii ws_full_message] else []), es_relay = r, es_end = Refused\<rparr>
      | (True, r) \<Rightarrow>
          (let first = initial_playlist r;
               written = (if wr 0 then first else []);
               (ws, r2, fin) = enc_send_loop wr (length first) r rx
           in if fin \<or> peer_closed
              then \<lparr>es_written = written @ ws, es_relay = relay_remove_client r2, es_end = Served\<rparr>
              else \<lparr>es_written = written @ ws, es_relay = r2, es_end = Serving\<rparr>))"

section \<open>The viewer\<close>

text \<open>Each message is decoded and its payload decrypted in order; \<open>None\<close> is a message lost.\<close>

fun view_messages :: "ring_lib \<Rightarrow> stream_cipher \<Rightarrow> bytes list \<Rightarrow> bytes option list" where
  "view_messages R s [] = []"
| "view_messages R s (m # ms) =
     (case frame_decode m of
        Inr (Some (f, n)) \<Rightarrow>
          (case decrypt_chunk R (fr_payload f) s of
             (Inr p, s') \<Rightarrow> Some p # view_messages R s' ms
           | (Inl e, s') \<Rightarrow> None # view_messages R s' ms)
      | _ \<Rightarrow> None # view_messages R s ms)"

section \<open>The send loop\<close>

fun leading_chunks :: "chunk_rx list \<Rightarrow> bytes list" where
  "leading_chunks (ChunkOk d # rx) = d # leading_chunks rx"
| "leading_chunks _ = []"

fun all_chunks :: "chunk_rx list \<Rightarrow> bool" where
  "all_chunks [] = True"
| "all_chunks (ChunkOk d # rx) = all_chunks rx"
| "all_chunks _ = False"

lemma enc_loop_cases:
  obtains ws fin where "enc_send_loop wr k relay rx =
    (ws, relay_record_bytes_sent (word_of_nat (total_len ws)) relay, fin)" "prefix ws (leading_chunks rx)"
    "(\<forall>i. wr i) \<longrightarrow> ws = leading_chunks rx \<and> (fin \<longleftrightarrow> \<not> all_chunks rx)"
proof -
  have "\<exists>ws fin. enc_send_loop wr k relay rx =
      (ws, relay_record_bytes_sent (word_of_nat (total_len ws)) relay, fin)
      \<and> prefix ws (leading_chunks rx) \<and> ((\<forall>i. wr i) \<longrightarrow> ws = leading_chunks rx \<and> (fin \<longleftrightarrow> \<not> all_chunks rx))"
  proof (induction wr k relay rx rule: enc_send_loop.induct)
    case (2 wr k relay d rx)
    show ?case
    proof (cases "wr k")
      case True
      from "2.IH" [OF True] obtain ws fin where
        "enc_send_loop wr (k + 1) (relay_record_bytes_sent (word_of_nat (length d)) relay) rx =
          (ws, relay_record_bytes_sent (word_of_nat (total_len ws))
            (relay_record_bytes_sent (word_of_nat (length d)) relay), fin)"
        "prefix ws (leading_chunks rx)"
        "(\<forall>i. wr i) \<longrightarrow> ws = leading_chunks rx \<and> (fin \<longleftrightarrow> \<not> all_chunks rx)" by blast
      with True show ?thesis
        by (intro exI [of _ "d # ws"] exI [of _ fin]) (simp add: relay_record_bytes_sent_def ac_simps)
    next
      case False
      then show ?thesis by (intro exI [of _ "[]"] exI [of _ True]) (auto simp: relay_record_bytes_sent_def)
    qed
  qed (auto simp: relay_record_bytes_sent_def)
  then show ?thesis using that by blast
qed

lemma latest_m3u8_count [simp]: "latest_m3u8 (r\<lparr>sr_client_count := n\<rparr>) = latest_m3u8 r"
  by (simp add: latest_m3u8_def)

lemma initial_playlist_count [simp]: "initial_playlist (r\<lparr>sr_client_count := n\<rparr>) = initial_playlist r"
  by (simp add: initial_playlist_def)

section \<open>What a viewer can read of a stream of chunks\<close>

definition carries_chunks :: "bytes list \<Rightarrow> bytes list \<Rightarrow> bool" where
  "carries_chunks ms cs \<longleftrightarrow>
     list_all2 (\<lambda>m c. \<exists>q ts. m = frame_encode (frame_new_with_ts Data q ts c)) ms cs"

lemma frames_carry_chunks: "frames_of_chunks ms cs \<Longrightarrow> carries_chunks ms cs"
  by (simp add: frames_of_chunks_def carries_chunks_def list_all2_conv_all_nth) blast

lemma carries_chunks_drop: "carries_chunks ms cs \<Longrightarrow> carries_chunks (drop k ms) (drop k cs)"
  by (simp add: carries_chunks_def list_all2_dropI)

lemma carries_chunks_append: "carries_chunks ms cs \<Longrightarrow> carries_chunks ms' cs' \<Longrightarrow>
    carries_chunks (ms @ ms') (cs @ cs')"
  by (simp add: carries_chunks_def list_all2_appendI)

lemma playlist_carries: "carries_chunks [frame_encode (frame_new Data 0 d)] [d]"
  by (auto simp: carries_chunks_def frame_new_def frame_new_with_ts_def)

text \<open>Within the frame limit the viewer gets what the decryptor gives.\<close>

definition opened :: "(crypto_error + bytes) \<Rightarrow> bytes option" where
  "opened r = (case r of Inr p \<Rightarrow> Some p | Inl _ \<Rightarrow> None)"

lemma opened_simps [simp]: "opened (Inr p) = Some p" "opened (Inl e) = None"
  by (simp_all add: opened_def)

lemma view_chunk:
  "length c \<le> MAX_FRAME_SIZE \<Longrightarrow> view_messages R s (frame_encode (frame_new_with_ts Data q ts c) # ms) =
     opened (fst (decrypt_chunk R c s)) # view_messages R (snd (decrypt_chunk R c s)) ms"
  using decode_encode [of "frame_new_with_ts Data q ts c" "[]"]
  by (simp add: frame_new_with_ts_def protocol_consts opened_def split: prod.split sum.split)

lemma view_large_chunk:
  "MAX_FRAME_SIZE < length c \<Longrightarrow> length c < 2 ^ 32 \<Longrightarrow>
   view_messages R s (frame_encode (frame_new_with_ts Data q ts c) # ms) = None # view_messages R s ms"
  using decode_encode [of "frame_new_with_ts Data q ts c" "[]"]
  by (simp add: frame_new_with_ts_def protocol_consts)

lemma view_chunks:
  "carries_chunks ms cs \<Longrightarrow> \<forall>c \<in> set cs. length c \<le> MAX_FRAME_SIZE \<Longrightarrow>
   view_messages R s (ms @ ms') =
     map opened (fst (decrypt_all R cs s)) @ view_messages R (snd (decrypt_all R cs s)) ms'"
proof (induction cs arbitrary: ms s)
  case Nil
  then show ?case by (simp add: carries_chunks_def)
next
  case (Cons c cs)
  then obtain m ns q ts where m: "ms = m # ns" "m = frame_encode (frame_new_with_ts Data q ts c)"
    "carries_chunks ns cs" by (auto simp: carries_chunks_def list_all2_Cons2)
  with Cons.IH [OF m(3)] Cons.prems(2) show ?case
    by (simp add: view_chunk case_prod_unfold del: view_messages.simps(2))
qed

text \<open>A stream cut behind its first \<open>k\<close> chunks.\<close>

lemma encrypt_all_drop:
  "encrypt_all R ps s = (map Inr cs, s') \<Longrightarrow> k \<le> length cs \<Longrightarrow>
   encrypt_all R (drop k ps) (s\<lparr>sc_seq := sc_seq s + word_of_nat k\<rparr>) = (map Inr (drop k cs), s')"
proof (induction k arbitrary: ps s cs)
  case (Suc k)
  obtain nonce pt ps' where p: "ps = (nonce, pt) # ps'"
    using Suc.prems by (cases ps) auto
  from Suc.prems(1) [unfolded p] obtain c cs' s1 where c: "cs = c # cs'"
    "encrypt_chunk R nonce pt s = (Inr c, s1)" "encrypt_all R ps' s1 = (map Inr cs', s')"
    by (rule encrypt_all_Cons)
  have "s1 = s\<lparr>sc_seq := sc_seq s + 1\<rparr>" using encrypt_chunk_state [of R nonce pt s] c(2) by simp
  with Suc.IH [OF c(3)] Suc.prems(2) show ?case by (simp add: p c(1) ac_simps)
qed simp

lemma encrypt_all_take:
  "encrypt_all R ps s = (map Inr cs, s') \<Longrightarrow> k \<le> length cs \<Longrightarrow>
   encrypt_all R (take k ps) s = (map Inr (take k cs), s\<lparr>sc_seq := sc_seq s + word_of_nat k\<rparr>)"
proof (induction k arbitrary: ps s cs)
  case (Suc k)
  obtain nonce pt ps' where p: "ps = (nonce, pt) # ps'"
    using Suc.prems by (cases ps) auto
  from Suc.prems(1) [unfolded p] obtain c cs' s1 where c: "cs = c # cs'"
    "encrypt_chunk R nonce pt s = (Inr c, s1)" "encrypt_all R ps' s1 = (map Inr cs', s')"
    by (rule encrypt_all_Cons)
  have "s1 = s\<lparr>sc_seq := sc_seq s + 1\<rparr>" using encrypt_chunk_state [of R nonce pt s] c(2) by simp
  with Suc.IH [OF c(3)] Suc.prems(2) c(2) show ?case by (simp add: p c(1) ac_simps)
qed simp

lemma nonces_drop: "nonces_ok ps \<Longrightarrow> nonces_ok (drop k ps)" "nonces_ok ps \<Longrightarrow> nonces_ok (take k ps)"
  unfolding nonces_ok_def by (meson in_set_dropD in_set_takeD)+

text \<open>A viewer out of step with the rest of a stream reads nothing of it.\<close>

lemma view_out_of_step:
  assumes R: "ring_sound R" "ring_authentic R ki" and ps: "nonces_ok ps"
    "encrypt_all R ps (stream_cipher_new ki) = (map Inr cs, s')"
    and ms: "carries_chunks ms (drop k cs)" "\<forall>c \<in> set (drop k cs). length c \<le> MAX_FRAME_SIZE"
    and k: "k \<le> length cs" and t: "sc_key_info t = ki" "sc_seq t \<noteq> word_of_nat k"
  shows "view_messages R t ms = replicate (length ms) None"
proof -
  have len: "length (drop k ps) = length (drop k cs)"
    using arg_cong [OF encrypt_all_lengths [OF R(1) ps], of length] by simp
  have "fst (decrypt_all R (drop k cs) t) = replicate (length (drop k ps)) (Inl DecryptFailed)"
    by (rule decrypt_all_out_of_step [OF R(1) _ nonces_drop(1) [OF ps(1)] encrypt_all_drop [OF ps(2) k]])
      (use R(2) t in \<open>simp_all add: stream_cipher_new_def\<close>)
  with view_chunks [OF ms, of R t "[]"] len ms(1) show ?thesis
    by (simp add: carries_chunks_def list_all2_lengthD)
qed

section \<open>Properties\<close>

text \<open>
  An encrypted connection delivers without gaps. While its writes succeed, the viewer
  gets the cached playlist, if there is one, and then the broadcast chunks one by one up to
  the first lag, which ends the connection (FLV viewers survive a lag). Whatever the
  writes do, only chunks of that leading part are written, in order; the connection's slot
  is held while it serves and given back when it ends; and exactly the chunks written are
  counted, the playlist is not.
\<close>

theorem encrypted_session_delivers:
  assumes "sr_client_count relay < sr_max_clients relay"
  shows "\<exists>ws. prefix ws (leading_chunks rx)
    \<and> es_written (ws_encrypted_session wr pc relay rx) = (if wr 0 then initial_playlist relay else []) @ ws
    \<and> sr_bytes_sent (es_relay (ws_encrypted_session wr pc relay rx)) =
        sr_bytes_sent relay + word_of_nat (sum_list (map length ws))
    \<and> sr_client_count (es_relay (ws_encrypted_session wr pc relay rx)) = sr_client_count relay
        + (if es_end (ws_encrypted_session wr pc relay rx) = Serving then 1 else 0)
    \<and> ((\<forall>i. wr i) \<longrightarrow> ws = leading_chunks rx
        \<and> es_end (ws_encrypted_session wr pc relay rx) = (if all_chunks rx \<and> \<not> pc then Serving else Served))"
proof -
  let ?r = "relay\<lparr>sr_client_count := sr_client_count relay + 1\<rparr>"
  obtain ws fin where l: "enc_send_loop wr (length (initial_playlist ?r)) ?r rx =
      (ws, relay_record_bytes_sent (word_of_nat (total_len ws)) ?r, fin)" "prefix ws (leading_chunks rx)"
    "(\<forall>i. wr i) \<longrightarrow> ws = leading_chunks rx \<and> (fin \<longleftrightarrow> \<not> all_chunks rx)"
    by (rule enc_loop_cases)
  have "ws_encrypted_session wr pc relay rx =
    \<lparr>es_written = (if wr 0 then initial_playlist relay else []) @ ws,
     es_relay = (if fin \<or> pc then relay_remove_client else id)
       (relay_record_bytes_sent (word_of_nat (total_len ws)) ?r),
     es_end = (if fin \<or> pc then Served else Serving)\<rparr>"
    using assms l(1) by (simp add: ws_encrypted_session_def relay_add_client_def Let_def)
  with l(2,3) show ?thesis
    by (intro exI [of _ ws])
      (auto simp: relay_record_bytes_sent_def relay_remove_client_def total_len_def)
qed

theorem encrypted_session_delivers_witness:
  "es_end (ws_encrypted_session (\<lambda>_. True) False (stream_relay_new [] [] toy_key 5 10)
      [ChunkOk [1], ChunkLagged 3, ChunkOk [2]]) = Served
   \<and> es_written (ws_encrypted_session (\<lambda>_. True) False (stream_relay_new [] [] toy_key 5 10)
      [ChunkOk [1], ChunkLagged 3, ChunkOk [2]]) = [[1]]"
proof -
  let ?r = "stream_relay_new [] [] toy_key 5 10"
  have "initial_playlist ?r = []" by (simp add: initial_playlist_def latest_m3u8_def stream_relay_new_def)
  moreover have "sr_client_count ?r < sr_max_clients ?r" by (simp add: stream_relay_new_def)
  note encrypted_session_delivers [OF this, of "[ChunkOk [1], ChunkLagged 3, ChunkOk [2]]" "\<lambda>_. True" False]
  ultimately show ?thesis by auto
qed

text \<open>
  What an encrypted viewer can read depends on when it joined. Take any run of the
  relay whose chunks fit the frame limit. A viewer that subscribed before the first chunk
  reads everything, and everything it reads was served by the origin. One that joined
  after \<open>k\<close> chunks reads nothing at all of the broadcast (up to wrapping of \<open>k\<close>), except
  when the playlist it got at first stands in for the one chunk it missed (\<open>k\<close> is 1).
\<close>

theorem encrypted_viewer_must_join_first:
  assumes "ring_sound R" "ring_seals R" "ring_authentic R ki" "\<forall>env \<in> set envs. env_ok env"
    and "\<forall>env \<in> set envs. \<forall>d \<in> env_data env. length d + 28 \<le> MAX_FRAME_SIZE"
    and "pull_turns R h pick envs (pull_locals_new seed, stream_relay_new key url ki mc ms) = (l, r)"
    and "k \<le> length (sr_broadcast r)"
  shows "(\<exists>plains. view_messages R (stream_cipher_new ki) (sr_broadcast r) = map Some plains
        \<and> set plains \<subseteq> \<Union> (env_data ` set envs))
    \<and> (word_of_nat k \<noteq> (0 :: u32) \<longrightarrow>
        view_messages R (stream_cipher_new ki) (drop k (sr_broadcast r)) =
          replicate (length (sr_broadcast r) - k) None)
    \<and> (word_of_nat k \<noteq> (1 :: u32) \<longrightarrow> latest_m3u8 r = Some d \<longrightarrow>
        tl (view_messages R (stream_cipher_new ki)
            (frame_encode (frame_new Data 0 d) # drop k (sr_broadcast r))) =
          replicate (length (sr_broadcast r) - k) None)"
proof -
  obtain ps cs where s: "relay_sync R ki (\<Union> (env_data ` set envs)) (pl_seq_counter l) r ps cs"
    using sync_run [OF assms(1,2,4,6)] .
  then have ps: "nonces_ok ps" "encrypt_all R ps (stream_cipher_new ki) = (map Inr cs, sr_encryptor r)"
    "snd ` set ps \<subseteq> \<Union> (env_data ` set envs)" and ms: "carries_chunks (sr_broadcast r) cs"
    by (auto simp: relay_sync_def frames_carry_chunks)
  note len = encrypt_all_lengths [OF assms(1) ps(1,2)]
  have small: "length c \<le> MAX_FRAME_SIZE" "28 \<le> length c" if "c \<in> set cs" for c
  proof -
    have "length c \<in> set (map (\<lambda>p. length (snd p) + 28) ps)" using that len by (metis image_eqI set_map)
    then obtain p where p: "p \<in> set ps" "length c = length (snd p) + 28" by auto
    with ps(3) have "snd p \<in> \<Union> (env_data ` set envs)" by blast
    with assms(5) p(2) show "length c \<le> MAX_FRAME_SIZE" "28 \<le> length c" by auto
  qed
  have tail: "\<forall>c \<in> set (drop k cs). length c \<le> MAX_FRAME_SIZE" for k
    using small by (meson in_set_dropD)
  have n: "length (sr_broadcast r) = length cs" using ms by (simp add: carries_chunks_def list_all2_lengthD)
  note out = view_out_of_step [OF assms(1,3) ps(1,2) carries_chunks_drop [OF ms] tail assms(7) [unfolded n]]
  have "view_messages R (stream_cipher_new ki) (sr_broadcast r) = map Some (map snd ps)"
    using view_chunks [OF ms, of R "stream_cipher_new ki" "[]"] decrypt_all_in_step [OF assms(1) ps(1,2)]
      small by simp
  moreover have "view_messages R (stream_cipher_new ki) (drop k (sr_broadcast r)) =
      replicate (length (sr_broadcast r) - k) None" if "word_of_nat k \<noteq> (0 :: u32)"
    using out [of "stream_cipher_new ki"] that by (simp add: stream_cipher_new_def)
  moreover have "tl (view_messages R (stream_cipher_new ki)
      (frame_encode (frame_new Data 0 d) # drop k (sr_broadcast r))) =
      replicate (length (sr_broadcast r) - k) None"
    if k: "word_of_nat k \<noteq> (1 :: u32)" and d: "latest_m3u8 r = Some d"
  proof -
    have "d \<in> set cs" using s d unfolding relay_sync_def latest_m3u8_def
      by (auto simp: find_Some_iff) (metis length_rev nth_mem set_rev)
    note dl = small [OF this]
    have "snd (decrypt_chunk R d (stream_cipher_new ki)) = (stream_cipher_new ki)\<lparr>sc_seq := 1\<rparr>"
      using dl by (simp add: decrypt_chunk_state stream_cipher_new_def)
    with view_chunk [OF dl(1), of R "stream_cipher_new ki" 0 0 "drop k (sr_broadcast r)"]
      out [of "(stream_cipher_new ki)\<lparr>sc_seq := 1\<rparr>"] k
    show ?thesis by (simp add: frame_new_def frame_new_with_ts_def stream_cipher_new_def)
  qed
  ultimately show ?thesis using ps(3) by (metis set_map)
qed

theorem encrypted_viewer_must_join_first_witness:
  "\<exists>l r. pull_turns toy_ring toy_hash toy_pick [toy_env [], toy_env [10]] toy_start = (l, r)
     \<and> length (sr_broadcast r) = 2
     \<and> view_messages toy_ring (stream_cipher_new toy_key) (drop 1 (sr_broadcast r)) = [None]"
proof -
  obtain l r where r: "pull_turns toy_ring toy_hash toy_pick [toy_env [], toy_env [10]] toy_start = (l, r)"
    "length (sr_broadcast r) = 2" using toy_run by blast
  have ok: "\<forall>env \<in> set [toy_env [], toy_env [10]]. env_ok env" by (simp add: toy_env_ok)
  have small: "\<forall>env \<in> set [toy_env [], toy_env [10]]. \<forall>d \<in> env_data env. length d + 28 \<le> MAX_FRAME_SIZE"
    by (auto simp: env_data_def toy_env_def fetch_url_def MAX_FRAME_SIZE_def)
  have "1 \<le> length (sr_broadcast r)" using r(2) by simp
  from encrypted_viewer_must_join_first [OF toy_sound toy_seals toy_authentic ok small r(1) this] r
  show ?thesis by (intro exI [of _ l] exI [of _ r]) simp
qed

text \<open>
  One large segment ends the stream for its viewers. The encoder broadcasts a chunk of
  more than 1 MiB as any other, but the frame decoder refuses it; the decryptor then stays
  one chunk behind the encryptor, so a viewer that read everything up to that chunk reads
  nothing any more.
\<close>

theorem large_segment_ends_stream:
  assumes "ring_sound R" "ring_authentic R ki" "nonces_ok ps"
    and "encrypt_all R ps (stream_cipher_new ki) = (map Inr cs, s')" and "frames_of_chunks ms cs"
    and "k < length cs" "MAX_FRAME_SIZE < length (cs ! k)" "length (cs ! k) < 2 ^ 32"
    and "\<forall>j < length cs. j \<noteq> k \<longrightarrow> length (cs ! j) \<le> MAX_FRAME_SIZE"
  shows "view_messages R (stream_cipher_new ki) ms =
    map (Some \<circ> snd) (take k ps) @ replicate (length cs - k) None"
proof -
  have len: "length ms = length cs" using assms(5) by (simp add: frames_of_chunks_def)
  have carry: "carries_chunks (take k ms) (take k cs)" "carries_chunks (drop (Suc k) ms) (drop (Suc k) cs)"
    using frames_carry_chunks [OF assms(5)] by (simp_all add: carries_chunks_def list_all2_takeI list_all2_dropI)
  have small: "\<forall>c \<in> set (take k cs). length c \<le> MAX_FRAME_SIZE"
    "\<forall>c \<in> set (drop (Suc k) cs). length c \<le> MAX_FRAME_SIZE"
    using assms(6,9) by (auto simp: in_set_conv_nth)
  obtain ts where m: "ms ! k = frame_encode (frame_new_with_ts Data (word_of_nat k) ts (cs ! k))"
    using assms(5,6) by (auto simp: frames_of_chunks_def)
  have ms: "ms = take k ms @ ms ! k # drop (Suc k) ms" using assms(6) len by (simp add: id_take_nth_drop)
  let ?t = "(stream_cipher_new ki)\<lparr>sc_seq := word_of_nat k\<rparr>"
  have dec: "decrypt_all R (take k cs) (stream_cipher_new ki) = (map (Inr \<circ> snd) (take k ps), ?t)"
    using decrypt_all_in_step [OF assms(1) nonces_drop(2) [OF assms(3)] encrypt_all_take [OF assms(4), of k]]
      assms(6) by (simp add: stream_cipher_new_def)
  have "view_messages R ?t (drop (Suc k) ms) = replicate (length (drop (Suc k) ms)) None"
    by (rule view_out_of_step [OF assms(1-4) carry(2) small(2)])
      (use assms(6) in \<open>simp_all add: stream_cipher_new_def\<close>)
  with assms(6) have "None # view_messages R ?t (drop (Suc k) ms) = replicate (length cs - k) None"
    by (simp add: len Suc_diff_Suc flip: replicate_Suc)
  moreover have "view_messages R (stream_cipher_new ki) ms =
      map (Some \<circ> snd) (take k ps) @ None # view_messages R ?t (drop (Suc k) ms)"
    by (subst ms) (simp add: view_chunks [OF carry(1) small(1)] dec m view_large_chunk [OF assms(7,8)]
        del: view_messages.simps(2))
  ultimately show ?thesis by simp
qed

theorem large_segment_ends_stream_witness:
  "\<exists>cs s'. encrypt_all toy_ring [(replicate 12 0, replicate 1048576 7), (replicate 12 0, [1])]
       (stream_cipher_new toy_key) = (map Inr cs, s')
     \<and> view_messages toy_ring (stream_cipher_new toy_key)
         [frame_encode (frame_new_with_ts Data 0 5 (cs ! 0)), frame_encode (frame_new_with_ts Data 1 6 (cs ! 1))]
       = [None, None]"
proof -
  let ?ps = "[(replicate 12 0, replicate 1048576 7), (replicate 12 0, [1])]"
  obtain c d s' where e: "encrypt_all toy_ring ?ps (stream_cipher_new toy_key) = (map Inr [c, d], s')"
    by (simp add: encrypt_chunk_def toy_chunk_key toy_key_def Let_def stream_cipher_new_def)
  have n: "nonces_ok ?ps" by (simp add: nonces_ok_def)
  have l: "length c = 1048604" "length d = 29" using encrypt_all_lengths [OF toy_sound n e] by simp_all
  let ?ms = "[frame_encode (frame_new_with_ts Data 0 5 c), frame_encode (frame_new_with_ts Data 1 6 d)]"
  have f: "frames_of_chunks ?ms [c, d]" by (auto simp: frames_of_chunks_def less_Suc_eq)
  have rest: "\<forall>j < length [c, d]. j \<noteq> 0 \<longrightarrow> length ([c, d] ! j) \<le> MAX_FRAME_SIZE"
    by (simp add: l MAX_FRAME_SIZE_def less_Suc_eq)
  have "view_messages toy_ring (stream_cipher_new toy_key) ?ms = [None, None]"
    using large_segment_ends_stream [OF toy_sound toy_authentic n e f _ _ _ rest]
    by (simp add: l MAX_FRAME_SIZE_def del: view_messages.simps)
  with e show ?thesis
    by (intro exI [of _ "[c, d]"] exI [of _ s']) (simp del: view_messages.simps encrypt_all.simps)
qed

end
