(* ===== verification/Cascade.thy ===== *)
theory Cascade
  imports Rust_F64 Rust_Str
begin

text \<open>
  The upstream selector of the agent mesh, agent-rust/src/relay/cascade_selector.rs: the
  loop guard, the scoring and choice of a candidate, the hysteresis of voluntary switches,
  the emergency switch and the mesh ping. Scores are exact reals (JSON numbers are finite
  and no division by zero can occur here). Times are milliseconds of one monotonic clock,
  passed in; a method is one atomic step. The two \<open>try_read\<close>s of the selection can fail
  when another task holds the lock for writing: the record \<open>lock_view\<close> says so for the
  \<open>k\<close>-th candidate. The log line of a switch, which can abort the process, is accounted for
  where the selector is part of the agent (\<open>switch_logged\<close> in Agent).
\<close>

section \<open>What the controller sends\<close>

record candidate_upstream =
  cu_node_id :: string
  cu_url :: string
  cu_region :: string
  cu_isp :: string
  cu_tier :: int
  cu_score_hint :: real
  cu_max_children :: int
  cu_current_children :: int
  cu_bw_remaining_mbps :: real
  cu_allow_cascade :: bool
  cu_has_ipv6 :: bool
  cu_ipv6_url :: string

record origin_fallback =
  of_url :: string
  of_priority :: int

record mesh_policy =
  max_depth :: int
  switch_cooldown_sec :: int
  min_score_improvement :: int
  mesh_ping_interval_sec :: int
  candidate_ttl_sec :: int
  max_switch_per_5min :: int
  hard_fail_timeout_ms :: int

definition mesh_policy_default :: mesh_policy where
  "mesh_policy_default = \<lparr>max_depth = 2, switch_cooldown_sec = 30, min_score_improvement = 15,
     mesh_ping_interval_sec = 10, candidate_ttl_sec = 60, max_switch_per_5min = 3,
     hard_fail_timeout_ms = 3000\<rparr>"

record migration_advice =
  should_switch :: bool
  preferred_node :: string
  ma_reason :: string

record mesh_map_response =
  mesh_epoch :: u64
  self_node_id :: string
  mm_self_tier :: int
  candidate_upstreams :: "candidate_upstream list"
  mm_origin_fallback :: "origin_fallback option"
  mm_policy :: "mesh_policy option"
  mm_migration_advice :: "migration_advice option"

section \<open>The agent's own state\<close>

text \<open>The reason string: how the upstream relates to this node, and the \<open>+IPv6\<close> suffix.\<close>

datatype locality_reason = SameRegionIsp | SameRegion | CrossRegion

record cascade_path =
  cp_upstream_url :: string
  cp_upstream_node_id :: string
  cp_score :: real
  cp_tier :: int
  cp_reason :: "locality_reason \<times> bool"
  cp_selected_at :: nat

record loop_guard =
  lg_node_id :: string
  lg_known_upstream_chain :: "string list"
  lg_max_depth :: int

definition loop_guard_new :: "string \<Rightarrow> int \<Rightarrow> loop_guard" where
  "loop_guard_new n d = \<lparr>lg_node_id = n, lg_known_upstream_chain = [], lg_max_depth = d\<rparr>"

definition would_create_loop :: "loop_guard \<Rightarrow> string \<Rightarrow> int \<Rightarrow> bool" where
  "would_create_loop g upstream_node_id upstream_tier =
     (if upstream_tier \<ge> 0 \<and> upstream_tier \<ge> lg_max_depth g then True
      else if upstream_node_id = lg_node_id g then True
      else if lg_node_id g \<in> set (lg_known_upstream_chain g) then True
      else False)"

definition update_upstream_chain :: "string list \<Rightarrow> loop_guard \<Rightarrow> loop_guard" where
  "update_upstream_chain path g = g\<lparr>lg_known_upstream_chain := path\<rparr>"

definition detect_loop_in_path :: "loop_guard \<Rightarrow> string list \<Rightarrow> bool" where
  "detect_loop_in_path g path \<longleftrightarrow> lg_node_id g \<in> set path"

record probe_result =
  connect_rtt_ms :: u32
  probed_at :: nat
  reachable :: bool

record cascade_selector =
  sel_node_id :: string
  sel_region :: string
  sel_isp :: string
  sel_has_ipv6 :: bool
  sel_current_path :: "cascade_path option"
  sel_last_mesh_response :: "mesh_map_response option"
  sel_loop_guard :: loop_guard
  sel_last_switch_at :: "nat option"
  sel_switch_count_5min :: "nat list"
  sel_self_tier :: int
  sel_probe_results :: "(string, probe_result) map"
  sel_upstream_consecutive_fails :: int
  sel_upstream_last_ok_at :: "nat option"

definition cascade_selector_new :: "string \<Rightarrow> string \<Rightarrow> string \<Rightarrow> bool \<Rightarrow> cascade_selector" where
  "cascade_selector_new node region isp v6 =
     \<lparr>sel_node_id = node, sel_region = region, sel_isp = isp, sel_has_ipv6 = v6,
      sel_current_path = None, sel_last_mesh_response = None,
      sel_loop_guard = loop_guard_new node 2, sel_last_switch_at = None,
      sel_switch_count_5min = [], sel_self_tier = 2, sel_probe_results = Map.empty,
      sel_upstream_consecutive_fails = 0, sel_upstream_last_ok_at = None\<rparr>"

section \<open>Scoring and selection\<close>

record lock_view =
  guard_free :: "nat \<Rightarrow> bool"
  probes_free :: "nat \<Rightarrow> bool"

definition compute_local_score :: "cascade_selector \<Rightarrow> candidate_upstream \<Rightarrow> real" where
  "compute_local_score s c =
     (let s0 = 1;
          s1 = (if cu_max_children c > 0
                then s0 * (5 / 10 + 5 / 10 * (1 - real_of_int (cu_current_children c) / real_of_int (cu_max_children c)))
                else s0);
          s2 = (if cu_bw_remaining_mbps c < 4 then s1 * (7 / 10) else s1);
          s3 = (if cu_tier c = 1 then s2 * (11 / 10) else s2);
          s4 = (if cu_region c = sel_region s \<and> cu_isp c = sel_isp s then s3 * (115 / 100)
                else if cu_region c = sel_region s then s3 * (105 / 100) else s3)
      in if sel_has_ipv6 s \<and> cu_has_ipv6 c then s4 * (105 / 100) else s4)"

definition fresh_rtt :: "nat \<Rightarrow> cascade_selector \<Rightarrow> string \<Rightarrow> u32 option" where
  "fresh_rtt now s node =
     (case sel_probe_results s node of
        Some p \<Rightarrow> (if now - probed_at p < 60000 then Some (connect_rtt_ms p) else None)
      | None \<Rightarrow> None)"

definition get_probe_rtt :: "nat \<Rightarrow> cascade_selector \<Rightarrow> string \<Rightarrow> u32 option" where
  "get_probe_rtt now s node = fresh_rtt now s node"

definition get_probe_rtt_sync :: "bool \<Rightarrow> nat \<Rightarrow> cascade_selector \<Rightarrow> string \<Rightarrow> u32 option" where
  "get_probe_rtt_sync free now s node = (if free then fresh_rtt now s node else None)"

definition rtt_factor :: "u32 option \<Rightarrow> real" where
  "rtt_factor r = (case r of
     None \<Rightarrow> 1
   | Some rtt \<Rightarrow>
       (if rtt < 10 then 12 / 10
        else if rtt < 50 then 11 / 10
        else if rtt > 200 then 7 / 10
        else if rtt > 100 then 85 / 100
        else 1))"

definition final_score :: "nat \<Rightarrow> cascade_selector \<Rightarrow> u32 option \<Rightarrow> candidate_upstream \<Rightarrow> real" where
  "final_score now s rtt c =
     (cu_score_hint c * (7 / 10) + compute_local_score s c * rtt_factor rtt * 100 * (3 / 10)) / 100"

definition eligible :: "bool \<Rightarrow> cascade_selector \<Rightarrow> candidate_upstream \<Rightarrow> bool" where
  "eligible guarded s c \<longleftrightarrow> cu_allow_cascade c \<and> cu_url c \<noteq> []
     \<and> (guarded \<longrightarrow> \<not> would_create_loop (sel_loop_guard s) (cu_node_id c) (cu_tier c))"

definition path_of :: "nat \<Rightarrow> cascade_selector \<Rightarrow> bool \<Rightarrow> candidate_upstream \<Rightarrow> cascade_path" where
  "path_of now s probes_ok c =
     (let v6 = sel_has_ipv6 s \<and> cu_ipv6_url c \<noteq> []
      in \<lparr>cp_upstream_url = (if v6 then cu_ipv6_url c else cu_url c),
          cp_upstream_node_id = cu_node_id c,
          cp_score = final_score now s (get_probe_rtt_sync probes_ok now s (cu_node_id c)) c,
          cp_tier = cu_tier c,
          cp_reason = (if cu_region c = sel_region s \<and> cu_isp c = sel_isp s then SameRegionIsp
                       else if cu_region c = sel_region s then SameRegion else CrossRegion, v6),
          cp_selected_at = now\<rparr>)"

fun score_candidates :: "nat \<Rightarrow> lock_view \<Rightarrow> cascade_selector \<Rightarrow> nat \<Rightarrow> candidate_upstream list
    \<Rightarrow> cascade_path list" where
  "score_candidates now lk s k [] = []"
| "score_candidates now lk s k (c # cs) =
     (if eligible (guard_free lk k) s c
      then path_of now s (probes_free lk k) c # score_candidates now lk s (Suc k) cs
      else score_candidates now lk s (Suc k) cs)"

text \<open>The stable descending sort, of which the first element is taken.\<close>

definition select_from_candidates :: "nat \<Rightarrow> lock_view \<Rightarrow> cascade_selector \<Rightarrow> candidate_upstream list
    \<Rightarrow> cascade_path option" where
  "select_from_candidates now lk s cs =
     (case sort_key (\<lambda>p. - cp_score p) (score_candidates now lk s 0 cs) of
        [] \<Rightarrow> None | p # ps \<Rightarrow> Some p)"

section \<open>Switching\<close>

definition apply_path_switch :: "nat \<Rightarrow> cascade_path option \<Rightarrow> cascade_selector \<Rightarrow> cascade_selector" where
  "apply_path_switch now new_path s =
     s\<lparr>sel_current_path := new_path, sel_last_switch_at := Some now,
       sel_switch_count_5min := sel_switch_count_5min s @ [now]\<rparr>"

text \<open>
  The check also prunes the list of switch times, but only on the path that reaches it.
\<close>

definition check_hysteresis :: "nat \<Rightarrow> cascade_path option \<Rightarrow> mesh_map_response \<Rightarrow> cascade_selector
    \<Rightarrow> bool \<times> cascade_selector" where
  "check_hysteresis now new_path resp s =
     (case (sel_current_path s, new_path) of
        (None, None) \<Rightarrow> (False, s)
      | (None, Some _) \<Rightarrow> (True, s)
      | (Some _, None) \<Rightarrow> (True, s)
      | (Some cur, Some new) \<Rightarrow>
          (if cp_upstream_node_id cur = cp_upstream_node_id new then (False, s)
           else
             let cooldown_sec = (case mm_policy resp of Some p \<Rightarrow> switch_cooldown_sec p | None \<Rightarrow> 30)
             in if (case sel_last_switch_at s of
                      Some t \<Rightarrow> now - t < as_u64 cooldown_sec * 1000 | None \<Rightarrow> False)
                then (False, s)
                else
                  let max_switch = (case mm_policy resp of Some p \<Rightarrow> max_switch_per_5min p | None \<Rightarrow> 3);
                      s' = s\<lparr>sel_switch_count_5min :=
                             filter (\<lambda>t. now < t + 300000) (sel_switch_count_5min s)\<rparr>
                  in if length (sel_switch_count_5min s') \<ge> as_u64 max_switch then (False, s')
                     else
                       let min_improvement = (case mm_policy resp of
                             Some p \<Rightarrow> real_of_int (min_score_improvement p) / 100 | None \<Rightarrow> 15 / 100);
                           improvement = (cp_score new - cp_score cur) / max (cp_score cur) (1 / 100)
                       in if improvement < min_improvement then (False, s') else (True, s')))"

definition force_reselect :: "nat \<Rightarrow> lock_view \<Rightarrow> mesh_map_response \<Rightarrow> cascade_selector \<Rightarrow> cascade_selector" where
  "force_reselect now lk resp s =
     apply_path_switch now (select_from_candidates now lk s (candidate_upstreams resp)) s"

text \<open>The first lines of \<open>update_mesh_map\<close>: the tier and the loop guard's depth.\<close>

definition adopt_policy :: "mesh_map_response \<Rightarrow> cascade_selector \<Rightarrow> cascade_selector" where
  "adopt_policy resp s = s\<lparr>sel_self_tier := mm_self_tier resp,
     sel_loop_guard := (sel_loop_guard s)
       \<lparr>lg_max_depth := (case mm_policy resp of Some p \<Rightarrow> max_depth p | None \<Rightarrow> mm_self_tier resp)\<rparr>\<rparr>"

definition upstream_offline :: "mesh_map_response \<Rightarrow> bool" where
  "upstream_offline resp \<longleftrightarrow> (case mm_migration_advice resp of
     Some a \<Rightarrow> should_switch a \<and> ma_reason a = ''upstream_offline'' | None \<Rightarrow> False)"

definition update_mesh_map :: "nat \<Rightarrow> lock_view \<Rightarrow> mesh_map_response \<Rightarrow> cascade_selector \<Rightarrow> cascade_selector" where
  "update_mesh_map now lk resp s0 =
     (let s = adopt_policy resp s0
      in if upstream_offline resp
         then (force_reselect now lk resp s)\<lparr>sel_last_mesh_response := Some resp\<rparr>
         else
           let new_path = select_from_candidates now lk s (candidate_upstreams resp);
               (switch, s1) = check_hysteresis now new_path resp s;
               s2 = (if switch then apply_path_switch now new_path s1 else s1)
           in s2\<lparr>sel_last_mesh_response := Some resp\<rparr>)"

section \<open>Edge autonomy\<close>

definition emergency_switch :: "nat \<Rightarrow> lock_view \<Rightarrow> cascade_selector \<Rightarrow> cascade_selector" where
  "emergency_switch now lk s =
     (case sel_last_mesh_response s of
        Some resp \<Rightarrow> force_reselect now lk resp s
      | None \<Rightarrow> s\<lparr>sel_current_path := None\<rparr>)\<lparr>sel_upstream_consecutive_fails := 0\<rparr>"

definition report_upstream_ok :: "nat \<Rightarrow> cascade_selector \<Rightarrow> cascade_selector" where
  "report_upstream_ok now s =
     s\<lparr>sel_upstream_consecutive_fails := 0, sel_upstream_last_ok_at := Some now\<rparr>"

definition report_upstream_fail :: "nat \<Rightarrow> lock_view \<Rightarrow> cascade_selector \<Rightarrow> cascade_selector" where
  "report_upstream_fail now lk s =
     (let fails = i32_wrap (sel_upstream_consecutive_fails s + 1);
          s' = s\<lparr>sel_upstream_consecutive_fails := fails\<rparr>
      in if fails \<ge> 3 then emergency_switch now lk s' else s')"

text \<open>\<open>mesh_ping\<close>: the milliseconds of a successful HEAD request, else 9999.\<close>

definition mesh_ping :: "(string \<Rightarrow> (nat \<times> nat) option) \<Rightarrow> string \<Rightarrow> u32" where
  "mesh_ping head url =
     (case head url of
        Some (status, ms) \<Rightarrow> (if 200 \<le> status \<and> status < 300 then word_of_nat ms else 9999)
      | None \<Rightarrow> 9999)"

fun ping_candidates :: "(string \<Rightarrow> (nat \<times> nat) option) \<Rightarrow> (nat \<Rightarrow> nat) \<Rightarrow> nat \<Rightarrow> candidate_upstream list
    \<Rightarrow> (string, probe_result) map \<Rightarrow> (string, probe_result) map" where
  "ping_candidates head clk k [] m = m"
| "ping_candidates head clk k (c # cs) m =
     (if \<not> cu_allow_cascade c \<or> cu_url c = [] then ping_candidates head clk (Suc k) cs m
      else
        let rtt = mesh_ping head (cu_url c)
        in ping_candidates head clk (Suc k) cs
             (m(cu_node_id c \<mapsto> \<lparr>connect_rtt_ms = rtt, probed_at = clk k, reachable = rtt < 9999\<rparr>)))"

definition run_mesh_ping :: "(string \<Rightarrow> (nat \<times> nat) option) \<Rightarrow> (nat \<Rightarrow> nat) \<Rightarrow> nat \<Rightarrow> lock_view
    \<Rightarrow> cascade_selector \<Rightarrow> cascade_selector" where
  "run_mesh_ping head clk now lk s =
     (case sel_last_mesh_response s of
        None \<Rightarrow> s
      | Some resp \<Rightarrow>
          (let s1 = s\<lparr>sel_probe_results := ping_candidates head clk 0 (candidate_upstreams resp) (sel_probe_results s)\<rparr>
           in case sel_current_path s1 of
                None \<Rightarrow> s1
              | Some p \<Rightarrow>
                  (case sel_probe_results s1 (cp_upstream_node_id p) of
                     None \<Rightarrow> s1
                   | Some probe \<Rightarrow>
                       (if now - probed_at probe < 30000 \<and> \<not> reachable probe
                        then emergency_switch now lk s1 else s1))))"

definition current_upstream_url :: "cascade_selector \<Rightarrow> string option" where
  "current_upstream_url s = map_option cp_upstream_url (sel_current_path s)"

definition selector_detect_loop :: "cascade_selector \<Rightarrow> string list \<Rightarrow> bool" where
  "selector_detect_loop s path = detect_loop_in_path (sel_loop_guard s) path"

record cascade_stats =
  cascade_depth :: int
  cs_current_upstream :: string
  cs_self_tier :: int

definition selector_stats :: "cascade_selector \<Rightarrow> cascade_stats" where
  "selector_stats s =
     \<lparr>cascade_depth = (if sel_current_path s \<noteq> None then i32_wrap (sel_self_tier s - 1) else 0),
      cs_current_upstream = (case sel_current_path s of Some p \<Rightarrow> cp_upstream_node_id p | None \<Rightarrow> []),
      cs_self_tier = sel_self_tier s\<rparr>"

section \<open>The chosen path\<close>

lemma sort_key_hd:
  "sort_key f xs = x # ys \<Longrightarrow>
   \<exists>us vs. xs = us @ x # vs \<and> (\<forall>u \<in> set us. f x < f u) \<and> (\<forall>v \<in> set vs. f x \<le> f v)"
proof (induction xs arbitrary: x ys)
  case (Cons a xs)
  show ?case
  proof (cases "sort_key f xs")
    case Nil
    then have "xs = []" by (metis length_0_conv length_sort)
    with Cons.prems show ?thesis by (intro exI [of _ "[]"]) simp
  next
    case (Cons b bs)
    from Cons.IH [OF this] obtain us vs where h: "xs = us @ b # vs" "\<forall>u \<in> set us. f b < f u"
      "\<forall>v \<in> set vs. f b \<le> f v" by blast
    show ?thesis
    proof (cases "f a \<le> f b")
      case True
      with Cons Cons.prems have "x = a" by simp
      with h True show ?thesis by (intro exI [of _ "[]"] exI [of _ xs]) fastforce
    next
      case False
      with Cons Cons.prems have "x = b" by simp
      with h False show ?thesis by (intro exI [of _ "a # us"] exI [of _ vs]) auto
    qed
  qed
qed simp

lemma score_candidates_split:
  "score_candidates now lk s k cs = as @ p # bs \<Longrightarrow>
   \<exists>cs1 c cs2. cs = cs1 @ c # cs2 \<and> eligible (guard_free lk (k + length cs1)) s c
     \<and> p = path_of now s (probes_free lk (k + length cs1)) c
     \<and> score_candidates now lk s k cs1 = as
     \<and> score_candidates now lk s (Suc (k + length cs1)) cs2 = bs"
proof (induction cs arbitrary: k as)
  case (Cons c cs)
  show ?case
  proof (cases "eligible (guard_free lk k) s c")
    case False
    with Cons.prems have "score_candidates now lk s (Suc k) cs = as @ p # bs" by simp
    from Cons.IH [OF this] obtain cs1 d cs2 where "cs = cs1 @ d # cs2"
      "eligible (guard_free lk (Suc k + length cs1)) s d"
      "p = path_of now s (probes_free lk (Suc k + length cs1)) d"
      "score_candidates now lk s (Suc k) cs1 = as"
      "score_candidates now lk s (Suc (Suc k + length cs1)) cs2 = bs" by blast
    with False show ?thesis by (intro exI [of _ "c # cs1"] exI [of _ d] exI [of _ cs2]) simp
  next
    case True
    show ?thesis
    proof (cases as)
      case Nil
      with True Cons.prems show ?thesis by (intro exI [of _ "[]"] exI [of _ c] exI [of _ cs]) simp
    next
      case (Cons a as')
      with True Cons.prems have a: "a = path_of now s (probes_free lk k) c"
        "score_candidates now lk s (Suc k) cs = as' @ p # bs" by simp_all
      from Cons.IH [OF a(2)] obtain cs1 d cs2 where "cs = cs1 @ d # cs2"
        "eligible (guard_free lk (Suc k + length cs1)) s d"
        "p = path_of now s (probes_free lk (Suc k + length cs1)) d"
        "score_candidates now lk s (Suc k) cs1 = as'"
        "score_candidates now lk s (Suc (Suc k + length cs1)) cs2 = bs" by blast
      with True Cons a show ?thesis by (intro exI [of _ "c # cs1"] exI [of _ d] exI [of _ cs2]) simp
    qed
  qed
qed simp

lemma score_candidates_mem:
  "i < length cs \<Longrightarrow> eligible (guard_free lk (k + i)) s (cs ! i) \<Longrightarrow>
   path_of now s (probes_free lk (k + i)) (cs ! i) \<in> set (score_candidates now lk s k cs)"
proof (induction cs arbitrary: k i)
  case (Cons c cs)
  show ?case
  proof (cases i)
    case 0
    with Cons.prems show ?thesis by simp
  next
    case (Suc j)
    with Cons.IH [of j "Suc k"] Cons.prems show ?thesis by simp
  qed
qed simp

lemma select_None_iff:
  "select_from_candidates now lk s cs = None \<longleftrightarrow> (\<forall>i < length cs. \<not> eligible (guard_free lk i) s (cs ! i))"
proof -
  have "select_from_candidates now lk s cs = None \<longleftrightarrow> score_candidates now lk s 0 cs = []"
    by (simp add: select_from_candidates_def split: list.split)
      (metis length_0_conv length_sort list.distinct(1))
  moreover have "(\<forall>i < length cs. \<not> eligible (guard_free lk i) s (cs ! i))"
    if "score_candidates now lk s 0 cs = []"
    using score_candidates_mem [of _ cs lk 0 s now] that by fastforce
  moreover have "score_candidates now lk s 0 cs = []"
    if "\<forall>i < length cs. \<not> eligible (guard_free lk i) s (cs ! i)"
  proof (cases "score_candidates now lk s 0 cs")
    case (Cons p ps)
    then obtain cs1 c cs2 where "cs = cs1 @ c # cs2" "eligible (guard_free lk (length cs1)) s c"
      using score_candidates_split [of now lk s 0 cs "[]" p ps] by auto
    with that have False by (auto dest!: spec [of _ "length cs1"])
    then show ?thesis ..
  qed
  ultimately show ?thesis by blast
qed

lemma select_Some:
  assumes "select_from_candidates now lk s cs = Some p"
  obtains i where "i < length cs" "eligible (guard_free lk i) s (cs ! i)"
    "p = path_of now s (probes_free lk i) (cs ! i)"
    "\<And>j. j < length cs \<Longrightarrow> eligible (guard_free lk j) s (cs ! j) \<Longrightarrow>
       cp_score (path_of now s (probes_free lk j) (cs ! j)) \<le> cp_score p"
    "\<And>j. j < i \<Longrightarrow> eligible (guard_free lk j) s (cs ! j) \<Longrightarrow>
       cp_score (path_of now s (probes_free lk j) (cs ! j)) < cp_score p"
proof -
  from assms obtain ps where "sort_key (\<lambda>p. - cp_score p) (score_candidates now lk s 0 cs) = p # ps"
    by (auto simp: select_from_candidates_def split: list.splits)
  from sort_key_hd [OF this] obtain us vs where sp: "score_candidates now lk s 0 cs = us @ p # vs"
    "\<forall>u \<in> set us. cp_score u < cp_score p" "\<forall>v \<in> set vs. cp_score v \<le> cp_score p" by auto
  from score_candidates_split [OF sp(1)] obtain cs1 c cs2 where c: "cs = cs1 @ c # cs2"
    "eligible (guard_free lk (length cs1)) s c" "p = path_of now s (probes_free lk (length cs1)) c"
    "score_candidates now lk s 0 cs1 = us" by auto
  show ?thesis
  proof (rule that [of "length cs1"])
    fix j assume j: "j < length cs" "eligible (guard_free lk j) s (cs ! j)"
    from score_candidates_mem [of j cs lk 0 s now] j sp
    show "cp_score (path_of now s (probes_free lk j) (cs ! j)) \<le> cp_score p" by auto
  next
    fix j assume j: "j < length cs1" "eligible (guard_free lk j) s (cs ! j)"
    then have "path_of now s (probes_free lk j) (cs ! j) \<in> set us"
      using score_candidates_mem [of j cs1 lk 0 s now] c by (simp add: nth_append)
    with sp(2) show "cp_score (path_of now s (probes_free lk j) (cs ! j)) < cp_score p" by blast
  qed (use c in auto)
qed

text \<open>The selection looks at these fields only.\<close>

lemma score_candidates_cong:
  assumes "sel_region s = sel_region t" "sel_isp s = sel_isp t" "sel_has_ipv6 s = sel_has_ipv6 t"
    "sel_loop_guard s = sel_loop_guard t" "sel_probe_results s = sel_probe_results t"
  shows "score_candidates now lk s k cs = score_candidates now lk t k cs"
  using assms
  by (induction cs arbitrary: k)
    (simp_all add: eligible_def path_of_def final_score_def compute_local_score_def
      get_probe_rtt_sync_def fresh_rtt_def Let_def)

lemma select_cong:
  assumes "sel_region s = sel_region t" "sel_isp s = sel_isp t" "sel_has_ipv6 s = sel_has_ipv6 t"
    "sel_loop_guard s = sel_loop_guard t" "sel_probe_results s = sel_probe_results t"
  shows "select_from_candidates now lk s cs = select_from_candidates now lk t cs"
  using score_candidates_cong [OF assms] by (simp add: select_from_candidates_def)

section \<open>Runs of the selector\<close>

datatype selector_op =
    OpMeshMap nat lock_view mesh_map_response
  | OpUpstreamOk nat
  | OpUpstreamFail nat lock_view
  | OpMeshPing "string \<Rightarrow> (nat \<times> nat) option" "nat \<Rightarrow> nat" nat lock_view
  | OpChain "string list"

fun selector_step :: "selector_op \<Rightarrow> cascade_selector \<Rightarrow> cascade_selector" where
  "selector_step (OpMeshMap now lk resp) s = update_mesh_map now lk resp s"
| "selector_step (OpUpstreamOk now) s = report_upstream_ok now s"
| "selector_step (OpUpstreamFail now lk) s = report_upstream_fail now lk s"
| "selector_step (OpMeshPing head clk now lk) s = run_mesh_ping head clk now lk s"
| "selector_step (OpChain path) s = s\<lparr>sel_loop_guard := update_upstream_chain path (sel_loop_guard s)\<rparr>"

fun op_guarded :: "selector_op \<Rightarrow> bool" where
  "op_guarded (OpMeshMap now lk resp) \<longleftrightarrow> (\<forall>k. guard_free lk k)"
| "op_guarded (OpUpstreamFail now lk) \<longleftrightarrow> (\<forall>k. guard_free lk k)"
| "op_guarded (OpMeshPing head clk now lk) \<longleftrightarrow> (\<forall>k. guard_free lk k)"
| "op_guarded _ \<longleftrightarrow> True"

text \<open>Never this node itself, always a URL, and the failure counter below its threshold.\<close>

definition path_ok :: "string \<Rightarrow> cascade_path option \<Rightarrow> bool" where
  "path_ok node p = (case p of None \<Rightarrow> True
     | Some p \<Rightarrow> cp_upstream_node_id p \<noteq> node \<and> cp_upstream_url p \<noteq> [])"

definition sel_inv :: "string \<Rightarrow> cascade_selector \<Rightarrow> bool" where
  "sel_inv node s \<longleftrightarrow> lg_node_id (sel_loop_guard s) = node \<and> path_ok node (sel_current_path s)
     \<and> 0 \<le> sel_upstream_consecutive_fails s \<and> sel_upstream_consecutive_fails s \<le> 2"

lemma select_path_ok:
  assumes "lg_node_id (sel_loop_guard s) = node" "\<forall>k. guard_free lk k"
  shows "path_ok node (select_from_candidates now lk s cs)"
proof (cases "select_from_candidates now lk s cs")
  case (Some p)
  then obtain i where "eligible (guard_free lk i) s (cs ! i)"
    "p = path_of now s (probes_free lk i) (cs ! i)" by (rule select_Some)
  with assms Some show ?thesis
    by (auto simp: path_ok_def path_of_def eligible_def would_create_loop_def Let_def split: if_splits)
qed (simp add: path_ok_def)

lemma force_reselect_inv:
  "sel_inv node s \<Longrightarrow> \<forall>k. guard_free lk k \<Longrightarrow> sel_inv node (force_reselect now lk resp s)"
  by (simp add: sel_inv_def force_reselect_def apply_path_switch_def select_path_ok)

lemma emergency_switch_inv:
  assumes "lg_node_id (sel_loop_guard s) = node" "\<forall>k. guard_free lk k"
  shows "sel_inv node (emergency_switch now lk s)"
  using assms
  by (auto simp: sel_inv_def emergency_switch_def force_reselect_def apply_path_switch_def
      select_path_ok path_ok_def [of _ None] split: option.split)

lemma check_hysteresis_fields:
  "\<exists>ts. snd (check_hysteresis now p resp s) = s\<lparr>sel_switch_count_5min := ts\<rparr>
     \<and> (ts = sel_switch_count_5min s \<or> ts = filter (\<lambda>t. now < t + 300000) (sel_switch_count_5min s))"
  by (auto simp: check_hysteresis_def Let_def split: option.splits
      intro: exI [of _ "sel_switch_count_5min s"])

lemma update_mesh_map_cases:
  obtains (offline) "upstream_offline resp"
      "update_mesh_map now lk resp s = (force_reselect now lk resp (adopt_policy resp s))
         \<lparr>sel_last_mesh_response := Some resp\<rparr>"
  | (stay) ts where "\<not> upstream_offline resp"
      "ts = sel_switch_count_5min s \<or> ts = filter (\<lambda>t. now < t + 300000) (sel_switch_count_5min s)"
      "update_mesh_map now lk resp s = (adopt_policy resp s)
         \<lparr>sel_switch_count_5min := ts, sel_last_mesh_response := Some resp\<rparr>"
  | (switch) ts where "\<not> upstream_offline resp"
      "ts = sel_switch_count_5min s \<or> ts = filter (\<lambda>t. now < t + 300000) (sel_switch_count_5min s)"
      "check_hysteresis now (select_from_candidates now lk (adopt_policy resp s) (candidate_upstreams resp))
         resp (adopt_policy resp s) = (True, (adopt_policy resp s)\<lparr>sel_switch_count_5min := ts\<rparr>)"
      "update_mesh_map now lk resp s = (apply_path_switch now
         (select_from_candidates now lk (adopt_policy resp s) (candidate_upstreams resp))
         ((adopt_policy resp s)\<lparr>sel_switch_count_5min := ts\<rparr>))\<lparr>sel_last_mesh_response := Some resp\<rparr>"
proof (cases "upstream_offline resp")
  case True
  then show ?thesis by (intro offline) (simp_all add: update_mesh_map_def)
next
  case False
  let ?s = "adopt_policy resp s"
  let ?new = "select_from_candidates now lk ?s (candidate_upstreams resp)"
  obtain b s1 where c: "check_hysteresis now ?new resp ?s = (b, s1)"
    by (cases "check_hysteresis now ?new resp ?s")
  have "sel_switch_count_5min ?s = sel_switch_count_5min s" by (simp add: adopt_policy_def)
  then obtain ts where ts: "s1 = ?s\<lparr>sel_switch_count_5min := ts\<rparr>"
    "ts = sel_switch_count_5min s \<or> ts = filter (\<lambda>t. now < t + 300000) (sel_switch_count_5min s)"
    using check_hysteresis_fields [of now ?new resp ?s] by (auto simp: c)
  show ?thesis
  proof (cases b)
    case True
    with False c ts show ?thesis by (intro switch [of ts]) (simp_all add: update_mesh_map_def Let_def)
  next
    case b: False
    with False c ts show ?thesis by (intro stay [of ts]) (simp_all add: update_mesh_map_def Let_def)
  qed
qed

lemma adopt_policy_inv: "sel_inv node s \<Longrightarrow> sel_inv node (adopt_policy resp s)"
  by (simp add: sel_inv_def adopt_policy_def)

lemma update_mesh_map_inv:
  assumes inv: "sel_inv node s" and g: "\<forall>k. guard_free lk k"
  shows "sel_inv node (update_mesh_map now lk resp s)"
proof (cases rule: update_mesh_map_cases [of resp now lk s])
  case offline
  with force_reselect_inv [OF adopt_policy_inv [OF inv] g] show ?thesis by (simp add: sel_inv_def)
next
  case (stay ts)
  with adopt_policy_inv [OF inv] show ?thesis by (simp add: sel_inv_def)
next
  case (switch ts)
  with adopt_policy_inv [OF inv, of resp] g show ?thesis
    by (simp add: sel_inv_def apply_path_switch_def select_path_ok)
qed

lemma selector_step_inv:
  assumes "sel_inv node s" "op_guarded x"
  shows "sel_inv node (selector_step x s)"
proof (cases x)
  case (OpMeshMap now lk resp)
  with assms show ?thesis by (simp add: update_mesh_map_inv)
next
  case (OpUpstreamOk now)
  with assms show ?thesis by (simp add: sel_inv_def report_upstream_ok_def)
next
  case (OpUpstreamFail now lk)
  let ?f = "sel_upstream_consecutive_fails s + 1"
  have f: "i32_wrap ?f = ?f" using assms(1) by (intro i32_wrap_id) (simp add: sel_inv_def i32_range_def)
  have "sel_inv node (emergency_switch now lk (s\<lparr>sel_upstream_consecutive_fails := ?f\<rparr>))"
    using assms OpUpstreamFail by (intro emergency_switch_inv) (auto simp: sel_inv_def)
  with assms OpUpstreamFail show ?thesis
    by (auto simp: report_upstream_fail_def f Let_def sel_inv_def)
next
  case (OpMeshPing head clk now lk)
  have "sel_inv node (emergency_switch now lk (s\<lparr>sel_probe_results := m\<rparr>))" for m
    using assms OpMeshPing by (intro emergency_switch_inv) (auto simp: sel_inv_def)
  with assms OpMeshPing show ?thesis
    by (auto simp: run_mesh_ping_def Let_def sel_inv_def split: option.splits)
next
  case (OpChain path)
  with assms show ?thesis by (simp add: sel_inv_def update_upstream_chain_def)
qed

section \<open>Voluntary switches\<close>

text \<open>From one upstream to another, on the agent's own judgement.\<close>

definition voluntary :: "mesh_map_response \<Rightarrow> cascade_selector \<Rightarrow> cascade_selector \<Rightarrow> bool" where
  "voluntary resp s s' \<longleftrightarrow> \<not> upstream_offline resp \<and>
     (case (sel_current_path s, sel_current_path s') of
        (Some a, Some b) \<Rightarrow> cp_upstream_node_id a \<noteq> cp_upstream_node_id b
      | _ \<Rightarrow> False)"

definition policy_max_switch :: "mesh_map_response \<Rightarrow> nat" where
  "policy_max_switch resp = as_u64 (case mm_policy resp of Some p \<Rightarrow> max_switch_per_5min p | None \<Rightarrow> 3)"

definition policy_cooldown_ms :: "mesh_map_response \<Rightarrow> nat" where
  "policy_cooldown_ms resp = as_u64 (case mm_policy resp of Some p \<Rightarrow> switch_cooldown_sec p | None \<Rightarrow> 30) * 1000"

definition policy_min_improvement :: "mesh_map_response \<Rightarrow> real" where
  "policy_min_improvement resp = (case mm_policy resp of
     Some p \<Rightarrow> real_of_int (min_score_improvement p) / 100 | None \<Rightarrow> 15 / 100)"

abbreviation recent :: "nat \<Rightarrow> nat list \<Rightarrow> nat list" where
  "recent now ts \<equiv> filter (\<lambda>t. now < t + 300000) ts"

lemma check_hysteresis_switch:
  assumes "check_hysteresis now (Some new) resp s = (True, s')" "sel_current_path s = Some cur"
  shows "cp_upstream_node_id cur \<noteq> cp_upstream_node_id new
    \<and> (\<forall>t. sel_last_switch_at s = Some t \<longrightarrow> policy_cooldown_ms resp \<le> now - t)
    \<and> length (recent now (sel_switch_count_5min s)) < policy_max_switch resp
    \<and> policy_min_improvement resp \<le> (cp_score new - cp_score cur) / max (cp_score cur) (1 / 100)
    \<and> s' = s\<lparr>sel_switch_count_5min := recent now (sel_switch_count_5min s)\<rparr>"
  using assms
  by (auto simp: check_hysteresis_def policy_cooldown_ms_def policy_max_switch_def
      policy_min_improvement_def Let_def not_less not_le split: if_splits option.splits)

lemma voluntary_switch:
  assumes "voluntary resp s (update_mesh_map now lk resp s)"
  shows "\<exists>cur new. sel_current_path s = Some cur
    \<and> sel_current_path (update_mesh_map now lk resp s) = Some new
    \<and> cp_upstream_node_id cur \<noteq> cp_upstream_node_id new
    \<and> (\<forall>t. sel_last_switch_at s = Some t \<longrightarrow> policy_cooldown_ms resp \<le> now - t)
    \<and> length (recent now (sel_switch_count_5min s)) < policy_max_switch resp
    \<and> policy_min_improvement resp \<le> (cp_score new - cp_score cur) / max (cp_score cur) (1 / 100)
    \<and> sel_last_switch_at (update_mesh_map now lk resp s) = Some now
    \<and> sel_switch_count_5min (update_mesh_map now lk resp s) = recent now (sel_switch_count_5min s) @ [now]"
proof -
  from assms obtain cur new where p: "sel_current_path s = Some cur"
    "sel_current_path (update_mesh_map now lk resp s) = Some new"
    "cp_upstream_node_id cur \<noteq> cp_upstream_node_id new" "\<not> upstream_offline resp"
    by (auto simp: voluntary_def split: option.splits)
  have cur: "sel_current_path (adopt_policy resp s) = Some cur" using p(1) by (simp add: adopt_policy_def)
  show ?thesis
  proof (cases rule: update_mesh_map_cases [of resp now lk s])
    case offline
    with p(4) show ?thesis by simp
  next
    case (stay ts)
    with p cur show ?thesis by simp
  next
    case (switch ts)
    then have sel: "select_from_candidates now lk (adopt_policy resp s) (candidate_upstreams resp) = Some new"
      using p(2) by (simp add: apply_path_switch_def)
    from check_hysteresis_switch [OF switch(3) [unfolded sel] cur] p switch(4) sel show ?thesis
      by (simp add: apply_path_switch_def adopt_policy_def)
  qed
qed

text \<open>A run of mesh-map updates, logging the times of the voluntary switches.\<close>

fun mesh_run :: "(nat \<times> lock_view \<times> mesh_map_response) list \<Rightarrow> cascade_selector \<Rightarrow> nat list \<times> cascade_selector" where
  "mesh_run [] s = ([], s)"
| "mesh_run ((now, lk, resp) # es) s =
     (let s' = update_mesh_map now lk resp s
      in case mesh_run es s' of (sws, s'') \<Rightarrow>
           (if voluntary resp s s' then now # sws else sws, s''))"

lemma mesh_run_snoc:
  "mesh_run (es @ [(now, lk, resp)]) s =
    (case mesh_run es s of (sws, s') \<Rightarrow>
       (if voluntary resp s' (update_mesh_map now lk resp s') then sws @ [now] else sws,
        update_mesh_map now lk resp s'))"
  by (induction es s rule: mesh_run.induct) (auto simp: Let_def split: prod.splits)

lemma update_keeps_recent:
  assumes "now \<le> t"
  shows "length (recent t (sel_switch_count_5min s)) \<le>
    length (recent t (sel_switch_count_5min (update_mesh_map now lk resp s)))"
proof -
  have keep: "recent t (recent now xs) = recent t xs" for xs
    using assms by (induction xs) auto
  show ?thesis
  proof (cases rule: update_mesh_map_cases [of resp now lk s])
    case offline
    then show ?thesis by (simp add: force_reselect_def apply_path_switch_def adopt_policy_def)
  next
    case (stay ts)
    then show ?thesis using keep by auto
  next
    case (switch ts)
    then show ?thesis using keep by (auto simp: apply_path_switch_def)
  qed
qed

lemma voluntary_pushes:
  assumes "voluntary resp s (update_mesh_map now lk resp s)" "now \<le> t"
  shows "length (recent t (sel_switch_count_5min (update_mesh_map now lk resp s))) =
    length (recent t (sel_switch_count_5min s @ [now]))"
proof -
  have keep: "recent t (recent now xs) = recent t xs" for xs
    using assms(2) by (induction xs) auto
  from voluntary_switch [OF assms(1)]
  have "sel_switch_count_5min (update_mesh_map now lk resp s) = recent now (sel_switch_count_5min s) @ [now]"
    by blast
  then show ?thesis by (simp only: filter_append keep)
qed

lemma mesh_run_log:
  "sorted (map fst es) \<Longrightarrow> mesh_run es s = (sws, s') \<Longrightarrow>
    (\<forall>u \<in> set sws. u \<in> set (map fst es))
    \<and> (\<forall>t. (\<forall>e \<in> set es. fst e \<le> t) \<longrightarrow> length (recent t sws) \<le> length (recent t (sel_switch_count_5min s')))"
proof (induction es arbitrary: sws s' rule: rev_induct)
  case (snoc e es)
  obtain now lk resp where e: "e = (now, lk, resp)" by (cases e) auto
  obtain sws1 s1 where 1: "mesh_run es s = (sws1, s1)" by (cases "mesh_run es s")
  have srt: "sorted (map fst es)" using snoc.prems(1) by (simp add: sorted_append)
  note ih = snoc.IH [OF srt 1]
  have s': "s' = update_mesh_map now lk resp s1"
    and sws: "sws = (if voluntary resp s1 s' then sws1 @ [now] else sws1)"
    using snoc.prems(2) 1 by (auto simp: e mesh_run_snoc)
  have "length (recent t sws) \<le> length (recent t (sel_switch_count_5min s'))"
    if t: "\<forall>x \<in> set (es @ [e]). fst x \<le> t" for t
  proof -
    have le: "length (recent t sws1) \<le> length (recent t (sel_switch_count_5min s1))" "now \<le> t"
      using ih t by (auto simp: e)
    show ?thesis
    proof (cases "voluntary resp s1 s'")
      case True
      with le voluntary_pushes [of resp s1 now lk t] show ?thesis by (simp add: sws s')
    next
      case False
      with le update_keeps_recent [of now t s1 lk resp] show ?thesis by (simp add: sws s')
    qed
  qed
  with ih show ?case by (auto simp: sws e)
qed simp

lemma mesh_run_window:
  assumes "sorted (map fst es)" "\<forall>(now, lk, resp) \<in> set es. policy_max_switch resp = m"
    and "mesh_run es s = (sws, s')"
  shows "length (filter (\<lambda>u. u \<le> t \<and> t < u + 300000) sws) \<le> m"
  using assms
proof (induction es arbitrary: sws s' rule: rev_induct)
  case (snoc e es)
  obtain now lk resp where e: "e = (now, lk, resp)" by (cases e) auto
  obtain sws1 s1 where 1: "mesh_run es s = (sws1, s1)" by (cases "mesh_run es s")
  have srt: "sorted (map fst es)" and last: "\<forall>x \<in> set es. fst x \<le> now"
    using snoc.prems(1) by (auto simp: sorted_append e)
  have s': "s' = update_mesh_map now lk resp s1"
    and sws: "sws = (if voluntary resp s1 s' then sws1 @ [now] else sws1)"
    using snoc.prems(3) 1 by (auto simp: e mesh_run_snoc)
  have ih: "length (filter (\<lambda>u. u \<le> t \<and> t < u + 300000) sws1) \<le> m"
    using snoc.IH [OF srt _ 1] snoc.prems(2) by auto
  show ?case
  proof (cases "voluntary resp s1 s' \<and> now \<le> t \<and> t < now + 300000")
    case False
    with ih show ?thesis by (auto simp: sws)
  next
    case True
    have "length (filter (\<lambda>u. u \<le> t \<and> t < u + 300000) sws1) \<le> length (recent now sws1)"
      using True by (induction sws1) auto
    also have "\<dots> \<le> length (recent now (sel_switch_count_5min s1))"
      using mesh_run_log [OF srt 1] last by blast
    also have "\<dots> < m"
      using voluntary_switch [of resp s1 now lk] True snoc.prems(2) by (auto simp: s' e)
    finally show ?thesis using True by (simp add: sws)
  qed
qed simp

section \<open>Properties\<close>

text \<open>
  C26: the selection. It returns nothing exactly when no candidate is eligible (allowed to
  cascade, with a URL, and past the loop guard whenever the guard's lock is free).
  Otherwise it returns the path of an eligible candidate whose score is maximal, the first
  such candidate on ties.
\<close>

theorem selection_correct:
  "(select_from_candidates now lk s cs = None \<longleftrightarrow> (\<forall>i < length cs. \<not> eligible (guard_free lk i) s (cs ! i)))
    \<and> (\<forall>p. select_from_candidates now lk s cs = Some p \<longrightarrow>
        (\<exists>i < length cs. eligible (guard_free lk i) s (cs ! i) \<and> p = path_of now s (probes_free lk i) (cs ! i)
          \<and> (\<forall>j < length cs. eligible (guard_free lk j) s (cs ! j) \<longrightarrow>
               cp_score (path_of now s (probes_free lk j) (cs ! j)) \<le> cp_score p
               \<and> (j < i \<longrightarrow> cp_score (path_of now s (probes_free lk j) (cs ! j)) < cp_score p))))"
proof (intro conjI allI impI)
  show "select_from_candidates now lk s cs = None \<longleftrightarrow> (\<forall>i < length cs. \<not> eligible (guard_free lk i) s (cs ! i))"
    by (rule select_None_iff)
  fix p assume "select_from_candidates now lk s cs = Some p"
  then obtain i where "i < length cs" "eligible (guard_free lk i) s (cs ! i)"
    "p = path_of now s (probes_free lk i) (cs ! i)"
    "\<And>j. j < length cs \<Longrightarrow> eligible (guard_free lk j) s (cs ! j) \<Longrightarrow>
       cp_score (path_of now s (probes_free lk j) (cs ! j)) \<le> cp_score p"
    "\<And>j. j < i \<Longrightarrow> eligible (guard_free lk j) s (cs ! j) \<Longrightarrow>
       cp_score (path_of now s (probes_free lk j) (cs ! j)) < cp_score p"
    by (rule select_Some) blast
  then show "\<exists>i < length cs. eligible (guard_free lk i) s (cs ! i) \<and> p = path_of now s (probes_free lk i) (cs ! i)
          \<and> (\<forall>j < length cs. eligible (guard_free lk j) s (cs ! j) \<longrightarrow>
               cp_score (path_of now s (probes_free lk j) (cs ! j)) \<le> cp_score p
               \<and> (j < i \<longrightarrow> cp_score (path_of now s (probes_free lk j) (cs ! j)) < cp_score p))"
    by blast
qed


text \<open>
  Each voluntary switch obeys the hysteresis: the cooldown since the last switch of
  any kind has passed, fewer than the maximum were made in the last five minutes, the
  score improves by the required share, and the switch is recorded. A change from or to
  the origin is under none of these limits.
\<close>

theorem voluntary_switch_obeys_hysteresis:
  assumes "voluntary resp s (update_mesh_map now lk resp s)"
  shows "\<exists>cur new. sel_current_path s = Some cur
    \<and> sel_current_path (update_mesh_map now lk resp s) = Some new
    \<and> (\<forall>t. sel_last_switch_at s = Some t \<longrightarrow> policy_cooldown_ms resp \<le> now - t)
    \<and> length (recent now (sel_switch_count_5min s)) < policy_max_switch resp
    \<and> policy_min_improvement resp \<le> (cp_score new - cp_score cur) / max (cp_score cur) (1 / 100)
    \<and> sel_last_switch_at (update_mesh_map now lk resp s) = Some now"
  using voluntary_switch [OF assms] by blast

text \<open>
  C27: an agent never selects itself. In any run of the selector (mesh maps, failure
  reports, mesh pings, in any order), as long as the guard's lock is not contended, the
  current upstream is another node and has a URL; and the failure counter stays between 0
  and 2, since the third consecutive failure always triggers the emergency switch.
\<close>

theorem never_upstream_of_itself:
  assumes "\<forall>x \<in> set ops. op_guarded x"
  shows "(case sel_current_path (fold selector_step ops (cascade_selector_new node region isp v6)) of
       None \<Rightarrow> True | Some p \<Rightarrow> cp_upstream_node_id p \<noteq> node \<and> cp_upstream_url p \<noteq> [])
    \<and> 0 \<le> sel_upstream_consecutive_fails (fold selector_step ops (cascade_selector_new node region isp v6))
    \<and> sel_upstream_consecutive_fails (fold selector_step ops (cascade_selector_new node region isp v6)) \<le> 2"
proof -
  have "sel_inv node (cascade_selector_new node region isp v6)"
    by (simp add: sel_inv_def cascade_selector_new_def loop_guard_new_def path_ok_def)
  moreover have "sel_inv node s \<Longrightarrow> sel_inv node (fold selector_step ops s)" for s
    using assms by (induction ops arbitrary: s) (simp_all add: selector_step_inv)
  ultimately have "sel_inv node (fold selector_step ops (cascade_selector_new node region isp v6))" by blast
  then show ?thesis unfolding sel_inv_def path_ok_def by blast
qed

text \<open>
  The emergency switch. From a counter at 0, the first two failure reports change
  nothing but the counter; the third reselects at once, outside every limit. But the
  selection does not look at the failures: its result is what the same candidates give
  without them, so a dead upstream that still scores best is chosen again.
\<close>

theorem third_failure_reselects:
  assumes "sel_upstream_consecutive_fails s = 0" and "sel_last_mesh_response s = Some resp"
  shows "sel_current_path (report_upstream_fail t2 lk2 (report_upstream_fail t1 lk1 s)) = sel_current_path s
    \<and> sel_current_path (report_upstream_fail t3 lk3
          (report_upstream_fail t2 lk2 (report_upstream_fail t1 lk1 s)))
        = select_from_candidates t3 lk3 s (candidate_upstreams resp)
    \<and> sel_last_switch_at (report_upstream_fail t3 lk3
          (report_upstream_fail t2 lk2 (report_upstream_fail t1 lk1 s))) = Some t3"
proof -
  let ?s1 = "s\<lparr>sel_upstream_consecutive_fails := 1\<rparr>" and ?s2 = "s\<lparr>sel_upstream_consecutive_fails := 2\<rparr>"
  have w: "i32_wrap 1 = 1" "i32_wrap 2 = 2" "i32_wrap 3 = 3"
    by (simp_all add: i32_wrap_def)
  have 1: "report_upstream_fail t1 lk1 s = ?s1" using assms(1) w by (simp add: report_upstream_fail_def)
  have 2: "report_upstream_fail t2 lk2 ?s1 = ?s2" using w by (simp add: report_upstream_fail_def)
  have "select_from_candidates t3 lk3 (s\<lparr>sel_upstream_consecutive_fails := 3\<rparr>) cs
      = select_from_candidates t3 lk3 s cs" for cs by (rule select_cong) simp_all
  with w assms(2) show ?thesis unfolding 1 2
    by (simp add: report_upstream_fail_def emergency_switch_def force_reselect_def apply_path_switch_def)
qed

text \<open>
  Scores are bounded. For a candidate whose children are between 0 and its maximum,
  the local score lies between 0.35 and 1.33; and with a hint between 0 and 100, whatever
  the probe says, the final score lies between 0 and 1.18.
\<close>

theorem scores_bounded:
  assumes "0 \<le> cu_current_children c" "cu_current_children c \<le> cu_max_children c"
    and "0 \<le> cu_score_hint c" "cu_score_hint c \<le> 100"
  shows "35 / 100 \<le> compute_local_score s c \<and> compute_local_score s c \<le> 133 / 100
    \<and> 0 \<le> final_score now s rtt c \<and> final_score now s rtt c \<le> 118 / 100"
proof -
  let ?ratio = "real_of_int (cu_current_children c) / real_of_int (cu_max_children c)"
  let ?s1 = "if cu_max_children c > 0 then 1 * (5 / 10 + 5 / 10 * (1 - ?ratio)) else 1"
  have r: "0 \<le> ?ratio" "?ratio \<le> 1" if "cu_max_children c > 0"
    using assms(1,2) that by (simp_all add: divide_le_eq_1)
  have gen: "1 / 2 \<le> 1 * (5 / 10 + 5 / 10 * (1 - q)) \<and> 1 * (5 / 10 + 5 / 10 * (1 - q)) \<le> 1"
    if "0 \<le> q" "q \<le> 1" for q :: real
    using that by (intro conjI) (simp_all add: field_simps)
  have "1 / 2 \<le> ?s1 \<and> ?s1 \<le> 1"
  proof (cases "cu_max_children c > 0")
    case True
    show ?thesis unfolding if_P [OF True] by (rule gen [OF r [OF True]])
  qed simp
  moreover define s1 where "s1 = ?s1"
  ultimately have s1: "1 / 2 \<le> s1" "s1 \<le> 1" by simp_all
  define s2 where "s2 = (if cu_bw_remaining_mbps c < 4 then s1 * (7 / 10) else s1)"
  have s2: "35 / 100 \<le> s2" "s2 \<le> 1" using s1 by (auto simp: s2_def)
  define s3 where "s3 = (if cu_tier c = 1 then s2 * (11 / 10) else s2)"
  have s3: "35 / 100 \<le> s3" "s3 \<le> 11 / 10" using s2 by (auto simp: s3_def)
  define s4 where "s4 = (if cu_region c = sel_region s \<and> cu_isp c = sel_isp s then s3 * (115 / 100)
                else if cu_region c = sel_region s then s3 * (105 / 100) else s3)"
  have s4: "35 / 100 \<le> s4" "s4 \<le> 11 / 10 * (115 / 100)" using s3 by (auto simp: s4_def)
  have cl: "compute_local_score s c = (if sel_has_ipv6 s \<and> cu_has_ipv6 c then s4 * (105 / 100) else s4)"
    unfolding compute_local_score_def Let_def s4_def s3_def s2_def s1_def by (rule refl)
  have l: "35 / 100 \<le> compute_local_score s c" "compute_local_score s c \<le> 1329 / 1000"
    using s4 by (auto simp: cl)
  have f: "7 / 10 \<le> rtt_factor rtt" "rtt_factor rtt \<le> 12 / 10"
    by (auto simp: rtt_factor_def split: option.split)
  have "0 \<le> compute_local_score s c * rtt_factor rtt" using l f by simp
  moreover have "compute_local_score s c * rtt_factor rtt \<le> 1329 / 1000 * (12 / 10)"
    using l f by (intro mult_mono) auto
  moreover define m where "m = compute_local_score s c * rtt_factor rtt"
  ultimately have m: "0 \<le> m" "m \<le> 16 / 10" by simp_all
  have "final_score now s rtt c = (cu_score_hint c * (7 / 10) + m * 100 * (3 / 10)) / 100"
    by (simp add: final_score_def m_def)
  with l m assms(3,4) show ?thesis by simp
qed

section \<open>Concrete inputs\<close>

definition demo_candidate :: "string \<Rightarrow> real \<Rightarrow> candidate_upstream" where
  "demo_candidate n h = \<lparr>cu_node_id = n, cu_url = ''http://'' @ n, cu_region = ''r'', cu_isp = ''i'',
     cu_tier = 1, cu_score_hint = h, cu_max_children = 8, cu_current_children = 0,
     cu_bw_remaining_mbps = 30, cu_allow_cascade = True, cu_has_ipv6 = False, cu_ipv6_url = []\<rparr>"

definition demo_map :: "candidate_upstream list \<Rightarrow> mesh_map_response" where
  "demo_map cs = \<lparr>mesh_epoch = 1, self_node_id = ''n'', mm_self_tier = 2, candidate_upstreams = cs,
     mm_origin_fallback = None, mm_policy = Some mesh_policy_default, mm_migration_advice = None\<rparr>"

definition demo_locks :: lock_view where
  "demo_locks = \<lparr>guard_free = (\<lambda>_. True), probes_free = (\<lambda>_. True)\<rparr>"

definition demo_selector :: cascade_selector where
  "demo_selector = cascade_selector_new ''n'' ''r'' ''i'' False"

definition demo_state :: cascade_selector where
  "demo_state = update_mesh_map 0 demo_locks (demo_map [demo_candidate ''a'' 40]) demo_selector"

lemmas demo_defs = demo_candidate_def demo_map_def demo_locks_def demo_selector_def
  cascade_selector_new_def loop_guard_new_def mesh_policy_default_def

lemmas selector_defs = update_mesh_map_def adopt_policy_def upstream_offline_def
  select_from_candidates_def eligible_def would_create_loop_def path_of_def final_score_def
  compute_local_score_def get_probe_rtt_sync_def fresh_rtt_def rtt_factor_def
  check_hysteresis_def apply_path_switch_def as_u64_def

lemma demo_select:
  "select_from_candidates now demo_locks s [c] =
     (if eligible True s c then Some (path_of now s True c) else None)"
  by (simp add: select_from_candidates_def demo_locks_def)

lemma demo_adopt: "adopt_policy (demo_map cs) demo_selector = demo_selector"
  by (simp add: adopt_policy_def demo_defs)

lemma demo_eligible: "h \<noteq> ''n'' \<Longrightarrow> sel_loop_guard s = sel_loop_guard demo_selector \<Longrightarrow>
  eligible g s (demo_candidate h x)"
  by (simp add: eligible_def would_create_loop_def demo_defs)

lemma demo_state_eq: "demo_state = demo_selector
  \<lparr>sel_current_path := Some (path_of 0 demo_selector True (demo_candidate ''a'' 40)),
   sel_last_switch_at := Some 0, sel_switch_count_5min := [0],
   sel_last_mesh_response := Some (demo_map [demo_candidate ''a'' 40])\<rparr>"
proof -
  have "candidate_upstreams (demo_map cs) = cs" "\<not> upstream_offline (demo_map cs)"
    "sel_current_path demo_selector = None" "sel_switch_count_5min demo_selector = []" for cs
    by (simp_all add: demo_defs upstream_offline_def)
  then show ?thesis
    by (simp add: demo_state_def update_mesh_map_def demo_adopt demo_select demo_eligible
        check_hysteresis_def apply_path_switch_def)
qed

lemma demo_state_path:
  "map_option cp_upstream_node_id (sel_current_path demo_state) = Some ''a''
   \<and> sel_last_mesh_response demo_state = Some (demo_map [demo_candidate ''a'' 40])
   \<and> sel_upstream_consecutive_fails demo_state = 0"
  by (simp add: demo_state_eq path_of_def demo_candidate_def Let_def)
    (simp add: demo_selector_def cascade_selector_new_def)

lemma demo_voluntary:
  "voluntary (demo_map [demo_candidate ''b'' 90]) demo_state
     (update_mesh_map 60000 demo_locks (demo_map [demo_candidate ''b'' 90]) demo_state)"
proof -
  let ?r = "demo_map [demo_candidate ''b'' 90]"
  let ?new = "path_of 60000 demo_state True (demo_candidate ''b'' 90)"
  have adopt: "adopt_policy ?r demo_state = demo_state"
    by (simp add: demo_state_eq) (simp add: adopt_policy_def demo_defs)
  have el: "eligible True demo_state (demo_candidate ''b'' 90)"
    by (rule demo_eligible) (simp_all add: demo_state_eq)
  have cur: "sel_current_path demo_state = Some (path_of 0 demo_selector True (demo_candidate ''a'' 40))"
    by (simp add: demo_state_eq)
  have ids: "cp_upstream_node_id ?new = ''b''"
    "cp_upstream_node_id (path_of 0 demo_selector True (demo_candidate ''a'' 40)) = ''a''"
    by (simp_all add: path_of_def demo_candidate_def Let_def)
  have pol: "mm_policy ?r = Some mesh_policy_default" "candidate_upstreams ?r = [demo_candidate ''b'' 90]"
    "\<not> upstream_offline ?r" by (simp_all add: demo_map_def upstream_offline_def)
  have sc: "cp_score (path_of 0 demo_selector True (demo_candidate ''a'' 40)) = 6595 / 10000"
    "cp_score ?new = 10095 / 10000"
    by (simp_all add: demo_state_eq demo_selector_def cascade_selector_new_def demo_candidate_def
        path_of_def final_score_def compute_local_score_def get_probe_rtt_sync_def fresh_rtt_def
        rtt_factor_def Let_def)
  have "fst (check_hysteresis 60000 (Some ?new) ?r demo_state)"
    by (simp add: check_hysteresis_def cur ids pol sc mesh_policy_default_def as_u64_def Let_def)
      (simp add: demo_state_eq as_u64_def)
  then have "sel_current_path (update_mesh_map 60000 demo_locks ?r demo_state) = Some ?new"
    by (simp add: update_mesh_map_def adopt pol demo_select el Let_def apply_path_switch_def
        case_prod_unfold)
  then show ?thesis by (simp add: voluntary_def pol cur ids)
qed

theorem selection_correct_witness:
  "\<exists>p. select_from_candidates 0 demo_locks demo_selector [demo_candidate ''a'' 40] = Some p
     \<and> (\<exists>i < 1. p = path_of 0 demo_selector (probes_free demo_locks i) ([demo_candidate ''a'' 40] ! i))"
proof -
  have "select_from_candidates 0 demo_locks demo_selector [demo_candidate ''a'' 40]
      = Some (path_of 0 demo_selector True (demo_candidate ''a'' 40))"
    by (simp add: demo_select demo_eligible)
  with selection_correct [of 0 demo_locks demo_selector "[demo_candidate ''a'' 40]"] show ?thesis
    by (metis One_nat_def length_Cons list.size(3))
qed


theorem voluntary_switch_obeys_hysteresis_witness:
  "sel_last_switch_at (update_mesh_map 60000 demo_locks (demo_map [demo_candidate ''b'' 90]) demo_state)
     = Some 60000"
  using voluntary_switch_obeys_hysteresis [OF demo_voluntary] by blast

theorem never_upstream_of_itself_witness:
  "sel_upstream_consecutive_fails (fold selector_step
     [OpMeshMap 0 demo_locks (demo_map [demo_candidate ''n'' 90]), OpUpstreamFail 5 demo_locks]
     (cascade_selector_new ''n'' ''r'' ''i'' False)) \<le> 2"
proof -
  have "\<forall>x \<in> set [OpMeshMap 0 demo_locks (demo_map [demo_candidate ''n'' 90]), OpUpstreamFail 5 demo_locks].
      op_guarded x" by (simp add: demo_locks_def)
  from never_upstream_of_itself [OF this, of "''n''" "''r''" "''i''" False] show ?thesis by blast
qed

theorem third_failure_reselects_witness:
  "sel_current_path (report_upstream_fail 3 demo_locks (report_upstream_fail 2 demo_locks
       (report_upstream_fail 1 demo_locks demo_state)))
     = select_from_candidates 3 demo_locks demo_state [demo_candidate ''a'' 40]"
  using third_failure_reselects [of demo_state "demo_map [demo_candidate ''a'' 40]" 2 demo_locks 1 demo_locks
      3 demo_locks] demo_state_path
  by (simp add: demo_map_def)

theorem scores_bounded_witness:
  "compute_local_score demo_selector (demo_candidate ''a'' 40) \<le> 133 / 100"
  using scores_bounded [of "demo_candidate ''a'' 40"] by (simp add: demo_candidate_def)

end
