(* ===== verification/Config.thy ===== *)
theory Config
  imports Rust_Str
begin

text \<open>
  The agent's configuration, agent-rust/src/config/mod.rs: defaults, the environment
  overrides of \<open>Config::load\<close>, normalisation, and the URLs built from it. Outside are the
  file system and the TOML parser (the argument \<open>file\<close>: what reading and parsing the file
  gives), the environment and the \<open>hostname\<close> command. The parsing of socket addresses by
  the standard library is left out; the strings it gets are modelled.
\<close>

record config =
  cfg_node_id :: string
  cfg_public_ip :: string
  cfg_public_ipv6 :: string
  cfg_port :: u16
  cfg_region :: string
  cfg_isp :: string
  cfg_bw_limit :: u64
  cfg_domain :: string
  cfg_protocol :: string
  cfg_ws_path :: string
  cfg_tls_enabled :: bool
  cfg_controller_url :: string
  cfg_reg_token :: string
  cfg_listen_addr :: string
  cfg_listen_ipv6 :: "string option"
  cfg_disguise_dir :: "string option"
  cfg_hb_interval_secs :: u64
  cfg_max_clients :: nat
  cfg_buffer_segments :: nat
  cfg_auto_update :: bool
  cfg_latency_mode :: string
  cfg_backup_origin_url :: "string option"
  cfg_origin_flv_url :: "string option"
  cfg_cascade_enabled :: bool
  cfg_cascade_upstream :: "string option"

text \<open>The default region and provider, two Chinese characters of three bytes each.\<close>

definition DEFAULT_NAME :: string where
  "DEFAULT_NAME = [CHR 0xE9, CHR 0xBB, CHR 0x98, CHR 0xE8, CHR 0xAE, CHR 0xA4]"

definition default_bw_limit :: u64 where "default_bw_limit = 10 * 1024 * 1024"
definition default_protocol :: string where "default_protocol = ''ws''"
definition default_ws_path :: string where "default_ws_path = ''/ws/live''"
definition default_listen :: string where "default_listen = '':9090''"
definition default_hb_interval :: u64 where "default_hb_interval = 5"
definition default_max_clients :: nat where "default_max_clients = 500"
definition default_buffer_segments :: nat where "default_buffer_segments = 30"
definition default_auto_update :: bool where "default_auto_update = True"
definition default_latency_mode :: string where "default_latency_mode = ''ultra''"

definition default_config :: config where
  "default_config = \<lparr>cfg_node_id = [], cfg_public_ip = ''127.0.0.1'', cfg_public_ipv6 = [],
     cfg_port = 9090, cfg_region = DEFAULT_NAME, cfg_isp = DEFAULT_NAME,
     cfg_bw_limit = default_bw_limit, cfg_domain = ''localhost'', cfg_protocol = default_protocol,
     cfg_ws_path = default_ws_path, cfg_tls_enabled = False,
     cfg_controller_url = ''http://controller:8080'', cfg_reg_token = ''change-me'',
     cfg_listen_addr = default_listen, cfg_listen_ipv6 = None, cfg_disguise_dir = None,
     cfg_hb_interval_secs = default_hb_interval, cfg_max_clients = default_max_clients,
     cfg_buffer_segments = default_buffer_segments, cfg_auto_update = default_auto_update,
     cfg_latency_mode = default_latency_mode, cfg_backup_origin_url = None,
     cfg_origin_flv_url = None, cfg_cascade_enabled = False, cfg_cascade_upstream = None\<rparr>"

section \<open>Normalisation and loading\<close>

definition normalize_optional_template :: "string option \<Rightarrow> string option" where
  "normalize_optional_template value =
     (case map_option (\<lambda>v. trim_end_char (str_trim v) (CHR ''/'')) value of
        Some v \<Rightarrow> if v \<noteq> [] then Some v else None
      | None \<Rightarrow> None)"

definition config_normalize :: "config \<Rightarrow> config" where
  "config_normalize c = c\<lparr>
     cfg_controller_url := trim_end_char (cfg_controller_url c) (CHR ''/''),
     cfg_backup_origin_url := normalize_optional_template (cfg_backup_origin_url c),
     cfg_origin_flv_url := normalize_optional_template (cfg_origin_flv_url c),
     cfg_cascade_upstream := normalize_optional_template (cfg_cascade_upstream c)\<rparr>"

text \<open>\<open>if let Ok(v) = env::var(name) { \<dots> }\<close>, one after the other.\<close>

definition override :: "(string \<Rightarrow> string option) \<Rightarrow> string \<Rightarrow> (string \<Rightarrow> config \<Rightarrow> config) \<Rightarrow> config \<Rightarrow> config" where
  "override env name upd c = (case env name of Some v \<Rightarrow> upd v c | None \<Rightarrow> c)"

definition apply_env :: "(string \<Rightarrow> string option) \<Rightarrow> config \<Rightarrow> config" where
  "apply_env env c0 =
     (let c1 = override env ''NODE_ID'' (\<lambda>v c. c\<lparr>cfg_node_id := v\<rparr>) c0;
          c2 = override env ''PUBLIC_IP'' (\<lambda>v c. c\<lparr>cfg_public_ip := v\<rparr>) c1;
          c3 = override env ''PUBLIC_IPV6'' (\<lambda>v c. c\<lparr>cfg_public_ipv6 := v\<rparr>) c2;
          c4 = override env ''PORT'' (\<lambda>v c. c\<lparr>cfg_port := (case parse_u16 v of Some p \<Rightarrow> p | None \<Rightarrow> 9090)\<rparr>) c3;
          c5 = override env ''REGION'' (\<lambda>v c. c\<lparr>cfg_region := v\<rparr>) c4;
          c6 = override env ''ISP'' (\<lambda>v c. c\<lparr>cfg_isp := v\<rparr>) c5;
          c7 = override env ''CONTROLLER_URL'' (\<lambda>v c. c\<lparr>cfg_controller_url := v\<rparr>) c6;
          c8 = override env ''REG_TOKEN'' (\<lambda>v c. c\<lparr>cfg_reg_token := v\<rparr>) c7;
          c9 = override env ''DOMAIN'' (\<lambda>v c. c\<lparr>cfg_domain := v\<rparr>) c8;
          c10 = override env ''CASCADE_ENABLED''
                  (\<lambda>v c. c\<lparr>cfg_cascade_enabled := (v = ''true'' \<or> v = ''1'')\<rparr>) c9
      in override env ''CASCADE_UPSTREAM'' (\<lambda>v c. c\<lparr>cfg_cascade_upstream := Some v\<rparr>) c10)"

text \<open>
  \<open>file\<close>: \<open>None\<close> when the path does not exist, else the error or the parsed configuration.
  \<open>hostname\<close>: the trimmed output of the command, or its failure. The outer \<open>None\<close> is the
  panic of slicing the host name inside a character.
\<close>

definition config_load :: "(string + config) option \<Rightarrow> (string \<Rightarrow> string option) \<Rightarrow> string option
    \<Rightarrow> (string + config) option" where
  "config_load file env hostname =
     (case (case file of Some r \<Rightarrow> r | None \<Rightarrow> Inr default_config) of
        Inl e \<Rightarrow> Some (Inl e)
      | Inr cfg0 \<Rightarrow>
          (let cfg = config_normalize (apply_env env cfg0)
           in if cfg_node_id cfg = [] then
                (let h = (case hostname of Some s \<Rightarrow> s | None \<Rightarrow> ''unknown'')
                 in case slice_to (min (length h) 16) h of
                      None \<Rightarrow> None
                    | Some t \<Rightarrow> Some (Inr (cfg\<lparr>cfg_node_id := ''edge-'' @ t\<rparr>)))
              else Some (Inr cfg)))"

section \<open>What is built from it\<close>

definition listen_addr_str :: "config \<Rightarrow> string" where
  "listen_addr_str c =
     (if str_starts_with (cfg_listen_addr c) '':'' then ''0.0.0.0'' @ cfg_listen_addr c
      else cfg_listen_addr c)"

definition listen_ipv6_str :: "config \<Rightarrow> string option" where
  "listen_ipv6_str c = map_option
     (\<lambda>v6. if str_starts_with v6 '':'' then ''[::0]'' @ v6 else v6) (cfg_listen_ipv6 c)"

definition STREAM_KEY :: string where "STREAM_KEY = ''{stream_key}''"

definition origin_hls_url :: "config \<Rightarrow> string \<Rightarrow> string" where
  "origin_hls_url c stream_key =
     trim_end_char (cfg_controller_url c) (CHR ''/'') @ ''/live/'' @ stream_key @ ''/stream.m3u8''"

definition controller_api_url :: "config \<Rightarrow> string \<Rightarrow> string" where
  "controller_api_url c path =
     trim_end_char (cfg_controller_url c) (CHR ''/'')
       @ (if str_starts_with path ''/'' then path else ''/'' @ path)"

definition origin_flv_url :: "config \<Rightarrow> string \<Rightarrow> string" where
  "origin_flv_url c stream_key =
     (case cfg_cascade_upstream c of
        Some upstream \<Rightarrow> str_replace upstream STREAM_KEY stream_key
      | None \<Rightarrow>
          (case cfg_origin_flv_url c of
             Some url \<Rightarrow> str_replace url STREAM_KEY stream_key
           | None \<Rightarrow> trim_end_char (cfg_controller_url c) (CHR ''/'') @ ''/live/'' @ stream_key @ ''.flv''))"

definition is_cascade_node :: "config \<Rightarrow> bool" where
  "is_cascade_node c \<longleftrightarrow> cfg_cascade_upstream c \<noteq> None"

definition is_cascade_relay :: "config \<Rightarrow> bool" where
  "is_cascade_relay c \<longleftrightarrow> cfg_cascade_enabled c"

section \<open>Facts\<close>

lemma trim_end_char_no: "trim_end_char s c = [] \<or> last (trim_end_char s c) \<noteq> c"
  using hd_dropWhile [of "\<lambda>x. x = c" "rev s"]
  by (cases "dropWhile (\<lambda>x. x = c) (rev s)") (auto simp: trim_end_char_def)

lemma trim_end_char_id: "s = [] \<or> last s \<noteq> c \<Longrightarrow> trim_end_char s c = s"
  by (cases s rule: rev_cases) (simp_all add: trim_end_char_def)

lemma trim_end_char_replicate: "trim_end_char (s @ replicate n c) c = trim_end_char s c"
  by (induction n) (simp_all add: trim_end_char_def replicate_app_Cons_same)

lemma trim_end_char_prefix: "prefix (trim_end_char s c) s"
  using suffix_dropWhile [of "\<lambda>x. x = c" "rev s"] by (simp add: trim_end_char_def suffix_to_prefix)

lemma str_trim_hd: "str_trim s \<noteq> [] \<Longrightarrow> \<not> is_ws (hd (str_trim s))"
proof -
  assume ne: "str_trim s \<noteq> []"
  let ?t = "dropWhile is_ws s"
  have "prefix (str_trim s) ?t"
    using suffix_dropWhile [of is_ws "rev ?t"] by (simp add: str_trim_def suffix_to_prefix)
  with ne obtain r where r: "?t = str_trim s @ r" by (auto simp: prefix_def)
  with ne have "?t \<noteq> []" "hd ?t = hd (str_trim s)" by simp_all
  with hd_dropWhile [of is_ws s] show ?thesis by simp
qed

text \<open>What a normalised template looks like.\<close>

definition template_ok :: "string \<Rightarrow> bool" where
  "template_ok v \<longleftrightarrow> v \<noteq> [] \<and> \<not> is_ws (hd v) \<and> last v \<noteq> CHR ''/''"

lemma normalize_template_ok: "normalize_optional_template value = Some v \<Longrightarrow> template_ok v"
proof -
  assume "normalize_optional_template value = Some v"
  then obtain w where w: "v = trim_end_char (str_trim w) (CHR ''/'')" "v \<noteq> []"
    by (auto simp: normalize_optional_template_def split: option.splits if_splits)
  with trim_end_char_prefix [of "str_trim w" "CHR ''/''"] obtain r where r: "str_trim w = v @ r"
    by (auto simp: prefix_def)
  with str_trim_hd [of w] w(2) have "\<not> is_ws (hd v)" by simp
  with w trim_end_char_no [of "str_trim w" "CHR ''/''"] show ?thesis by (auto simp: template_ok_def)
qed

text \<open>The override of a single field, out of the chain.\<close>

lemma override_keeps: "(\<And>v c. f (upd v c) = f c) \<Longrightarrow> f (override env n upd c) = f c"
  and override_sets: "(\<And>v c. f (upd v c) = g v) \<Longrightarrow>
    f (override env n upd c) = (case env n of Some v \<Rightarrow> g v | None \<Rightarrow> f c)"
  by (simp_all add: override_def split: option.split)

lemma apply_env_node_id: "cfg_node_id (apply_env env c) =
    (case env ''NODE_ID'' of Some v \<Rightarrow> v | None \<Rightarrow> cfg_node_id c)"
  by (simp cong: option.case_cong add: apply_env_def Let_def override_keeps [of cfg_node_id]
      override_sets [of cfg_node_id _ "\<lambda>v. v"])

lemma apply_env_port: "cfg_port (apply_env env c) = (case env ''PORT'' of
     Some v \<Rightarrow> (case parse_u16 v of Some p \<Rightarrow> p | None \<Rightarrow> 9090) | None \<Rightarrow> cfg_port c)"
  by (simp cong: option.case_cong add: apply_env_def Let_def override_keeps [of cfg_port]
      override_sets [of cfg_port _ "\<lambda>v. case parse_u16 v of Some p \<Rightarrow> p | None \<Rightarrow> 9090"])

lemma apply_env_upstream: "cfg_cascade_upstream (apply_env env c) =
    (case env ''CASCADE_UPSTREAM'' of Some v \<Rightarrow> Some v | None \<Rightarrow> cfg_cascade_upstream c)"
  by (simp cong: option.case_cong add: apply_env_def Let_def override_keeps [of cfg_cascade_upstream]
      override_sets [of cfg_cascade_upstream _ Some])

lemma apply_env_controller: "cfg_controller_url (apply_env env c) =
    (case env ''CONTROLLER_URL'' of Some v \<Rightarrow> v | None \<Rightarrow> cfg_controller_url c)"
  by (simp cong: option.case_cong add: apply_env_def Let_def override_keeps [of cfg_controller_url]
      override_sets [of cfg_controller_url _ "\<lambda>v. v"])

lemma apply_env_origin: "cfg_origin_flv_url (apply_env env c) = cfg_origin_flv_url c"
  by (simp cong: option.case_cong add: apply_env_def Let_def override_keeps [of cfg_origin_flv_url])

lemmas apply_env_fields = apply_env_node_id apply_env_port apply_env_upstream apply_env_controller
  apply_env_origin

text \<open>What a successful \<open>load\<close> returns.\<close>

lemma config_load_cases:
  assumes "config_load file env hostname = Some (Inr cfg)"
  obtains cfg0 where "file = None \<and> cfg0 = default_config \<or> file = Some (Inr cfg0)"
    and "cfg = (config_normalize (apply_env env cfg0))\<lparr>cfg_node_id := cfg_node_id cfg\<rparr>"
    and "cfg_node_id cfg \<noteq> []"
    and "cfg_node_id (apply_env env cfg0) \<noteq> [] \<Longrightarrow> cfg_node_id cfg = cfg_node_id (apply_env env cfg0)"
proof -
  obtain cfg0 where c0: "(case file of Some r \<Rightarrow> r | None \<Rightarrow> Inr default_config) = Inr cfg0"
    using assms by (auto simp: config_load_def split: sum.splits)
  let ?c = "config_normalize (apply_env env cfg0)"
  have id: "cfg_node_id ?c = cfg_node_id (apply_env env cfg0)" by (simp add: config_normalize_def)
  have "cfg = ?c\<lparr>cfg_node_id := cfg_node_id cfg\<rparr>" "cfg_node_id cfg \<noteq> []"
    "cfg_node_id ?c \<noteq> [] \<longrightarrow> cfg_node_id cfg = cfg_node_id ?c"
    using assms c0 by (auto simp: config_load_def Let_def split: if_splits option.splits)
  with c0 id that [of cfg0] show ?thesis by (auto split: option.splits)
qed

section \<open>Properties\<close>

text \<open>
  The configuration an agent starts with. After a successful load the node id is not
  empty, the controller URL does not end with a slash, and the origin and upstream
  templates are not empty, do not begin with white space or end with a slash. The
  environment wins over the file, and the file over the defaults: a non-empty
  \<open>NODE_ID\<close> is the node id; a \<open>PORT\<close> that is no port number gives 9090 whatever the file
  says; a blank \<open>CASCADE_UPSTREAM\<close> turns a configured cascade upstream off.
\<close>

theorem config_load_normal:
  assumes "config_load file env hostname = Some (Inr cfg)"
  shows "cfg_node_id cfg \<noteq> []
    \<and> (cfg_controller_url cfg = [] \<or> last (cfg_controller_url cfg) \<noteq> CHR ''/'')
    \<and> (\<forall>v. cfg_origin_flv_url cfg = Some v \<or> cfg_backup_origin_url cfg = Some v
          \<or> cfg_cascade_upstream cfg = Some v \<longrightarrow> template_ok v)
    \<and> (\<forall>v. env ''NODE_ID'' = Some v \<longrightarrow> v \<noteq> [] \<longrightarrow> cfg_node_id cfg = v)
    \<and> (\<forall>v. env ''PORT'' = Some v \<longrightarrow> parse_u16 v = None \<longrightarrow> cfg_port cfg = 9090)
    \<and> (env ''PORT'' = None \<longrightarrow> cfg_port cfg = (case file of Some (Inr c) \<Rightarrow> cfg_port c | _ \<Rightarrow> 9090))
    \<and> (\<forall>v. env ''CASCADE_UPSTREAM'' = Some v \<longrightarrow> (\<forall>c \<in> set v. is_ws c) \<longrightarrow> \<not> is_cascade_node cfg)"
  using assms
proof (rule config_load_cases)
  fix cfg0
  assume src: "file = None \<and> cfg0 = default_config \<or> file = Some (Inr cfg0)"
    and cfg: "cfg = (config_normalize (apply_env env cfg0))\<lparr>cfg_node_id := cfg_node_id cfg\<rparr>"
    and id: "cfg_node_id cfg \<noteq> []" "cfg_node_id (apply_env env cfg0) \<noteq> [] \<Longrightarrow>
      cfg_node_id cfg = cfg_node_id (apply_env env cfg0)"
  have fields: "cfg_port cfg = cfg_port (apply_env env cfg0)"
    "cfg_controller_url cfg = trim_end_char (cfg_controller_url (apply_env env cfg0)) (CHR ''/'')"
    "cfg_origin_flv_url cfg = normalize_optional_template (cfg_origin_flv_url (apply_env env cfg0))"
    "cfg_backup_origin_url cfg = normalize_optional_template (cfg_backup_origin_url (apply_env env cfg0))"
    "cfg_cascade_upstream cfg = normalize_optional_template (cfg_cascade_upstream (apply_env env cfg0))"
    by (subst cfg; simp add: config_normalize_def)+
  have blank: "normalize_optional_template (Some v) = None" if "\<forall>c \<in> set v. is_ws c" for v
  proof -
    have "str_trim v = []" using that by (simp add: str_trim_def dropWhile_eq_Nil_conv [THEN iffD2])
    then show ?thesis by (simp add: normalize_optional_template_def trim_end_char_def)
  qed
  have port: "cfg_port default_config = 9090" by (simp add: default_config_def)
  show ?thesis
  proof (intro conjI allI impI)
    show "template_ok v" if "cfg_origin_flv_url cfg = Some v \<or> cfg_backup_origin_url cfg = Some v
        \<or> cfg_cascade_upstream cfg = Some v" for v
      using that unfolding fields by (auto dest: normalize_template_ok)
    show "cfg_node_id cfg = v" if "env ''NODE_ID'' = Some v" "v \<noteq> []" for v
      using that id(2) by (simp add: apply_env_fields)
    show "\<not> is_cascade_node cfg" if "env ''CASCADE_UPSTREAM'' = Some v" "\<forall>c \<in> set v. is_ws c" for v
      using that blank by (simp add: is_cascade_node_def fields apply_env_fields)
  qed (use id src port trim_end_char_no in \<open>auto simp: fields apply_env_fields\<close>)
qed

theorem config_load_normal_witness:
  "\<exists>cfg. config_load None (\<lambda>n. if n = ''PORT'' then Some ''http'' else None) (Some ''box'') = Some (Inr cfg)
     \<and> cfg_node_id cfg = ''edge-box'' \<and> cfg_port cfg = 9090"
proof -
  let ?env = "\<lambda>n. if n = ''PORT'' then Some ''http'' else None"
  have id: "cfg_node_id (apply_env ?env default_config) = []"
    by (simp add: apply_env_fields) (simp add: default_config_def)
  then have "config_load None ?env (Some ''box'') =
      Some (Inr ((config_normalize (apply_env ?env default_config))\<lparr>cfg_node_id := ''edge-box''\<rparr>))"
    by (simp add: config_load_def Let_def config_normalize_def slice_to_def char_boundary_def)
  from config_load_normal [OF this] this show ?thesis
    by (simp add: parse_u16_def parse_nat_def digit_value_def)
qed

text \<open>
  The URLs built from the configuration do not depend on how slashes were written. A
  controller URL with any number of trailing slashes and a path with or without its
  leading slash give the same API URL, with one slash between the two; and the origin of a
  stream is the cascade upstream's template before the configured template before the
  controller's own address.
\<close>

theorem config_urls:
  assumes "cfg_controller_url c = base @ replicate n (CHR ''/'')" "base \<noteq> []" "last base \<noteq> CHR ''/''"
    and "p = [] \<or> hd p \<noteq> CHR ''/''"
  shows "controller_api_url c p = base @ ''/'' @ p
    \<and> controller_api_url c (''/'' @ p) = base @ ''/'' @ p
    \<and> origin_hls_url c key = base @ ''/live/'' @ key @ ''/stream.m3u8''
    \<and> (is_cascade_node c \<longrightarrow>
        origin_flv_url c key = str_replace (the (cfg_cascade_upstream c)) STREAM_KEY key)
    \<and> (\<not> is_cascade_node c \<longrightarrow> cfg_origin_flv_url c = None \<longrightarrow>
        origin_flv_url c key = base @ ''/live/'' @ key @ ''.flv'')"
  using assms
  by (auto simp: controller_api_url_def origin_hls_url_def origin_flv_url_def is_cascade_node_def
      str_starts_with_def trim_end_char_replicate trim_end_char_id prefix_def)

end
