(* ===== verification/Http_Request.thy ===== *)
theory Http_Request
  imports Flv_Session Rust_Str
begin

text \<open>
  What happens to a TCP connection before any relay is involved, agent-rust/src/main.rs:
  telling WebSocket, HTTP-FLV and plain HTTP apart (\<open>handle_connection\<close>), the stream key of
  a URL, and the head of \<open>handle_http_flv_connection\<close>, which reads the request line by line
  until a blank line. A line is what \<open>read_line\<close> returns, line ending included; \<open>None\<close> is an
  I/O error (or invalid UTF-8), and after the last line the peer has closed its side, where
  \<open>read_line\<close> keeps returning the empty string.
\<close>

section \<open>Kinds of connections\<close>

definition PEEK_SIZE :: nat where "PEEK_SIZE = 4096"

text \<open>The buffer is zero-filled, so what was not received reads as NUL.\<close>

definition peek_str :: "bytes \<Rightarrow> string" where
  "peek_str net_in = bytes_str (take PEEK_SIZE (net_in @ replicate PEEK_SIZE 0))"

definition is_flv_request :: "string \<Rightarrow> bool" where
  "is_flv_request s =
     (case str_lines s of
        line # _ \<Rightarrow> str_contains line ''.flv'' \<and> str_starts_with line ''GET''
          \<and> (str_contains line ''/live/'' \<or> str_contains line ''/cascade/'')
      | [] \<Rightarrow> False)"

datatype connection_kind = WebSocketConn | FlvConn | HttpConn

definition connection_kind :: "bytes \<Rightarrow> connection_kind" where
  "connection_kind net_in =
     (let s = peek_str net_in
      in if str_contains s ''Upgrade: websocket'' \<or> str_contains s ''Upgrade: WebSocket'' then WebSocketConn
         else if is_flv_request s then FlvConn
         else HttpConn)"

section \<open>The stream key\<close>

definition parse_stream_key_from_url :: "string \<Rightarrow> string" where
  "parse_stream_key_from_url request_line =
     (let parts = split_whitespace request_line
      in if length parts < 2 then []
         else
           let url = parts ! 1;
               path = trim_end_matches url ''.flv''
           in trim_start_matches (trim_start_matches path ''/live/'') ''/cascade/'')"

section \<open>The head of an HTTP-FLV request\<close>

definition is_blank_line :: "string \<Rightarrow> bool" where
  "is_blank_line line \<longleftrightarrow> line = [CR, NL] \<or> line = [NL]"

definition is_agent_header :: "string \<Rightarrow> bool" where
  "is_agent_header line \<longleftrightarrow> str_starts_with (str_lower line) ''x-livecdn-agent:''"

text \<open>The header loop: whether the pull comes from an agent, or the read error.\<close>

datatype header_result = HeadersRead bool | HeaderError

partial_function (option) read_headers :: "string option list \<Rightarrow> bool \<Rightarrow> header_result option" where
  "read_headers input is_cascade_pull =
     (case input of
        [] \<Rightarrow> read_headers [] is_cascade_pull
      | None # rest \<Rightarrow> Some HeaderError
      | Some line # rest \<Rightarrow>
          (if is_blank_line line then Some (HeadersRead is_cascade_pull)
           else read_headers rest (if is_agent_header line then True else is_cascade_pull)))"

definition http_403 :: string where
  "http_403 = ''HTTP/1.1 403 Forbidden'' @ CRLF @ ''Content-Length: 18'' @ CRLF @ CRLF
     @ ''Agent token required''"

definition http_404 :: string where
  "http_404 = ''HTTP/1.1 404 Not Found'' @ CRLF @ ''Content-Length: 9'' @ CRLF @ CRLF @ ''Not Found''"

text \<open>What the head decides: an error, a response that ends the connection, or the stream to serve.\<close>

datatype flv_request = ReadFailed | Respond string | Stream string bool

definition flv_request_head :: "string option list \<Rightarrow> flv_request option" where
  "flv_request_head input =
     (let (first, rest) = (case input of [] \<Rightarrow> (Some [], []) | l # ls \<Rightarrow> (l, ls))
      in case first of
           None \<Rightarrow> Some ReadFailed
         | Some request_line \<Rightarrow>
             (let stream_key = parse_stream_key_from_url request_line;
                  is_cascade_endpoint = str_contains request_line ''/cascade/''
              in case read_headers rest is_cascade_endpoint of
                   None \<Rightarrow> None
                 | Some HeaderError \<Rightarrow> Some ReadFailed
                 | Some (HeadersRead is_cascade_pull) \<Rightarrow>
                     Some (if is_cascade_endpoint \<and> \<not> is_cascade_pull then Respond http_403
                           else if stream_key = [] then Respond http_404
                           else Stream stream_key is_cascade_pull)))"

section \<open>The header loop\<close>

text \<open>The loop by its input: an error or a blank line ends it, the end of the input does not.\<close>

lemma read_headers_error [simp]: "read_headers (None # rest) c = Some HeaderError"
  by (subst read_headers.simps) simp

lemma read_headers_line [simp]:
  "read_headers (Some l # rest) c =
     (if is_blank_line l then Some (HeadersRead c)
      else read_headers rest (if is_agent_header l then True else c))"
  by (subst read_headers.simps) simp

definition ends_headers :: "string option \<Rightarrow> bool" where
  "ends_headers x = (case x of None \<Rightarrow> True | Some l \<Rightarrow> is_blank_line l)"

lemma read_headers_Some:
  assumes "read_headers input c = Some res"
  shows "\<exists>x \<in> set input. ends_headers x"
  using _ assms
proof (rule read_headers.raw_induct)
  fix rec :: "string option list \<Rightarrow> bool \<Rightarrow> header_result option" and xs b r
  assume ih: "\<And>ys d q. rec ys d = Some q \<Longrightarrow> \<exists>x \<in> set ys. ends_headers x"
    and run: "(case xs of [] \<Rightarrow> rec [] b | None # rest \<Rightarrow> Some HeaderError
        | Some line # rest \<Rightarrow>
            (if is_blank_line line then Some (HeadersRead b)
             else rec rest (if is_agent_header line then True else b))) = Some r"
  show "\<exists>x \<in> set xs. ends_headers x"
  proof (cases xs)
    case Nil
    with run ih [of "[]"] show ?thesis by auto
  next
    case (Cons x rest)
    show ?thesis
    proof (cases "ends_headers x")
      case False
      then obtain l where "x = Some l" "\<not> is_blank_line l" by (auto simp: ends_headers_def split: option.splits)
      with run Cons ih show ?thesis by auto
    qed (simp add: Cons)
  qed
qed

lemma read_headers_end [simp]: "read_headers [] c = None"
  using read_headers_Some [of "[]" c] by (cases "read_headers [] c") auto

text \<open>Header lines in front of the one that ends the loop.\<close>

lemma read_headers_lines:
  "\<forall>h \<in> set hs. \<not> is_blank_line h \<Longrightarrow>
   read_headers (map Some hs @ rest) c = read_headers rest (c \<or> (\<exists>h \<in> set hs. is_agent_header h))"
  by (induction hs arbitrary: c) auto

lemma ends_headers_split:
  assumes "\<exists>x \<in> set input. ends_headers x"
  obtains hs x rest where "input = map Some hs @ x # rest" "\<forall>h \<in> set hs. \<not> is_blank_line h" "ends_headers x"
proof -
  from split_list_first_prop [OF assms] obtain ys x zs where
    ys: "input = ys @ x # zs" "ends_headers x" "\<forall>y \<in> set ys. \<not> ends_headers y" by blast
  have "ys = map Some (map the ys)" "\<forall>h \<in> set (map the ys). \<not> is_blank_line h"
    using ys(3) by (auto simp: ends_headers_def map_idI split: option.splits)
  with ys that [of "map the ys" x zs] show ?thesis by simp
qed

lemma read_headers_cases:
  obtains (stuck) "\<forall>x \<in> set input. \<not> ends_headers x" "read_headers input c = None"
  | (error) "read_headers input c = Some HeaderError" "\<exists>x \<in> set input. ends_headers x"
  | (read) b where "read_headers input c = Some (HeadersRead b)" "c \<longrightarrow> b" "\<exists>x \<in> set input. ends_headers x"
proof (cases "\<exists>x \<in> set input. ends_headers x")
  case True
  then obtain hs x rest where i: "input = map Some hs @ x # rest" "\<forall>h \<in> set hs. \<not> is_blank_line h"
    "ends_headers x" by (rule ends_headers_split)
  from i(3) show ?thesis
    using error read True read_headers_lines [OF i(2), of "x # rest" c]
    by (cases x) (auto simp: i(1) ends_headers_def)
next
  case False
  then have "read_headers input c = None" using read_headers_Some [of input c] by (cases "read_headers input c") auto
  with False stuck show ?thesis by blast
qed

section \<open>White space splitting\<close>

lemma split_ws_word:
  assumes "\<forall>c \<in> set w. \<not> is_ws c" "is_ws s"
  shows "split_whitespace (w @ s # rest) = (if w = [] then [] else [w]) @ split_whitespace rest"
proof -
  have "map (\<lambda>c. if is_ws c then CR else c) w = w" using assms(1) by (simp add: map_idI)
  moreover have "CR \<notin> set w" using assms(1) by (auto simp: is_ws_def CR_def)
  ultimately show ?thesis using assms(2) by (simp add: split_whitespace_def split_on_append)
qed

lemma request_line_parts:
  assumes "\<forall>c \<in> set w. \<not> is_ws c" "w \<noteq> []" "\<forall>c \<in> set v. \<not> is_ws c" "v \<noteq> []"
  shows "\<exists>ps. split_whitespace (w @ '' '' @ v @ '' '' @ rest) = w # v # ps"
proof -
  have sp: "is_ws CHR '' ''" by (simp add: is_ws_def)
  show ?thesis using split_ws_word [OF assms(1) sp] split_ws_word [OF assms(3) sp] assms(2,4) by simp
qed

text \<open>A suffix cannot straddle a character it does not contain.\<close>

lemma suffix_no_straddle:
  assumes "suffix w (p @ c # q)" "c \<notin> set w"
  shows "suffix w q"
proof -
  have "suffix (c # q) (p @ c # q)" by (simp add: suffixI)
  with assms(1) consider "suffix w (c # q)" | "suffix (c # q) w" using suffix_same_cases by blast
  then show ?thesis
  proof cases
    case 1
    with assms(2) show ?thesis by (auto simp: suffix_Cons)
  next
    case 2
    with assms(2) show ?thesis by (auto simp: suffix_def)
  qed
qed

lemma prefix_no_straddle: "prefix w (p @ c # q) \<Longrightarrow> c \<notin> set w \<Longrightarrow> prefix w p"
  by (auto simp: prefix_append prefix_Cons)

lemma flv_suffix_key: "\<not> suffix ''.flv'' key \<Longrightarrow> \<not> suffix ''.flv'' (p @ CHR ''/'' # key)"
  using suffix_no_straddle [of "''.flv''" p "CHR ''/''" key] by auto

lemma stream_key_of_line:
  assumes "\<forall>c \<in> set url. \<not> is_ws c" "url \<noteq> []"
  shows "parse_stream_key_from_url (''GET '' @ url @ '' '' @ rest) =
    trim_start_matches (trim_start_matches (trim_end_matches url ''.flv'') ''/live/'') ''/cascade/''"
proof -
  have "\<forall>c \<in> set ''GET''. \<not> is_ws c" by (simp add: is_ws_def)
  from request_line_parts [OF this _ assms, of rest] show ?thesis
    by (auto simp: parse_stream_key_from_url_def Let_def)
qed

lemma stream_key_live:
  assumes "\<forall>c \<in> set key. \<not> is_ws c" "\<not> suffix ''.flv'' key" "\<not> prefix ''/live/'' key" "\<not> prefix ''/cascade/'' key"
  shows "parse_stream_key_from_url (''GET /live/'' @ key @ ''.flv HTTP/1.1'' @ eol) = key"
proof -
  have "trim_end_matches (''/live/'' @ key @ ''.flv'') ''.flv'' = ''/live/'' @ key"
    using trim_end_suffix [of "''.flv''" "''/live/'' @ key"] flv_suffix_key [OF assms(2), of "''/live''"]
    by (simp add: trim_end_absent)
  then show ?thesis
    using stream_key_of_line [of "''/live/'' @ key @ ''.flv''" "''HTTP/1.1'' @ eol"] assms(1,3,4)
      trim_start_prefix [of "''/live/''" key]
    by (auto simp: is_ws_def trim_start_absent)
qed

lemma stream_key_cascade:
  assumes "\<forall>c \<in> set key. \<not> is_ws c" "\<not> suffix ''.flv'' key" "\<not> prefix ''/cascade/'' key"
  shows "parse_stream_key_from_url (''GET /cascade/'' @ key @ ''.flv HTTP/1.1'' @ eol) = key"
proof -
  have "trim_end_matches (''/cascade/'' @ key @ ''.flv'') ''.flv'' = ''/cascade/'' @ key"
    using trim_end_suffix [of "''.flv''" "''/cascade/'' @ key"] flv_suffix_key [OF assms(2), of "''/cascade''"]
    by (simp add: trim_end_absent)
  then show ?thesis
    using stream_key_of_line [of "''/cascade/'' @ key @ ''.flv''" "''HTTP/1.1'' @ eol"] assms(1,3)
      trim_start_prefix [of "''/cascade/''" key]
    by (auto simp: is_ws_def trim_start_absent)
qed

lemma stream_key_query:
  assumes "\<forall>c \<in> set key. \<not> is_ws c" "\<not> prefix ''/live/'' key" "\<not> prefix ''/cascade/'' key"
    and "\<forall>c \<in> set query. \<not> is_ws c" "\<not> suffix ''.flv'' query"
  shows "parse_stream_key_from_url (''GET /live/'' @ key @ ''.flv?'' @ query @ '' HTTP/1.1'' @ eol)
    = key @ ''.flv?'' @ query"
proof -
  have "\<not> suffix ''.flv'' (''/live/'' @ key @ ''.flv?'' @ query)"
    using suffix_no_straddle [of "''.flv''" "''/live/'' @ key @ ''.flv''" "CHR ''?''" query] assms(5) by auto
  note q = trim_end_absent [OF this]
  have "\<not> prefix ''/live/'' (key @ ''.flv?'' @ query)"
    using prefix_no_straddle [of "''/live/''" key "CHR ''.''" "''flv?'' @ query"] assms(2) by auto
  moreover have "\<not> prefix ''/cascade/'' (key @ ''.flv?'' @ query)"
    using prefix_no_straddle [of "''/cascade/''" key "CHR ''.''" "''flv?'' @ query"] assms(3) by auto
  ultimately show ?thesis
    using stream_key_of_line [of "''/live/'' @ key @ ''.flv?'' @ query" "''HTTP/1.1'' @ eol"] assms(1,4)
      trim_start_prefix [of "''/live/''" "key @ ''.flv?'' @ query"] q
    by (auto simp: is_ws_def trim_start_absent)
qed

text \<open>A request whose headers end with a blank line.\<close>

lemma request_head_lines:
  assumes "\<forall>h \<in> set hs. \<not> is_blank_line h"
  shows "flv_request_head (Some line # map Some hs @ Some [CR, NL] # rest) = Some
    (if parse_stream_key_from_url line = [] then Respond http_404
     else Stream (parse_stream_key_from_url line)
       (str_contains line ''/cascade/'' \<or> (\<exists>h \<in> set hs. is_agent_header h)))"
proof -
  have "read_headers (map Some hs @ Some [CR, NL] # rest) c =
      Some (HeadersRead (c \<or> (\<exists>h \<in> set hs. is_agent_header h)))" for c
    unfolding read_headers_lines [OF assms] by (simp add: is_blank_line_def)
  then show ?thesis by (auto simp: flv_request_head_def Let_def)
qed

section \<open>Properties\<close>

text \<open>
  The stream key of a well-formed request. For a key without white space that neither
  ends in \<open>.flv\<close> nor begins like an endpoint, both endpoints give back exactly the key. With
  a query string the \<open>.flv\<close> is no longer at the end, so suffix and query stay in the key:
  such a viewer is given a stream of its own.
\<close>

theorem stream_key_roundtrip:
  assumes "\<forall>c \<in> set key. \<not> is_ws c" "\<not> suffix ''.flv'' key" "\<not> prefix ''/live/'' key" "\<not> prefix ''/cascade/'' key"
    and "\<forall>c \<in> set query. \<not> is_ws c" "\<not> suffix ''.flv'' query"
  shows "parse_stream_key_from_url (''GET /live/'' @ key @ ''.flv HTTP/1.1'' @ eol) = key
    \<and> parse_stream_key_from_url (''GET /cascade/'' @ key @ ''.flv HTTP/1.1'' @ eol) = key
    \<and> parse_stream_key_from_url (''GET /live/'' @ key @ ''.flv?'' @ query @ '' HTTP/1.1'' @ eol)
        = key @ ''.flv?'' @ query"
  by (intro conjI stream_key_live stream_key_cascade stream_key_query assms)

theorem stream_key_roundtrip_witness:
  "parse_stream_key_from_url (''GET /live/'' @ ''room1'' @ ''.flv HTTP/1.1'' @ [CR, NL]) = ''room1''"
proof -
  have "\<forall>c \<in> set ''room1''. \<not> is_ws c" "\<forall>c \<in> set ''t=1''. \<not> is_ws c" by (simp_all add: is_ws_def)
  moreover have "\<not> suffix ''.flv'' ''room1''" "\<not> suffix ''.flv'' ''t=1''"
    by (simp_all add: suffix_to_prefix)
  moreover have "\<not> prefix ''/live/'' ''room1''" "\<not> prefix ''/cascade/'' ''room1''" by simp_all
  ultimately show ?thesis by (intro stream_key_roundtrip [of "''room1''" "''t=1''", THEN conjunct1]) simp_all
qed

text \<open>
  C34: the head of an HTTP-FLV request. The header loop ends exactly when a blank line or a
  read error comes; when the peer closes its side before either, \<open>read_line\<close> returns the
  empty string for ever, no test matches it, and the loop never returns. When it ends
  with a blank line, a request whose key is empty gets 404 and every other one its stream;
  the pull counts as a cascade pull when the endpoint is \<open>/cascade/\<close> or an agent header was
  sent. The 403 answer to a viewer on the agents' endpoint is never given: the flag it
  tests starts out true on that endpoint.
\<close>

theorem flv_request_head_decides:
  "(flv_request_head (Some line # input) = None \<longleftrightarrow> (\<forall>x \<in> set input. \<not> ends_headers x))
    \<and> (\<forall>hs rest. input = map Some hs @ Some [CR, NL] # rest \<longrightarrow> (\<forall>h \<in> set hs. \<not> is_blank_line h) \<longrightarrow>
        flv_request_head (Some line # input) = Some
          (if parse_stream_key_from_url line = [] then Respond http_404
           else Stream (parse_stream_key_from_url line)
             (str_contains line ''/cascade/'' \<or> (\<exists>h \<in> set hs. is_agent_header h))))
    \<and> flv_request_head (Some line # input) \<noteq> Some (Respond http_403)"
proof (intro conjI allI impI)
  have head: "flv_request_head (Some line # input) =
      (case read_headers input (str_contains line ''/cascade/'') of
         None \<Rightarrow> None
       | Some HeaderError \<Rightarrow> Some ReadFailed
       | Some (HeadersRead c) \<Rightarrow>
           Some (if str_contains line ''/cascade/'' \<and> \<not> c then Respond http_403
                 else if parse_stream_key_from_url line = [] then Respond http_404
                 else Stream (parse_stream_key_from_url line) c))"
    by (simp add: flv_request_head_def Let_def)
  show "flv_request_head (Some line # input) = None \<longleftrightarrow> (\<forall>x \<in> set input. \<not> ends_headers x)"
    by (cases rule: read_headers_cases [of input "str_contains line ''/cascade/''"]) (auto simp: head)
  show "flv_request_head (Some line # input) \<noteq> Some (Respond http_403)"
    by (cases rule: read_headers_cases [of input "str_contains line ''/cascade/''"])
      (auto simp: head http_403_def http_404_def)
next
  fix hs rest
  assume "input = map Some hs @ Some [CR, NL] # rest" "\<forall>h \<in> set hs. \<not> is_blank_line h"
  then show "flv_request_head (Some line # input) = Some
      (if parse_stream_key_from_url line = [] then Respond http_404
       else Stream (parse_stream_key_from_url line)
         (str_contains line ''/cascade/'' \<or> (\<exists>h \<in> set hs. is_agent_header h)))"
    by (simp only: request_head_lines)
qed

theorem flv_request_head_decides_witness:
  "flv_request_head [Some (''GET /live/room1.flv HTTP/1.1'' @ [CR, NL]), Some (''Host: a'' @ [CR, NL])] = None"
  using flv_request_head_decides [of "''GET /live/room1.flv HTTP/1.1'' @ [CR, NL]" "[Some (''Host: a'' @ [CR, NL])]"]
  by (auto simp: ends_headers_def is_blank_line_def)

end
