(* ===== verification/Write_Once.thy ===== *)
theory Write_Once
  imports Main
begin

text \<open>
  The contract of the tables that are only ever filled: the transport registry and the
  agent's two relay tables. An operation may ask for a key; a missing key gets a value
  made on the spot (unless the making fails), a present one keeps its value, and no
  operation removes a key. What
  the users of such a table rely on is proved here once.
\<close>

locale write_once =
  fixes look :: "'s \<Rightarrow> 'k \<Rightarrow> 'v option"
    and step :: "'o \<Rightarrow> 's \<Rightarrow> 's"
    and wants :: "'o \<Rightarrow> 'k option"
    and make :: "'o \<Rightarrow> 's \<Rightarrow> 'v option"
  assumes step_look:
    "look (step x s) k = (if wants x = Some k \<and> look s k = None then make x s else look s k)"
begin

lemma kept: "look s k = Some v \<Longrightarrow> look (fold step xs s) k = Some v"
  by (induction xs arbitrary: s) (simp_all add: step_look)

lemma untouched: "\<forall>x \<in> set xs. wants x \<noteq> Some k \<Longrightarrow> look (fold step xs s) k = look s k"
  by (induction xs arbitrary: s) (simp_all add: step_look)

text \<open>The first operation that asks for a key and gets it decides its value for good.\<close>

lemma first_decides:
  assumes "look s k = None" "\<forall>y \<in> set xs. wants y \<noteq> Some k" "wants x = Some k"
    and "make x (fold step xs s) = Some v"
  shows "look (fold step (xs @ x # ys) s) k = Some v"
proof -
  have "look (step x (fold step xs s)) k = Some v"
    using assms by (simp add: step_look untouched)
  from kept [OF this, of ys] show ?thesis by simp
qed

lemma keys:
  "{k. look (fold step xs s) k \<noteq> None} \<subseteq> {k. look s k \<noteq> None} \<union> {k. \<exists>x \<in> set xs. wants x = Some k}"
proof (induction xs arbitrary: s)
  case (Cons x xs)
  have "{k. look (step x s) k \<noteq> None} \<subseteq> {k. look s k \<noteq> None} \<union> {k. wants x = Some k}"
    by (auto simp: step_look)
  with Cons.IH [of "step x s"] show ?case by auto
qed simp

end

end
