(* ===== verification/Agent.thy ===== *)
theory Agent
  imports Encrypted_Session Cascade Config Http_Request Write_Once
begin

text \<open>
  The agent itself, agent-rust/src/main.rs: the shared state \<open>AppState\<close> with its two relay
  tables, the lookup that creates a relay on first use, the connection handlers put
  together from their parts, and the steps of the running agent. The write locks of the
  tables make each lookup atomic. JSON parsing of the handshake is an argument. A log line
  slices the stream key after eight bytes; when that cuts a character it panics (the lines
  are at the default level). The crate is built with \<open>panic = "abort"\<close>: a panic in any task
  ends the process, and with it every stream of the node.
\<close>

section \<open>State\<close>

record agent =
  ag_config :: config
  ag_relays :: "(string, stream_relay) map"
  ag_flv_relays :: "(string, flv_puller) map"
  ag_selector :: cascade_selector

definition agent_new :: "config \<Rightarrow> agent" where
  "agent_new c = \<lparr>ag_config = c, ag_relays = Map.empty, ag_flv_relays = Map.empty,
     ag_selector = cascade_selector_new (cfg_node_id c) (cfg_region c) (cfg_isp c)
       (cfg_public_ipv6 c \<noteq> [])\<rparr>"

definition log_prefix :: "nat \<Rightarrow> string \<Rightarrow> string option" where
  "log_prefix n s = slice_to (min n (length s)) s"

section \<open>Relays on demand\<close>

definition flv_source :: "string \<Rightarrow> agent \<Rightarrow> string" where
  "flv_source stream_key st =
     (case current_upstream_url (ag_selector st) of
        Some upstream \<Rightarrow> str_replace upstream STREAM_KEY stream_key
      | None \<Rightarrow> origin_flv_url (ag_config st) stream_key)"

text \<open>\<open>None\<close>: the log line of the cascade branch panics. Nothing else in it can fail.\<close>

definition get_or_create_flv_relay :: "string \<Rightarrow> agent \<Rightarrow> (flv_puller \<times> agent) option" where
  "get_or_create_flv_relay stream_key st =
     (case ag_flv_relays st stream_key of
        Some relay \<Rightarrow> Some (relay, st)
      | None \<Rightarrow>
          (let cascade_url = current_upstream_url (ag_selector st);
               logged = (case cascade_url of
                  Some upstream \<Rightarrow> log_prefix 8 stream_key \<noteq> None \<and> log_prefix 20 upstream \<noteq> None
                | None \<Rightarrow> True)
           in if \<not> logged then None
              else
                let flv_url = flv_source stream_key st;
                    backup_url = map_option (\<lambda>url. str_replace url STREAM_KEY stream_key)
                      (cfg_backup_origin_url (ag_config st));
                    relay = snd (puller_start (puller_with_backup stream_key flv_url backup_url
                      (cfg_max_clients (ag_config st))))
                in Some (relay, st\<lparr>ag_flv_relays := (ag_flv_relays st)(stream_key \<mapsto> relay)\<rparr>)))"

definition get_or_create_relay :: "crypto_error + key_info \<Rightarrow> string \<Rightarrow> agent
    \<Rightarrow> (crypto_error + stream_relay) \<times> agent" where
  "get_or_create_relay new_key stream_key st =
     (case ag_relays st stream_key of
        Some relay \<Rightarrow> (Inr relay, st)
      | None \<Rightarrow>
          (case new_key of
             Inl e \<Rightarrow> (Inl e, st)
           | Inr ki \<Rightarrow>
               (let relay = snd (relay_start (stream_relay_new stream_key
                      (origin_hls_url (ag_config st) stream_key) ki
                      (cfg_max_clients (ag_config st)) (cfg_buffer_segments (ag_config st))))
                in (Inr relay, st\<lparr>ag_relays := (ag_relays st)(stream_key \<mapsto> relay)\<rparr>))))"

section \<open>Connections\<close>

text \<open>
  How handling a connection ends: never, with the abort of the process, or by returning; what
  it wrote, and the state it leaves where there is one.
\<close>

datatype 'a connection_end = Hangs | Aborts "bytes list" | Ends "bytes list" 'a

definition put_flv :: "string \<Rightarrow> flv_puller \<Rightarrow> agent \<Rightarrow> agent" where
  "put_flv key r st = st\<lparr>ag_flv_relays := (ag_flv_relays st)(key \<mapsto> r)\<rparr>"

definition put_relay :: "string \<Rightarrow> stream_relay \<Rightarrow> agent \<Rightarrow> agent" where
  "put_relay key r st = st\<lparr>ag_relays := (ag_relays st)(key \<mapsto> r)\<rparr>"

text \<open>
  \<open>handle_http_flv_connection\<close>. Two of its log lines come after \<open>add_client\<close>: one for a
  cascade pull behind the response header, one behind the start-up tags. (The one at the end
  of a connection cuts the same key; where it would panic, the pull task of the stream has
  done so before, see \<open>TaskStart\<close> below.)
\<close>

definition http_flv_connection :: "(nat \<Rightarrow> bool) \<Rightarrow> string option list \<Rightarrow> rx_result list \<Rightarrow> agent
    \<Rightarrow> agent connection_end" where
  "http_flv_connection wr input rx st =
     (case flv_request_head input of
        None \<Rightarrow> Hangs
      | Some ReadFailed \<Rightarrow> Ends [] st
      | Some (Respond resp) \<Rightarrow> Ends (if wr 0 then [ascii resp] else []) st
      | Some (Stream stream_key is_cascade_pull) \<Rightarrow>
          (case get_or_create_flv_relay stream_key st of
             None \<Rightarrow> Aborts []
           | Some (relay, st1) \<Rightarrow>
               (let cascade = (cfg_cascade_enabled (ag_config st) \<or> is_cascade_pull);
                    s = http_flv_session wr cascade relay rx;
                    (admitted, r) = puller_add_client relay;
                    tags = puller_get_startup_tags relay
                in if log_prefix 8 stream_key = None \<and> admitted \<and> is_cascade_pull \<and> wr 0 then
                     Aborts [ascii (flv_response_header cascade)]
                   else if log_prefix 8 stream_key = None \<and> admitted \<and> tags \<noteq> [] \<and> wr 0 \<and> wr 1 \<and> wr 2 then
                     Aborts [ascii (flv_response_header cascade), build_flv_header, startup_buffer tags]
                   else Ends (ss_written s) (put_flv stream_key (ss_relay s) st1))))"

text \<open>
  The first WebSocket message: \<open>parse\<close> is \<open>serde_json\<close>, giving the string fields
  \<open>stream_key\<close> and \<open>mode\<close> of the value, where present.
\<close>

datatype ws_first = NoMessage | NotText | TextMessage string

datatype ws_route = WsFailed | WsIgnored | WsMissingKey | WsFlv string | WsEncrypted string

definition ws_handshake :: "(string \<Rightarrow> (string option \<times> string option) option) \<Rightarrow> ws_first \<Rightarrow> ws_route" where
  "ws_handshake parse first =
     (case first of
        NoMessage \<Rightarrow> WsIgnored
      | NotText \<Rightarrow> WsFailed
      | TextMessage txt \<Rightarrow>
          (case parse txt of
             None \<Rightarrow> WsFailed
           | Some (key, mode) \<Rightarrow>
               (let stream_key = (case key of Some k \<Rightarrow> k | None \<Rightarrow> []);
                    flv_mode = ((case mode of Some m \<Rightarrow> m | None \<Rightarrow> ''encrypted'') = ''flv'')
                in if stream_key = [] then WsMissingKey
                   else if flv_mode then WsFlv stream_key
                   else WsEncrypted stream_key)))"

definition ws_missing_key_message :: string where
  "ws_missing_key_message = CHR 0x7B # CHR 0x22 # ''error'' @ CHR 0x22 # CHR 0x3A # CHR 0x22
     # ''missing stream_key'' @ [CHR 0x22, CHR 0x7D]"

definition ws_connection :: "(nat \<Rightarrow> bool) \<Rightarrow> bool \<Rightarrow> ws_route \<Rightarrow> crypto_error + key_info
    \<Rightarrow> rx_result list \<Rightarrow> chunk_rx list \<Rightarrow> agent \<Rightarrow> agent connection_end" where
  "ws_connection wr peer_closed route new_key rx chunks st =
     (case route of
        WsFailed \<Rightarrow> Ends [] st
      | WsIgnored \<Rightarrow> Ends [] st
      | WsMissingKey \<Rightarrow> Ends (if wr 0 then [ascii ws_missing_key_message] else []) st
      | WsFlv stream_key \<Rightarrow>
          (case get_or_create_flv_relay stream_key st of
             None \<Rightarrow> Aborts []
           | Some (relay, st1) \<Rightarrow>
               (let (admitted, r) = puller_add_client relay;
                    s = ws_flv_session wr peer_closed relay rx
                in if log_prefix 8 stream_key = None \<and> admitted then Aborts []
                   else Ends (ss_written s) (put_flv stream_key (ss_relay s) st1)))
      | WsEncrypted stream_key \<Rightarrow>
          (case get_or_create_relay new_key stream_key st of
             (Inl e, st1) \<Rightarrow> Ends [] st1
           | (Inr relay, st1) \<Rightarrow>
               (let (admitted, r) = relay_add_client relay;
                    s = ws_encrypted_session wr peer_closed relay chunks
                in if log_prefix 8 stream_key = None \<and> admitted then Aborts []
                   else Ends (es_written s) (put_relay stream_key (es_relay s) st1))))"

section \<open>Steps of the running agent\<close>

text \<open>
  Everything that changes the shared state: a request for a stream in either mode, the
  heartbeat's and the prober's operations on the selector, what connections and the pull
  task do to one relay, and the shutdown, which stops every relay. \<open>TaskStart\<close> is the first
  line of the pull task that a new relay spawns, a log line with the key of the stream
  (relay/flv.rs and relay/mod.rs). \<open>None\<close>: the process aborts.
\<close>

datatype agent_op =
    FlvRequest string
  | EncRequest string "crypto_error + key_info"
  | TaskStart string
  | SelectorOp selector_op
  | FlvRelayOp string "puller_op client_op"
  | EncRelayOp string "relay_op client_op"
  | Shutdown

fun puller_client_step :: "puller_op client_op \<Rightarrow> flv_puller \<Rightarrow> flv_puller" where
  "puller_client_step Enter p = snd (puller_add_client p)"
| "puller_client_step Leave p = puller_remove_client p"
| "puller_client_step (Internal x) p = puller_internal x p"

fun relay_client_step :: "relay_op client_op \<Rightarrow> stream_relay \<Rightarrow> stream_relay" where
  "relay_client_step Enter r = snd (relay_add_client r)"
| "relay_client_step Leave r = relay_remove_client r"
| "relay_client_step (Internal x) r = relay_internal x r"

definition update_at :: "('v \<Rightarrow> 'v) \<Rightarrow> 'k \<Rightarrow> ('k, 'v) map \<Rightarrow> ('k, 'v) map" where
  "update_at f k m = (case m k of Some v \<Rightarrow> m(k \<mapsto> f v) | None \<Rightarrow> m)"

definition stop_all_relays :: "agent \<Rightarrow> agent" where
  "stop_all_relays st = st\<lparr>ag_relays := map_option relay_stop \<circ> ag_relays st,
     ag_flv_relays := map_option puller_stop \<circ> ag_flv_relays st\<rparr>"

text \<open>
  \<open>apply_path_switch\<close> logs the first eight bytes of the node it switches to, and is the only
  place that sets the current path: a path whose node id cannot be cut there is never
  reached, the process aborts on the way.
\<close>

definition switch_logged :: "cascade_selector \<Rightarrow> bool" where
  "switch_logged s = (case sel_current_path s of
     Some path \<Rightarrow> log_prefix 8 (cp_upstream_node_id path) \<noteq> None | None \<Rightarrow> True)"

fun agent_step :: "agent_op \<Rightarrow> agent \<Rightarrow> agent option" where
  "agent_step (FlvRequest key) st = map_option snd (get_or_create_flv_relay key st)"
| "agent_step (EncRequest key new_key) st = Some (snd (get_or_create_relay new_key key st))"
| "agent_step (TaskStart key) st =
     (if (ag_flv_relays st key \<noteq> None \<or> ag_relays st key \<noteq> None) \<and> log_prefix 8 key = None then None
      else Some st)"
| "agent_step (SelectorOp x) st =
     (let s = selector_step x (ag_selector st)
      in if switch_logged s then Some (st\<lparr>ag_selector := s\<rparr>) else None)"
| "agent_step (FlvRelayOp key x) st =
     Some (st\<lparr>ag_flv_relays := update_at (puller_client_step x) key (ag_flv_relays st)\<rparr>)"
| "agent_step (EncRelayOp key x) st =
     Some (st\<lparr>ag_relays := update_at (relay_client_step x) key (ag_relays st)\<rparr>)"
| "agent_step Shutdown st = Some (stop_all_relays st)"

fun agent_run :: "agent_op list \<Rightarrow> agent \<Rightarrow> agent option" where
  "agent_run [] st = Some st"
| "agent_run (x # xs) st = (case agent_step x st of Some st' \<Rightarrow> agent_run xs st' | None \<Rightarrow> None)"

text \<open>The states the agent can be in.\<close>

inductive agent_reach :: "config \<Rightarrow> agent \<Rightarrow> bool" for c :: config where
  reach_new: "agent_reach c (agent_new c)"
| reach_step: "agent_reach c st \<Longrightarrow> agent_step x st = Some st' \<Longrightarrow> agent_reach c st'"

text \<open>
  The tables under a step that may end the process: a step that does leaves them, for the
  contract of the tables, as they are.
\<close>

definition agent_exec :: "agent_op \<Rightarrow> agent \<Rightarrow> agent" where
  "agent_exec x st = (case agent_step x st of Some st' \<Rightarrow> st' | None \<Rightarrow> st)"

lemma run_fold: "agent_run xs st = Some st' \<Longrightarrow> fold agent_exec xs st = st'"
  by (induction xs arbitrary: st) (auto simp: agent_exec_def split: option.splits)

lemma run_append: "agent_run (xs @ ys) st = (case agent_run xs st of Some st' \<Rightarrow> agent_run ys st' | None \<Rightarrow> None)"
  by (induction xs arbitrary: st) (auto split: option.split)

section \<open>The relay tables are written once\<close>

lemma update_at_apply: "update_at f k m j = (if j = k then map_option f (m k) else m j)"
  by (simp add: update_at_def split: option.split)

text \<open>What a relay is created with and keeps.\<close>

definition puller_ident :: "flv_puller \<Rightarrow> string \<times> string \<times> string option \<times> nat" where
  "puller_ident p = (fp_stream_key p, fp_flv_url p, fp_backup_flv_url p, fp_max_clients p)"

definition relay_ident :: "stream_relay \<Rightarrow> string \<times> string \<times> nat \<times> nat" where
  "relay_ident r = (sr_stream_key r, sr_origin_url r, sr_max_clients r, sr_max_segments r)"

lemma puller_client_step_ident [simp]: "puller_ident (puller_client_step x p) = puller_ident p"
proof (cases x)
  case (Internal y)
  then show ?thesis
    by (cases y) (simp_all add: puller_ident_def puller_start_def puller_stop_def puller_record_bytes_sent_def)
qed (simp_all add: puller_ident_def puller_add_client_def puller_remove_client_def)

lemma relay_client_step_ident [simp]: "relay_ident (relay_client_step x r) = relay_ident r"
proof (cases x)
  case (Internal y)
  then show ?thesis
    by (cases y) (simp_all add: relay_ident_def relay_start_def relay_stop_def relay_record_bytes_sent_def
        pull_part_def)
qed (simp_all add: relay_ident_def relay_add_client_def relay_remove_client_def)

lemma stop_ident [simp]: "puller_ident (puller_stop p) = puller_ident p" "relay_ident (relay_stop r) = relay_ident r"
  by (simp_all add: puller_ident_def relay_ident_def puller_stop_def relay_stop_def)

fun flv_wants :: "agent_op \<Rightarrow> string option" where
  "flv_wants (FlvRequest key) = Some key"
| "flv_wants _ = None"

fun flv_make :: "agent_op \<Rightarrow> agent \<Rightarrow> (string \<times> string \<times> string option \<times> nat) option" where
  "flv_make (FlvRequest key) st = map_option (puller_ident \<circ> fst) (get_or_create_flv_relay key st)"
| "flv_make _ st = None"

definition flv_ident :: "agent \<Rightarrow> string \<Rightarrow> (string \<times> string \<times> string option \<times> nat) option" where
  "flv_ident st key = map_option puller_ident (ag_flv_relays st key)"

fun enc_wants :: "agent_op \<Rightarrow> string option" where
  "enc_wants (EncRequest key new_key) = Some key"
| "enc_wants _ = None"

fun enc_make :: "agent_op \<Rightarrow> agent \<Rightarrow> (string \<times> string \<times> nat \<times> nat) option" where
  "enc_make (EncRequest key new_key) st =
     (case fst (get_or_create_relay new_key key st) of Inr r \<Rightarrow> Some (relay_ident r) | Inl e \<Rightarrow> None)"
| "enc_make _ st = None"

definition enc_ident :: "agent \<Rightarrow> string \<Rightarrow> (string \<times> string \<times> nat \<times> nat) option" where
  "enc_ident st key = map_option relay_ident (ag_relays st key)"

lemma get_or_create_relays [simp]:
  "get_or_create_flv_relay key st = Some (r, st') \<Longrightarrow> ag_relays st' = ag_relays st"
  "ag_flv_relays (snd (get_or_create_relay new_key key st)) = ag_flv_relays st"
  by (auto simp: get_or_create_flv_relay_def get_or_create_relay_def Let_def
      split: option.splits if_splits sum.splits)

interpretation flv_table: write_once flv_ident agent_exec flv_wants flv_make
proof
  fix x st k
  show "flv_ident (agent_exec x st) k =
      (if flv_wants x = Some k \<and> flv_ident st k = None then flv_make x st else flv_ident st k)"
  proof (cases x)
    case (FlvRequest key)
    then show ?thesis
      by (auto simp: agent_exec_def flv_ident_def get_or_create_flv_relay_def Let_def split: option.split)
  qed (auto simp: agent_exec_def flv_ident_def Let_def update_at_apply stop_all_relays_def option.map_comp comp_def)
qed

interpretation enc_table: write_once enc_ident agent_exec enc_wants enc_make
proof
  fix x st k
  show "enc_ident (agent_exec x st) k =
      (if enc_wants x = Some k \<and> enc_ident st k = None then enc_make x st else enc_ident st k)"
  proof (cases x)
    case (EncRequest key new_key)
    then show ?thesis
      by (auto simp: agent_exec_def enc_ident_def get_or_create_relay_def Let_def split: option.split sum.split)
  next
    case (FlvRequest key)
    then show ?thesis by (auto simp: agent_exec_def enc_ident_def split: option.split)
  qed (auto simp: agent_exec_def enc_ident_def Let_def update_at_apply stop_all_relays_def option.map_comp comp_def)
qed

section \<open>The invariant of the running agent\<close>

definition puller_ok :: "config \<Rightarrow> string \<Rightarrow> flv_puller \<Rightarrow> bool" where
  "puller_ok c key p \<longleftrightarrow> fp_stream_key p = key
     \<and> fp_max_clients p = cfg_max_clients c \<and> fp_client_count p \<le> cfg_max_clients c
     \<and> fp_backup_flv_url p = map_option (\<lambda>url. str_replace url STREAM_KEY key) (cfg_backup_origin_url c)"

definition relay_ok :: "config \<Rightarrow> string \<Rightarrow> stream_relay \<Rightarrow> bool" where
  "relay_ok c key r \<longleftrightarrow> sr_stream_key r = key \<and> sr_origin_url r = origin_hls_url c key
     \<and> sr_max_clients r = cfg_max_clients c \<and> sr_client_count r \<le> cfg_max_clients c"

definition agent_inv :: "config \<Rightarrow> agent \<Rightarrow> bool" where
  "agent_inv c st \<longleftrightarrow> ag_config st = c
     \<and> (\<forall>key p. ag_flv_relays st key = Some p \<longrightarrow> puller_ok c key p)
     \<and> (\<forall>key r. ag_relays st key = Some r \<longrightarrow> relay_ok c key r)"

lemma ident_fields:
  "puller_ident p = puller_ident q \<longleftrightarrow> fp_stream_key p = fp_stream_key q \<and> fp_flv_url p = fp_flv_url q
     \<and> fp_backup_flv_url p = fp_backup_flv_url q \<and> fp_max_clients p = fp_max_clients q"
  "relay_ident r = relay_ident t \<longleftrightarrow> sr_stream_key r = sr_stream_key t \<and> sr_origin_url r = sr_origin_url t
     \<and> sr_max_clients r = sr_max_clients t \<and> sr_max_segments r = sr_max_segments t"
  by (simp_all add: puller_ident_def relay_ident_def)

lemmas puller_step_fields = puller_client_step_ident [unfolded ident_fields]
lemmas relay_step_fields = relay_client_step_ident [unfolded ident_fields]

lemma puller_ok_step: "puller_ok c key p \<Longrightarrow> puller_ok c key (puller_client_step x p)"
  using puller.run_bounded [of p "[x]"] puller_step_fields [of x p]
  by (cases x) (simp_all add: puller_ok_def puller_client_count_def case_prod_unfold)

lemma relay_ok_step: "relay_ok c key r \<Longrightarrow> relay_ok c key (relay_client_step x r)"
  using relay.run_bounded [of r "[x]"] relay_step_fields [of x r]
  by (cases x) (simp_all add: relay_ok_def relay_client_count_def case_prod_unfold)

lemma stop_ok: "puller_ok c key p \<Longrightarrow> puller_ok c key (puller_stop p)"
  "relay_ok c key r \<Longrightarrow> relay_ok c key (relay_stop r)"
  by (simp_all add: puller_ok_def relay_ok_def puller_stop_def relay_stop_def)

lemma created_flv:
  assumes "get_or_create_flv_relay key st = Some (p, st')"
  shows "ag_flv_relays st key = Some p \<and> st' = st
    \<or> ag_flv_relays st key = None \<and> st' = put_flv key p st \<and> fp_flv_url p = flv_source key st
      \<and> fp_running p \<and> puller_ok (ag_config st) key p \<and> fp_client_count p = 0
      \<and> fp_gop_cache p = gop_cache_new gop_cache_config_default"
proof (cases "ag_flv_relays st key")
  case None
  have "p = snd (puller_start (puller_with_backup key (flv_source key st)
      (map_option (\<lambda>url. str_replace url STREAM_KEY key) (cfg_backup_origin_url (ag_config st)))
      (cfg_max_clients (ag_config st))))" "st' = put_flv key p st"
    using assms None by (auto simp: get_or_create_flv_relay_def put_flv_def Let_def split: if_splits)
  with None show ?thesis by (simp add: puller_ok_def puller_start_def puller_with_backup_def)
qed (use assms in \<open>simp add: get_or_create_flv_relay_def\<close>)

lemma created_relay:
  "ag_relays (snd (get_or_create_relay new_key key st)) k = Some r \<Longrightarrow>
   ag_relays st k = Some r \<or> k = key \<and> relay_ok (ag_config st) key r"
  "ag_config (snd (get_or_create_relay new_key key st)) = ag_config st"
  by (auto simp: get_or_create_relay_def Let_def relay_start_def stream_relay_new_def relay_ok_def
      split: option.splits sum.splits if_splits)

lemma step_inv: "agent_inv c st \<Longrightarrow> agent_step x st = Some st' \<Longrightarrow> agent_inv c st'"
proof (cases x)
  case (FlvRequest key)
  assume inv: "agent_inv c st" and "agent_step x st = Some st'"
  with FlvRequest obtain p where "get_or_create_flv_relay key st = Some (p, st')" by auto
  from created_flv [OF this] inv show ?thesis
    by (auto simp: agent_inv_def put_flv_def split: if_splits)
next
  case (EncRequest key new_key)
  assume "agent_inv c st" "agent_step x st = Some st'"
  with EncRequest created_relay [of new_key key st] show ?thesis by (force simp: agent_inv_def)
next
  case (FlvRelayOp key y)
  assume "agent_inv c st" "agent_step x st = Some st'"
  with FlvRelayOp show ?thesis by (auto simp: agent_inv_def update_at_apply puller_ok_step split: if_splits)
next
  case (EncRelayOp key y)
  assume "agent_inv c st" "agent_step x st = Some st'"
  with EncRelayOp show ?thesis by (auto simp: agent_inv_def update_at_apply relay_ok_step split: if_splits)
next
  case Shutdown
  assume "agent_inv c st" "agent_step x st = Some st'"
  with Shutdown show ?thesis by (auto simp: agent_inv_def stop_all_relays_def stop_ok)
qed (auto simp: agent_inv_def Let_def split: if_splits)

lemma reach_inv: "agent_reach c st \<Longrightarrow> agent_inv c st"
  by (induction rule: agent_reach.induct) (simp add: agent_inv_def agent_new_def, rule step_inv)

lemma reach_run: "agent_reach c st \<Longrightarrow> agent_run xs st = Some st' \<Longrightarrow> agent_reach c st'"
  by (induction xs arbitrary: st) (auto split: option.splits intro: reach_step)

section \<open>Properties\<close>



text \<open>
  C33: a stream keeps the source it started with. A request for a new stream starts a relay
  that pulls from the cascade upstream of that moment, or from the configured origin when
  there is none. Whatever happens later (mesh maps, failures, emergency switches, further
  requests, clients), the relay of that stream keeps its source for good: a switch of the
  upstream reaches only streams that nobody has asked for yet.
\<close>

theorem stream_keeps_its_source:
  assumes "ag_flv_relays st key = None" "get_or_create_flv_relay key st = Some (p, st')"
    and "agent_run ops st' = Some st''"
  shows "fp_flv_url p = (case current_upstream_url (ag_selector st) of
        Some upstream \<Rightarrow> str_replace upstream STREAM_KEY key
      | None \<Rightarrow> origin_flv_url (ag_config st) key)
    \<and> fp_running p
    \<and> (\<exists>q. ag_flv_relays st'' key = Some q
        \<and> fp_flv_url q = fp_flv_url p \<and> fp_backup_flv_url q = fp_backup_flv_url p)"
proof -
  have p: "fp_flv_url p = flv_source key st" "fp_running p" "ag_flv_relays st' key = Some p"
    using created_flv [OF assms(2)] assms(1) by (auto simp: put_flv_def)
  then have "flv_ident st' key = Some (puller_ident p)" by (simp add: flv_ident_def)
  from flv_table.kept [OF this, of ops] have "\<exists>q. ag_flv_relays st'' key = Some q
      \<and> puller_ident q = puller_ident p" by (auto simp: flv_ident_def run_fold [OF assms(3)])
  with p(1,2) show ?thesis by (auto simp: ident_fields flv_source_def)
qed

theorem stream_keeps_its_source_witness:
  "\<exists>p st' st'' q. get_or_create_flv_relay ''room'' (agent_new default_config) = Some (p, st')
     \<and> agent_run [FlvRequest ''hall'', Shutdown] st' = Some st''
     \<and> ag_flv_relays st'' ''room'' = Some q
     \<and> fp_flv_url q = ''http://controller:8080/live/room.flv''"
proof -
  let ?st = "agent_new default_config"
  have none: "current_upstream_url (ag_selector ?st) = None" "ag_flv_relays ?st ''room'' = None"
    by (simp_all add: agent_new_def current_upstream_url_def cascade_selector_new_def)
  obtain p st' st'' where g: "get_or_create_flv_relay ''room'' ?st = Some (p, st')"
    "agent_run [FlvRequest ''hall'', Shutdown] st' = Some st''"
    by (simp add: agent_new_def get_or_create_flv_relay_def current_upstream_url_def
        cascade_selector_new_def Let_def)
  have "origin_flv_url (ag_config ?st) ''room'' = ''http://controller:8080/live/room.flv''"
    by (simp add: agent_new_def origin_flv_url_def default_config_def trim_end_char_id)
  with stream_keeps_its_source [OF none(2) g] none(1) g show ?thesis by auto
qed

text \<open>
  One relay per stream, and none is ever dropped. The relays of a running agent are
  exactly those of streams somebody has asked for: after any history there is a relay for
  a key only if a request named it, and every one that was there stays. (Nothing checks
  that the stream exists, so a client can fill the tables with keys of its own.)
\<close>

theorem relays_only_accumulate:
  assumes "agent_run ops (agent_new c) = Some st" "agent_run later st = Some st'"
  shows "{key. ag_flv_relays st key \<noteq> None} \<subseteq> {key. FlvRequest key \<in> set ops}
    \<and> {key. ag_relays st key \<noteq> None} \<subseteq> {key. \<exists>new_key. EncRequest key new_key \<in> set ops}
    \<and> {key. ag_flv_relays st key \<noteq> None} \<subseteq> {key. ag_flv_relays st' key \<noteq> None}
    \<and> {key. ag_relays st key \<noteq> None} \<subseteq> {key. ag_relays st' key \<noteq> None}"
proof (intro conjI)
  have new: "flv_ident (agent_new c) k = None" "enc_ident (agent_new c) k = None" for k
    by (simp_all add: flv_ident_def enc_ident_def agent_new_def)
  have w: "flv_wants x = Some k \<longleftrightarrow> x = FlvRequest k" for x k by (cases x) auto
  have v: "enc_wants x = Some k \<longleftrightarrow> (\<exists>n. x = EncRequest k n)" for x k by (cases x) auto
  note f = run_fold [OF assms(1)]
  from flv_table.keys [of ops "agent_new c"]
  show "{key. ag_flv_relays st key \<noteq> None} \<subseteq> {key. FlvRequest key \<in> set ops}"
    unfolding new w f by (auto simp: flv_ident_def)
  from enc_table.keys [of ops "agent_new c"]
  show "{key. ag_relays st key \<noteq> None} \<subseteq> {key. \<exists>new_key. EncRequest key new_key \<in> set ops}"
    unfolding new v f by (auto simp: enc_ident_def)
  show "{key. ag_flv_relays st key \<noteq> None} \<subseteq> {key. ag_flv_relays st' key \<noteq> None}"
    using flv_table.kept [of st _ _ later] by (fastforce simp: flv_ident_def run_fold [OF assms(2)])
  show "{key. ag_relays st key \<noteq> None} \<subseteq> {key. ag_relays st' key \<noteq> None}"
    using enc_table.kept [of st _ _ later] by (fastforce simp: enc_ident_def run_fold [OF assms(2)])
qed

theorem relays_only_accumulate_witness:
  "\<exists>st st'. agent_run [FlvRequest ''a''] (agent_new default_config) = Some st \<and> agent_run [FlvRequest ''b''] st = Some st'
     \<and> ag_flv_relays st' ''a'' \<noteq> None \<and> ag_flv_relays st ''b'' = None"
proof -
  obtain st st' where g: "agent_run [FlvRequest ''a''] (agent_new default_config) = Some st"
      "agent_run [FlvRequest ''b''] st = Some st'" "ag_flv_relays st ''a'' \<noteq> None"
    by (simp add: agent_new_def get_or_create_flv_relay_def current_upstream_url_def
        cascade_selector_new_def Let_def)
  from relays_only_accumulate [OF g(1,2)] have
    "{key. ag_flv_relays st key \<noteq> None} \<subseteq> {key. FlvRequest key \<in> set [FlvRequest ''a'']}"
    "{key. ag_flv_relays st key \<noteq> None} \<subseteq> {key. ag_flv_relays st' key \<noteq> None}" by auto
  then have "ag_flv_relays st ''b'' = None" "ag_flv_relays st' ''a'' \<noteq> None" using g(3) by auto
  with g show ?thesis by blast
qed

end
