(* ===== verification/Agent_Conn.thy ===== *)
theory Agent_Conn
  imports Agent
begin

text \<open>
  Whole connections of the agent: from the bytes of the request to the tags the viewer
  gets, through the request parser, the relay table, the admission and the session.
\<close>

lemma get_or_create_existing: "ag_flv_relays st key = Some relay \<Longrightarrow> get_or_create_flv_relay key st = Some (relay, st)"
  by (simp add: get_or_create_flv_relay_def)

lemma get_or_create_new:
  "ag_flv_relays st key = None \<Longrightarrow> get_or_create_flv_relay key st = None
    \<or> (\<exists>p st'. get_or_create_flv_relay key st = Some (p, st')
        \<and> fp_client_count p = 0 \<and> fp_max_clients p = cfg_max_clients (ag_config st))"
  using created_flv [of key st]
  by (cases "get_or_create_flv_relay key st") (auto simp: puller_ok_def)

text \<open>
  A fresh relay without start-up tags: whoever asks first is admitted when there is room at
  all, and the log line behind the admission is reached.
\<close>

lemma first_ws_flv_aborts:
  assumes "log_prefix 8 key = None" "0 < cfg_max_clients (ag_config st)" "ag_flv_relays st key = None"
  shows "ws_connection wr pc (WsFlv key) nk rx cs st = Aborts []"
  using get_or_create_new [OF assms(3)] assms(1,2)
  by (auto simp: ws_connection_def puller_add_client_def Let_def)

lemma first_ws_encrypted_aborts:
  assumes "log_prefix 8 key = None" "0 < cfg_max_clients (ag_config st)" "ag_relays st key = None"
  shows "ws_connection wr pc (WsEncrypted key) (Inr ki) rx cs st = Aborts []"
  using assms
  by (simp add: ws_connection_def get_or_create_relay_def Let_def relay_add_client_def relay_start_def
      stream_relay_new_def)

lemma flv_connection_task_aborts:
  assumes "log_prefix 8 key = None" "flv_request_head input = Some (Stream key c)"
  shows "case http_flv_connection wr input rx st of
      Hangs \<Rightarrow> False | Aborts ws \<Rightarrow> True | Ends ws st' \<Rightarrow> agent_step (TaskStart key) st' = None"
  using assms
  by (auto simp: http_flv_connection_def put_flv_def Let_def case_prod_unfold split: option.split)

lemma first_cascade_pull_aborts:
  assumes "log_prefix 8 key = None" "0 < cfg_max_clients (ag_config st)" "ag_flv_relays st key = None"
    and "flv_request_head input = Some (Stream key True)" "wr 0"
  shows "\<exists>ws. http_flv_connection wr input rx st = Aborts ws"
  using get_or_create_new [OF assms(3)] assms(1,2,4,5)
  by (auto simp: http_flv_connection_def puller_add_client_def Let_def)

text \<open>The exact answer to a request for an existing stream with room, when all writes succeed.\<close>

lemma served_count:
  assumes "\<And>i. wr i" "fp_client_count relay < fp_max_clients relay"
  shows "fp_client_count (ss_relay (http_flv_session wr casc relay (map to_rx es))) = fp_client_count relay + 1"
proof -
  have "ss_end (http_flv_session wr casc relay (map to_rx es)) = Serving"
    by (simp add: http_session_admitted [OF assms] stream_to_delivers(2) [OF assms(1)])
  then show ?thesis using http_session_count(1) [of wr casc relay "map to_rx es"] by simp
qed

lemma live_request_writes:
  assumes "\<forall>c \<in> set key. \<not> is_ws c" "\<not> suffix ''.flv'' key" "\<not> prefix ''/live/'' key" "\<not> prefix ''/cascade/'' key"
    and "key \<noteq> []" "\<not> str_contains (''GET /live/'' @ key @ ''.flv HTTP/1.1'' @ [CR, NL]) ''/cascade/''"
    and "\<forall>h \<in> set hs. \<not> is_blank_line h" and "log_prefix 8 key \<noteq> None" and "\<And>i. wr i"
    and "ag_flv_relays st key = Some relay" "fp_client_count relay < fp_max_clients relay"
  shows "http_flv_connection wr (Some (''GET /live/'' @ key @ ''.flv HTTP/1.1'' @ [CR, NL])
          # map Some hs @ Some [CR, NL] # rest) (map to_rx es) st =
    Ends ([ascii (flv_response_header (cfg_cascade_enabled (ag_config st) \<or> (\<exists>h \<in> set hs. is_agent_header h))),
           build_flv_header]
        @ (if puller_get_startup_tags relay = [] then [] else [startup_buffer (puller_get_startup_tags relay)])
        @ map build_flv_tag_wire (flv_deliver tracker_with_default_policy es))
      (put_flv key (ss_relay (http_flv_session wr
        (cfg_cascade_enabled (ag_config st) \<or> (\<exists>h \<in> set hs. is_agent_header h)) relay (map to_rx es))) st)"
proof -
  let ?line = "''GET /live/'' @ key @ ''.flv HTTP/1.1'' @ [CR, NL]"
  let ?agent = "\<exists>h \<in> set hs. is_agent_header h"
  let ?casc = "cfg_cascade_enabled (ag_config st) \<or> ?agent"
  have "parse_stream_key_from_url ?line = key" by (rule stream_key_live [OF assms(1-4)])
  then have head: "flv_request_head (Some ?line # map Some hs @ Some [CR, NL] # rest) = Some (Stream key ?agent)"
    using request_head_lines [OF assms(7), of ?line rest] assms(5,6) by auto
  have written: "ss_written (http_flv_session wr ?casc relay (map to_rx es)) =
      [ascii (flv_response_header ?casc), build_flv_header]
      @ (if puller_get_startup_tags relay = [] then [] else [startup_buffer (puller_get_startup_tags relay)])
      @ map build_flv_tag_wire (flv_deliver tracker_with_default_policy es)"
    by (simp add: http_session_admitted [OF assms(9,11)] stream_to_delivers(1) [OF assms(9)])
  show ?thesis
    unfolding http_flv_connection_def head written [symmetric]
    using assms(8) by (simp add: get_or_create_existing [OF assms(10)] Let_def case_prod_unfold)
qed

section \<open>Properties\<close>



text \<open>
  C36: a key whose eighth byte falls inside a character takes the whole node down. The log
  lines that cut the key there panic, and a panic aborts the process with every stream it
  serves. The first WebSocket viewer of such a key, in either mode, ends the agent right
  behind \<open>add_client\<close>, and so does an HTTP request that names an agent; any other HTTP
  viewer does it through the pull task the request has started. Every key of Chinese
  characters (three bytes each) that is longer than two characters is such a key.
\<close>

theorem multibyte_key_aborts_agent:
  assumes "log_prefix 8 key = None" "0 < cfg_max_clients (ag_config st)"
    and "ag_flv_relays st key = None" "ag_relays st key = None"
  shows "ws_connection wr pc (WsFlv key) new_key rx chunks st = Aborts []
    \<and> ws_connection wr pc (WsEncrypted key) (Inr ki) rx chunks st = Aborts []
    \<and> (flv_request_head input = Some (Stream key True) \<and> wr 0
        \<longrightarrow> (\<exists>ws. http_flv_connection wr input rx st = Aborts ws))
    \<and> (flv_request_head input = Some (Stream key c) \<longrightarrow>
        (case http_flv_connection wr input rx st of
           Hangs \<Rightarrow> False | Aborts ws \<Rightarrow> True | Ends ws st' \<Rightarrow> agent_step (TaskStart key) st' = None))"
  using first_ws_flv_aborts [OF assms(1-3)] first_ws_encrypted_aborts [OF assms(1,2,4)]
    first_cascade_pull_aborts [OF assms(1-3)] flv_connection_task_aborts [OF assms(1)] by blast

text \<open>A key of three Chinese characters, in the handshake of a first viewer.\<close>

theorem multibyte_key_aborts_agent_witness:
  "ws_connection (\<lambda>_. True) False
     (ws_handshake (\<lambda>s. Some (Some s, Some ''flv''))
       (TextMessage [CHR 0xE7, CHR 0x9B, CHR 0xB4, CHR 0xE6, CHR 0x92, CHR 0xAD, CHR 0xE9, CHR 0x97, CHR 0xB4]))
     (Inl UnsupportedCipher) [] [] (agent_new default_config) = Aborts []"
proof -
  let ?k = "[CHR 0xE7, CHR 0x9B, CHR 0xB4, CHR 0xE6, CHR 0x92, CHR 0xAD, CHR 0xE9, CHR 0x97, CHR 0xB4]"
  have "log_prefix 8 ?k = None"
    by (simp add: log_prefix_def slice_to_def char_boundary_def is_continuation_def)
  moreover have "ws_handshake (\<lambda>s. Some (Some s, Some ''flv'')) (TextMessage ?k) = WsFlv ?k"
    by (simp add: ws_handshake_def)
  ultimately show ?thesis
    using multibyte_key_aborts_agent [of ?k "agent_new default_config"]
    by (simp add: agent_new_def default_config_def default_max_clients_def)
qed

end
