(* ===== verification/Cascade_Link.thy ===== *)
theory Cascade_Link
  imports Agent_Conn
begin

text \<open>
  Two agents in a cascade: what the upstream agent's HTTP-FLV connection writes is the body
  that the pull task of the downstream agent parses.
\<close>

section \<open>Properties\<close>

text \<open>
  C15: a cascade link loses its first tag. An agent asks another for \<open>/live/<key>.flv\<close>, as the
  pull task does, with its agent header; the upstream has the stream, room, and a socket
  that takes every write. Let the first tag it sends (the oldest start-up tag, or the
  first tag of the broadcast) be shorter than 2048 bytes. However the network cuts the
  body, the downstream agent does not get that tag: its parser has lost alignment at the
  FLV header and goes on inside the data of the first tag, reading it as tags.
\<close>

theorem cascade_link_loses_first_tag:
  assumes "\<forall>c \<in> set key. \<not> is_ws c" "\<not> suffix ''.flv'' key" "\<not> prefix ''/live/'' key" "\<not> prefix ''/cascade/'' key"
    and "key \<noteq> []" "\<not> str_contains (''GET /live/'' @ key @ ''.flv HTTP/1.1'' @ [CR, NL]) ''/cascade/''"
    and "\<forall>h \<in> set hs. \<not> is_blank_line h" and "log_prefix 8 key \<noteq> None" and "\<And>i. wr i"
    and "ag_flv_relays st key = Some relay" "fp_client_count relay < fp_max_clients relay"
    and "puller_get_startup_tags relay @ flv_deliver tracker_with_default_policy es = t # ts"
    and "length (tag_data t) < 2048"
  shows "\<exists>response body st'. http_flv_connection wr (Some (''GET /live/'' @ key @ ''.flv HTTP/1.1'' @ [CR, NL])
          # map Some hs @ Some [CR, NL] # rest) (map to_rx es) st = Ends (response # body) st'
    \<and> concat body = build_flv_header @ concat (map build_flv_tag_wire (t # ts))
    \<and> (\<forall>cs. concat cs = concat body \<longrightarrow>
        ps_broadcast (snd (pull_flv_stream clk (Response 200 (map (\<lambda>c. (True, Chunk c)) cs)) sent cache))
        = ps_broadcast (snd (flv_parse_loop clk
            \<lparr>ps_buffer = drop 2 (tag_data t @ put_u32 (11 + word_of_nat (length (tag_data t))))
               @ concat (map build_flv_tag_wire ts),
             ps_header_parsed = True, ps_tag_counter = 0, ps_broadcast = sent, ps_cache = cache\<rparr>)))"
proof (intro exI conjI allI impI)
  let ?body = "[build_flv_header]
    @ (if puller_get_startup_tags relay = [] then [] else [startup_buffer (puller_get_startup_tags relay)])
    @ map build_flv_tag_wire (flv_deliver tracker_with_default_policy es)"
  let ?rest = "concat (map build_flv_tag_wire ts)"
  show "http_flv_connection wr (Some (''GET /live/'' @ key @ ''.flv HTTP/1.1'' @ [CR, NL])
          # map Some hs @ Some [CR, NL] # rest) (map to_rx es) st =
    Ends (ascii (flv_response_header (cfg_cascade_enabled (ag_config st) \<or> (\<exists>h \<in> set hs. is_agent_header h))) # ?body)
      (put_flv key (ss_relay (http_flv_session wr
        (cfg_cascade_enabled (ag_config st) \<or> (\<exists>h \<in> set hs. is_agent_header h)) relay (map to_rx es))) st)"
    using live_request_writes [OF assms(1-11), where rest = rest and es = es] by simp
  have "concat ?body = build_flv_header @ concat (map build_flv_tag_wire
      (puller_get_startup_tags relay @ flv_deliver tracker_with_default_policy es))"
    by (simp add: startup_buffer_def)
  then show body: "concat ?body = build_flv_header @ concat (map build_flv_tag_wire (t # ts))"
    by (simp only: assms(12))
  fix cs :: "bytes list"
  assume "concat cs = concat ?body"
  with body have cs: "concat cs = build_flv_header @ build_flv_tag_wire t @ ?rest" by simp
  have len: "13 \<le> length (build_flv_tag_wire t @ ?rest)" by simp
  have "ps_broadcast (snd (pull_flv_stream clk (Response 200 (map (\<lambda>c. (True, Chunk c)) cs)) sent cache))
      = ps_broadcast (snd (flv_parse_loop clk \<lparr>ps_buffer = build_flv_header @ build_flv_tag_wire t @ ?rest,
          ps_header_parsed = False, ps_tag_counter = 0, ps_broadcast = sent, ps_cache = cache\<rparr>))"
    by (rule pull_unchunked [OF cs]) (simp add: status_is_success_def)
  also have "\<dots> = ps_broadcast (snd (flv_parse_loop clk \<lparr>ps_buffer = drop 2 (build_flv_tag_wire t @ ?rest),
          ps_header_parsed = True, ps_tag_counter = 0, ps_broadcast = sent, ps_cache = cache\<rparr>))"
    using len by (subst header_desync) auto
  also have "\<dots> = ps_broadcast (snd (flv_parse_loop clk \<lparr>ps_buffer = drop 11 (drop 2 (build_flv_tag_wire t @ ?rest)),
          ps_header_parsed = True, ps_tag_counter = 0, ps_broadcast = sent, ps_cache = cache\<rparr>))"
    by (subst unknown_tag_drops [OF _ short_tag_wire(1) [OF assms(13)]]) (use len in auto)
  finally show "ps_broadcast (snd (pull_flv_stream clk (Response 200 (map (\<lambda>c. (True, Chunk c)) cs)) sent cache))
      = ps_broadcast (snd (flv_parse_loop clk
          \<lparr>ps_buffer = drop 2 (tag_data t @ put_u32 (11 + word_of_nat (length (tag_data t)))) @ ?rest,
           ps_header_parsed = True, ps_tag_counter = 0, ps_broadcast = sent, ps_cache = cache\<rparr>))"
    unfolding short_tag_wire(2) [OF assms(13)] .
qed

text \<open>One audio tag over the link: nothing arrives.\<close>

theorem cascade_link_loses_first_tag_witness:
  "\<exists>response body st'. http_flv_connection (\<lambda>_. True)
      [Some (''GET /live/'' @ ''room1'' @ ''.flv HTTP/1.1'' @ [CR, NL]), Some (''X-LiveCDN-Agent: 0.1.0'' @ [CR, NL]),
       Some [CR, NL]]
      (map to_rx [Recv \<lparr>tag_type = Audio, timestamp_ms = 7, tag_data = [0xAF, 1], tag_origin_ts = 0\<rparr>])
      (put_flv ''room1'' (puller_with_backup ''room1'' [] None 2) (agent_new default_config))
    = Ends (response # body) st'
    \<and> ps_broadcast (snd (pull_flv_stream (\<lambda>_. 0) (Response 200 (map (\<lambda>c. (True, Chunk c)) body)) []
        (gop_cache_new gop_cache_config_default))) = []"
proof -
  let ?t = "\<lparr>tag_type = Audio, timestamp_ms = 7, tag_data = [0xAF, 1], tag_origin_ts = 0\<rparr>"
  let ?p = "puller_with_backup ''room1'' [] None 2"
  let ?st = "put_flv ''room1'' ?p (agent_new default_config)"
  let ?line = "''GET /live/'' @ ''room1'' @ ''.flv HTTP/1.1'' @ [CR, NL]"
  have k: "\<forall>c \<in> set ''room1''. \<not> is_ws c" "\<not> suffix ''.flv'' ''room1''" "\<not> prefix ''/live/'' ''room1''"
    "\<not> prefix ''/cascade/'' ''room1''" "''room1'' \<noteq> []"
    "\<not> str_contains ?line ''/cascade/''"
    by (simp_all add: is_ws_def suffix_to_prefix)
  have h: "\<forall>h \<in> set [''X-LiveCDN-Agent: 0.1.0'' @ [CR, NL]]. \<not> is_blank_line h" "log_prefix 8 ''room1'' \<noteq> None"
    by (simp_all add: is_blank_line_def log_prefix_def slice_to_def char_boundary_def)
  have s: "ag_flv_relays ?st ''room1'' = Some ?p" "fp_client_count ?p < fp_max_clients ?p"
    "puller_get_startup_tags ?p = []"
    by (simp_all add: put_flv_def puller_with_backup_def puller_get_startup_tags_def gop_cache_new_def
        get_startup_tags_def)
  have "flv_deliver tracker_with_default_policy (map Recv [?t]) = [?t]"
    using tracker.calm_delivers_all [of tracker_with_default_policy "[?t]"]
    by (simp add: tracker_with_default_policy_def tracker_new_def)
  with s(3) have d: "puller_get_startup_tags ?p @ flv_deliver tracker_with_default_policy [Recv ?t] = [?t]" by simp
  obtain response body st' where c: "http_flv_connection (\<lambda>_. True)
      (Some ?line # map Some [''X-LiveCDN-Agent: 0.1.0'' @ [CR, NL]] @ Some [CR, NL] # []) (map to_rx [Recv ?t]) ?st
      = Ends (response # body) st'"
    and b: "\<And>cs. concat cs = concat body \<Longrightarrow>
      ps_broadcast (snd (pull_flv_stream (\<lambda>_. 0) (Response 200 (map (\<lambda>c. (True, Chunk c)) cs)) []
        (gop_cache_new gop_cache_config_default)))
      = ps_broadcast (snd (flv_parse_loop (\<lambda>_. 0)
          \<lparr>ps_buffer = drop 2 (tag_data ?t @ put_u32 (11 + word_of_nat (length (tag_data ?t)))) @ concat (map build_flv_tag_wire []),
           ps_header_parsed = True, ps_tag_counter = 0, ps_broadcast = [],
           ps_cache = gop_cache_new gop_cache_config_default\<rparr>))"
    using cascade_link_loses_first_tag [OF k h TrueI s(1,2) d, where clk = "\<lambda>_. 0" and sent = "[]"
        and cache = "gop_cache_new gop_cache_config_default" and rest = "[]"] by auto
  let ?u = "\<lparr>ps_buffer = put_u32 13, ps_header_parsed = True, ps_tag_counter = 0, ps_broadcast = [],
           ps_cache = gop_cache_new gop_cache_config_default\<rparr>"
  have "flv_parse_loop (\<lambda>_. 0) ?u = (None, ?u)"
    by (simp add: flv_parse_loop.simps [of _ ?u] flv_nx_def flv_consts)
  with b [of body] c show ?thesis by auto
qed

end
