(* ===== verification/Flv_System.thy ===== *)
theory Flv_System
  imports Flv_Session
begin

text \<open>
  One running FLV relay with all its viewers, as concurrent tasks: the pull task of
  agent-rust/src/relay/flv.rs (it broadcasts a tag and, in a second step, puts it into the
  GOP cache) and any number of connections served by \<open>handle_http_flv_connection\<close> and
  \<open>handle_ws_flv_mode\<close> of main.rs. A step is what one task does between two points where
  it can be suspended: one call on the shared relay, one write, one \<open>rx.recv()\<close>. The
  schedule is a list of actions. The sockets are oracles; the broadcast channel of tokio is
  a parameter \<open>recv\<close> with its documented behaviour as the hypothesis \<open>broadcast_receiver\<close>.

  Theory \<open>Flv_Session\<close> runs one connection as if it were alone. Here that is justified
  (\<open>viewers_refine_sessions\<close>), and what only the interleaving shows is proved: the slots,
  the byte counter, the order of the tags, and the sending tasks that \<open>select!\<close> detaches.
\<close>

section \<open>The broadcast channel\<close>

text \<open>
  \<open>recv tags pos\<close>: the answer to a receiver that has been past \<open>pos\<close> of the tags sent so
  far, and its new position; \<open>None\<close>: it waits. A receiver that has been overtaken is told
  how many tags it lost. The channel closes when its last sender is gone; every connection
  holds the relay, which owns one.
\<close>

type_synonym receiver = "flv_tag list \<Rightarrow> nat \<Rightarrow> (rx_result \<times> nat) option"

definition broadcast_receiver :: "receiver \<Rightarrow> bool" where
  "broadcast_receiver recv \<longleftrightarrow>
     (\<forall>tags pos. pos \<le> length tags \<longrightarrow>
        (case recv tags pos of
           None \<Rightarrow> pos = length tags
         | Some (RxOk t, p) \<Rightarrow> pos < length tags \<and> t = tags ! pos \<and> p = Suc pos
         | Some (RxLagged n, p) \<Rightarrow> pos < p \<and> p \<le> length tags \<and> n = word_of_nat (p - pos)
         | Some (RxClosed, p) \<Rightarrow> False))"

text \<open>An instance: a ring that keeps the last \<open>cap\<close> tags.\<close>

definition ring_recv :: "nat \<Rightarrow> receiver" where
  "ring_recv cap tags pos =
     (if length tags \<le> pos then None
      else if pos + cap < length tags
      then Some (RxLagged (word_of_nat (length tags - cap - pos)), length tags - cap)
      else Some (RxOk (tags ! pos), Suc pos))"

lemma ring_recv_ok: "broadcast_receiver (ring_recv cap)"
  by (auto simp: broadcast_receiver_def ring_recv_def)

section \<open>Viewers\<close>

datatype viewer_kind = HttpFlv bool | WsFlv

text \<open>
  Where a connection stands. \<open>WriteTag\<close>: the tag received is about to be written;
  \<open>RecordTag\<close>: its length is about to be recorded. \<open>AtLeave\<close>: the send loop, or the
  handler, has been left.
\<close>

datatype viewer_pc =
    AddClient
  | WriteRefusal
  | WriteResponse
  | WriteFlvHeader
  | ReadStartup
  | WriteStartup "flv_tag list"
  | RecordStartup nat
  | Subscribe
  | AtRecv
  | WriteTag flv_tag
  | RecordTag nat
  | AtLeave
  | Ended session_end

text \<open>
  \<open>vw_slot\<close>: the connection counts as a client. The last four fields are history: what was
  received, whether \<open>add_client\<close> admitted it, and how many tags the cache held, and had been
  broadcast, when the start-up tags were read and the subscription was made.
\<close>

record viewer =
  vw_kind :: viewer_kind
  vw_socket :: "nat \<Rightarrow> bool"
  vw_pc :: viewer_pc
  vw_sent :: "bytes list"
  vw_slot :: bool
  vw_pos :: nat
  vw_tracker :: backpressure_tracker
  vw_rx :: "rx_result list"
  vw_admitted :: bool
  vw_start :: nat
  vw_sub :: nat

definition new_viewer :: "viewer_kind \<Rightarrow> (nat \<Rightarrow> bool) \<Rightarrow> viewer" where
  "new_viewer kind wr = \<lparr>vw_kind = kind, vw_socket = wr, vw_pc = AddClient, vw_sent = [],
     vw_slot = False, vw_pos = 0, vw_tracker = tracker_with_default_policy, vw_rx = [],
     vw_admitted = False, vw_start = 0, vw_sub = 0\<rparr>"

text \<open>A write, with what follows its success and its failure.\<close>

definition viewer_write :: "bytes \<Rightarrow> viewer_pc \<Rightarrow> viewer_pc \<Rightarrow> viewer \<Rightarrow> viewer" where
  "viewer_write buf ok failed v =
     (if vw_socket v (length (vw_sent v))
      then v\<lparr>vw_sent := vw_sent v @ [buf], vw_pc := ok\<rparr>
      else v\<lparr>vw_pc := failed\<rparr>)"

definition refusal_bytes :: "viewer_kind \<Rightarrow> bytes" where
  "refusal_bytes kind = (case kind of HttpFlv c \<Rightarrow> ascii http_503_full | WsFlv \<Rightarrow> ascii ws_full_message)"

text \<open>What \<open>rx.recv()\<close> returned.\<close>

definition viewer_receive :: "rx_result \<Rightarrow> nat \<Rightarrow> viewer \<Rightarrow> viewer" where
  "viewer_receive x pos v =
     (let v1 = v\<lparr>vw_rx := vw_rx v @ [x], vw_pos := pos\<rparr>
      in case x of
           RxOk t \<Rightarrow>
             (case tracker_should_drop (vw_tracker v1) t of
                (True, b) \<Rightarrow> v1\<lparr>vw_tracker := b\<rparr>
              | (False, b) \<Rightarrow> v1\<lparr>vw_tracker := b, vw_pc := WriteTag t\<rparr>)
         | RxLagged n \<Rightarrow> v1\<lparr>vw_tracker := report_lag n (vw_tracker v1)\<rparr>
         | RxClosed \<Rightarrow> v1\<lparr>vw_pc := AtLeave\<rparr>)"

text \<open>
  One step of a connection, given the relay, what was broadcast and how much of it is in
  the cache. A detached sending task (\<open>AtLeave\<close> without a slot) and an ended connection
  have none.
\<close>

definition viewer_turn :: "receiver \<Rightarrow> flv_tag list \<Rightarrow> nat \<Rightarrow> flv_puller \<Rightarrow> viewer
    \<Rightarrow> (flv_puller \<times> viewer) option" where
  "viewer_turn recv tags cached relay v =
     (case vw_pc v of
        AddClient \<Rightarrow>
          (case puller_add_client relay of
             (False, r) \<Rightarrow> Some (r, v\<lparr>vw_pc := WriteRefusal\<rparr>)
           | (True, r) \<Rightarrow>
               Some (r, v\<lparr>vw_slot := True, vw_admitted := True,
                 vw_pc := (case vw_kind v of HttpFlv c \<Rightarrow> WriteResponse | WsFlv \<Rightarrow> WriteFlvHeader)\<rparr>))
      | WriteRefusal \<Rightarrow>
          Some (relay, viewer_write (refusal_bytes (vw_kind v)) (Ended Refused)
            (case vw_kind v of HttpFlv c \<Rightarrow> Ended IoError | WsFlv \<Rightarrow> Ended Refused) v)
      | WriteResponse \<Rightarrow>
          (case vw_kind v of
             HttpFlv c \<Rightarrow>
               Some (relay, viewer_write (ascii (flv_response_header c)) WriteFlvHeader (Ended IoError) v)
           | WsFlv \<Rightarrow> None)
      | WriteFlvHeader \<Rightarrow>
          Some (relay, viewer_write build_flv_header ReadStartup
            (case vw_kind v of HttpFlv c \<Rightarrow> Ended IoError | WsFlv \<Rightarrow> AtLeave) v)
      | ReadStartup \<Rightarrow>
          (let startup_tags = puller_get_startup_tags relay
           in Some (relay, v\<lparr>vw_start := cached,
                vw_pc := (if startup_tags = [] then Subscribe else WriteStartup startup_tags)\<rparr>))
      | WriteStartup startup_tags \<Rightarrow>
          (let startup_buf = startup_buffer startup_tags
           in Some (relay, viewer_write startup_buf (RecordStartup (length startup_buf)) AtLeave v))
      | RecordStartup n \<Rightarrow>
          Some (puller_record_bytes_sent (word_of_nat n) relay, v\<lparr>vw_pc := Subscribe\<rparr>)
      | Subscribe \<Rightarrow>
          Some (relay, v\<lparr>vw_pos := length tags, vw_sub := length tags,
            vw_tracker := tracker_with_default_policy, vw_pc := AtRecv\<rparr>)
      | AtRecv \<Rightarrow>
          (case recv tags (vw_pos v) of
             None \<Rightarrow> None
           | Some (x, pos) \<Rightarrow> Some (relay, viewer_receive x pos v))
      | WriteTag t \<Rightarrow>
          (let tag_bytes = build_flv_tag_wire t
           in Some (relay, viewer_write tag_bytes (RecordTag (length tag_bytes)) AtLeave v))
      | RecordTag n \<Rightarrow>
          Some (puller_record_bytes_sent (word_of_nat n) relay,
            v\<lparr>vw_tracker := relieve_pressure (vw_tracker v), vw_pc := AtRecv\<rparr>)
      | AtLeave \<Rightarrow>
          (if vw_slot v
           then Some (puller_remove_client relay, v\<lparr>vw_slot := False, vw_pc := Ended Served\<rparr>)
           else None)
      | Ended e \<Rightarrow> None)"

definition in_send_loop :: "viewer_pc \<Rightarrow> bool" where
  "in_send_loop pc = (case pc of AtRecv \<Rightarrow> True | WriteTag t \<Rightarrow> True | RecordTag n \<Rightarrow> True | _ \<Rightarrow> False)"

lemma in_send_loop_simps [simp]:
  "in_send_loop AtRecv" "in_send_loop (WriteTag t)" "in_send_loop (RecordTag n)"
  "\<not> in_send_loop AddClient" "\<not> in_send_loop WriteRefusal" "\<not> in_send_loop WriteResponse"
  "\<not> in_send_loop WriteFlvHeader" "\<not> in_send_loop ReadStartup" "\<not> in_send_loop (WriteStartup st)"
  "\<not> in_send_loop (RecordStartup n)" "\<not> in_send_loop Subscribe" "\<not> in_send_loop AtLeave"
  "\<not> in_send_loop (Ended e)"
  by (simp_all add: in_send_loop_def)

lemma in_send_loopE:
  assumes "in_send_loop pc"
  obtains "pc = AtRecv" | t where "pc = WriteTag t" | n where "pc = RecordTag n"
  using assms by (cases pc) auto

text \<open>
  WebSocket only: the receiving task has ended (a close frame, an error or the end of the
  socket), so \<open>select!\<close> returns and the handler gives the slot back. The handle of the
  sending task is dropped, which detaches the task: it goes on.
\<close>

definition viewer_select :: "flv_puller \<Rightarrow> viewer \<Rightarrow> (flv_puller \<times> viewer) option" where
  "viewer_select relay v =
     (if vw_kind v = WsFlv \<and> vw_slot v \<and> in_send_loop (vw_pc v)
      then Some (puller_remove_client relay, v\<lparr>vw_slot := False\<rparr>)
      else None)"

section \<open>The system\<close>

record flv_system =
  sy_relay :: flv_puller
  sy_tags :: "flv_tag list"
  sy_cached :: nat
  sy_ended :: bool
  sy_viewers :: "viewer list"

datatype sys_action =
    Connect viewer_kind "nat \<Rightarrow> bool"
  | Broadcast flv_tag
  | CacheTag
  | StreamEnds
  | Turn nat
  | PeerGone nat

definition sys_init :: "flv_puller \<Rightarrow> flv_system" where
  "sys_init relay = \<lparr>sy_relay = relay, sy_tags = [], sy_cached = 0, sy_ended = False, sy_viewers = []\<rparr>"

definition sys_set :: "nat \<Rightarrow> flv_system \<Rightarrow> flv_puller \<times> viewer \<Rightarrow> flv_system" where
  "sys_set i s = (\<lambda>(r, v). s\<lparr>sy_relay := r, sy_viewers := (sy_viewers s)[i := v]\<rparr>)"

text \<open>
  The pull task sends a tag, then caches it, before it reads the next; it has ended when
  \<open>pull_flv_stream\<close> has returned for good. \<open>None\<close>: the action is not possible.
\<close>

definition sys_apply :: "receiver \<Rightarrow> sys_action \<Rightarrow> flv_system \<Rightarrow> flv_system option" where
  "sys_apply recv a s =
     (case a of
        Connect kind wr \<Rightarrow> Some (s\<lparr>sy_viewers := sy_viewers s @ [new_viewer kind wr]\<rparr>)
      | Broadcast t \<Rightarrow>
          (if \<not> sy_ended s \<and> sy_cached s = length (sy_tags s)
           then Some (s\<lparr>sy_tags := sy_tags s @ [t]\<rparr>) else None)
      | CacheTag \<Rightarrow>
          (if sy_cached s < length (sy_tags s)
           then Some (s\<lparr>sy_relay := (sy_relay s)\<lparr>fp_gop_cache :=
                   gop_add_tag (sy_tags s ! sy_cached s) (fp_gop_cache (sy_relay s))\<rparr>,
                 sy_cached := Suc (sy_cached s)\<rparr>)
           else None)
      | StreamEnds \<Rightarrow>
          (if \<not> sy_ended s \<and> sy_cached s = length (sy_tags s) then Some (s\<lparr>sy_ended := True\<rparr>) else None)
      | Turn i \<Rightarrow>
          (if i < length (sy_viewers s)
           then map_option (sys_set i s)
             (viewer_turn recv (sy_tags s) (sy_cached s) (sy_relay s) (sy_viewers s ! i))
           else None)
      | PeerGone i \<Rightarrow>
          (if i < length (sy_viewers s)
           then map_option (sys_set i s) (viewer_select (sy_relay s) (sy_viewers s ! i))
           else None))"

inductive sys_reach :: "receiver \<Rightarrow> flv_puller \<Rightarrow> flv_system \<Rightarrow> bool" for recv relay where
  init: "sys_reach recv relay (sys_init relay)"
| step: "sys_reach recv relay s \<Longrightarrow> sys_apply recv a s = Some s' \<Longrightarrow> sys_reach recv relay s'"

text \<open>A schedule, for concrete runs.\<close>

fun sys_run :: "receiver \<Rightarrow> sys_action list \<Rightarrow> flv_system \<Rightarrow> flv_system option" where
  "sys_run recv [] s = Some s"
| "sys_run recv (a # as) s = (case sys_apply recv a s of None \<Rightarrow> None | Some s' \<Rightarrow> sys_run recv as s')"

lemma sys_run_reach: "sys_run recv as s = Some s' \<Longrightarrow> sys_reach recv relay s \<Longrightarrow> sys_reach recv relay s'"
  by (induction as arbitrary: s) (auto split: option.splits intro: sys_reach.step)

lemma sys_run_append:
  "sys_run recv (as @ bs) s = (case sys_run recv as s of None \<Rightarrow> None | Some s' \<Rightarrow> sys_run recv bs s')"
  by (induction as arbitrary: s) (auto split: option.splits)

section \<open>The send loop, one event at a time\<close>

text \<open>The state between two events: writes done, tracker, what was written, whether the loop was left.\<close>

type_synonym loop_state = "nat \<times> backpressure_tracker \<times> bytes list \<times> bool"

fun loop_event :: "(nat \<Rightarrow> bool) \<Rightarrow> rx_result \<Rightarrow> loop_state \<Rightarrow> loop_state" where
  "loop_event wr x (k, b, ws, True) = (k, b, ws, True)"
| "loop_event wr (RxOk t) (k, b, ws, False) =
     (case tracker_should_drop b t of
        (True, b') \<Rightarrow> (k, b', ws, False)
      | (False, b') \<Rightarrow>
          (if wr k then (k + 1, relieve_pressure b', ws @ [build_flv_tag_wire t], False)
           else (k, b', ws, True)))"
| "loop_event wr (RxLagged n) (k, b, ws, False) = (k, report_lag n b, ws, False)"
| "loop_event wr RxClosed (k, b, ws, False) = (k, b, ws, True)"

definition loop_after :: "(nat \<Rightarrow> bool) \<Rightarrow> nat \<Rightarrow> rx_result list \<Rightarrow> loop_state" where
  "loop_after wr k rx = fold (loop_event wr) rx (k, tracker_with_default_policy, [], False)"

lemma loop_after_Nil [simp]: "loop_after wr k [] = (k, tracker_with_default_policy, [], False)"
  by (simp add: loop_after_def)

lemma loop_after_snoc: "loop_after wr k (rx @ [x]) = loop_event wr x (loop_after wr k rx)"
  by (simp add: loop_after_def)

lemma fold_loop_left [simp]: "fold (loop_event wr) rx (k, b, ws, True) = (k, b, ws, True)"
  by (induction rx) simp_all

lemma send_loop_fold:
  "\<exists>k' b'. fold (loop_event wr) rx (k, b, us, False) =
     (k', b', us @ fst (flv_send_loop wr k b relay rx), snd (snd (flv_send_loop wr k b relay rx)))"
proof (induction wr k b relay rx arbitrary: us rule: flv_send_loop.induct)
  case (2 wr k b relay t rx)
  obtain d b' where d: "tracker_should_drop b t = (d, b')" by (cases "tracker_should_drop b t")
  show ?case
  proof (cases d)
    case True
    with d have "(True, b') = tracker_should_drop b t" by simp
    from "2.IH"(1) [OF this refl, of us] d True show ?thesis by simp
  next
    case False
    with d have d': "(False, b') = tracker_should_drop b t" by simp
    show ?thesis
    proof (cases "wr k")
      case True
      from "2.IH"(2) [OF d' _ refl True, of "us @ [build_flv_tag_wire t]"] d' [symmetric] True
      show ?thesis by (simp add: Let_def case_prod_unfold)
    qed (use d' [symmetric] in simp)
  qed
qed simp_all

lemma loop_after_send_loop:
  "loop_after wr k rx = (k', b', ws, fin) \<Longrightarrow>
   flv_send_loop wr k tracker_with_default_policy relay rx =
     (ws, puller_record_bytes_sent (word_of_nat (total_len ws)) relay, fin)"
  using send_loop_fold [of wr rx k tracker_with_default_policy "[]" relay] send_loop_relay
  unfolding loop_after_def by (metis append_Nil prod.collapse prod.inject)

lemma loop_after_count: "loop_after wr k rx = (k', b', ws, fin) \<Longrightarrow> k' = k + length ws"
proof (induction rx arbitrary: k' b' ws fin rule: rev_induct)
  case (snoc x rx)
  obtain k1 b1 ws1 fin1 where l: "loop_after wr k rx = (k1, b1, ws1, fin1)"
    by (cases "loop_after wr k rx")
  with snoc show ?case
    by (cases fin1; cases x) (auto simp: loop_after_snoc split: prod.splits bool.splits if_splits)
qed simp

section \<open>What a connection has done, by where it stands\<close>

definition viewer_relay :: "flv_tag list \<Rightarrow> viewer \<Rightarrow> flv_puller" where
  "viewer_relay tags v = join_relay (if vw_admitted v then 1 else 0) (take (vw_start v) tags)"

text \<open>The connection as theory \<open>Flv_Session\<close> runs it, on its own relay.\<close>

definition viewer_session :: "flv_tag list \<Rightarrow> viewer \<Rightarrow> session" where
  "viewer_session tags v =
     (case vw_kind v of
        HttpFlv c \<Rightarrow> http_flv_session (vw_socket v) c (viewer_relay tags v) (vw_rx v)
      | WsFlv \<Rightarrow> ws_flv_session (vw_socket v) False (viewer_relay tags v) (vw_rx v))"

definition heads :: "viewer \<Rightarrow> bytes list" where
  "heads v = (case vw_kind v of
      HttpFlv c \<Rightarrow> [ascii (flv_response_header c), build_flv_header] | WsFlv \<Rightarrow> [build_flv_header])"

definition startup_of :: "flv_tag list \<Rightarrow> viewer \<Rightarrow> flv_tag list" where
  "startup_of tags v = get_startup_tags (gop_run gop_cache_config_default (take (vw_start v) tags))"

text \<open>Everything written before the send loop.\<close>

definition intro_of :: "flv_tag list \<Rightarrow> viewer \<Rightarrow> bytes list" where
  "intro_of tags v = heads v
     @ (if startup_of tags v = [] then [] else [startup_buffer (startup_of tags v)])"

definition wrote :: "viewer \<Rightarrow> bytes list \<Rightarrow> bool" where
  "wrote v ws \<longleftrightarrow> vw_sent v = ws \<and> (\<forall>i < length ws. vw_socket v i)"

definition loop_of :: "flv_tag list \<Rightarrow> viewer \<Rightarrow> rx_result list \<Rightarrow> loop_state" where
  "loop_of tags v rx = loop_after (vw_socket v) (length (intro_of tags v)) rx"

definition viewer_ok :: "flv_tag list \<Rightarrow> viewer \<Rightarrow> bool" where
  "viewer_ok tags v =
     (case vw_pc v of
        AddClient \<Rightarrow> wrote v [] \<and> vw_rx v = [] \<and> \<not> vw_slot v \<and> \<not> vw_admitted v
      | WriteRefusal \<Rightarrow> wrote v [] \<and> vw_rx v = [] \<and> \<not> vw_slot v \<and> \<not> vw_admitted v
      | WriteResponse \<Rightarrow> wrote v [] \<and> vw_rx v = [] \<and> vw_slot v \<and> vw_admitted v \<and> vw_kind v \<noteq> WsFlv
      | WriteFlvHeader \<Rightarrow> wrote v (butlast (heads v)) \<and> vw_rx v = [] \<and> vw_slot v \<and> vw_admitted v
      | ReadStartup \<Rightarrow> wrote v (heads v) \<and> vw_rx v = [] \<and> vw_slot v \<and> vw_admitted v
      | WriteStartup st \<Rightarrow> wrote v (heads v) \<and> vw_rx v = [] \<and> vw_slot v \<and> vw_admitted v
          \<and> st \<noteq> [] \<and> st = startup_of tags v
      | RecordStartup n \<Rightarrow> wrote v (intro_of tags v) \<and> vw_rx v = [] \<and> vw_slot v \<and> vw_admitted v
          \<and> n = total_len (drop (length (heads v)) (vw_sent v))
      | Subscribe \<Rightarrow> wrote v (intro_of tags v) \<and> vw_rx v = [] \<and> vw_slot v \<and> vw_admitted v
      | AtRecv \<Rightarrow> vw_admitted v \<and> (vw_slot v \<or> vw_kind v = WsFlv) \<and> (\<exists>ws k. wrote v (intro_of tags v @ ws)
          \<and> loop_of tags v (vw_rx v) = (k, vw_tracker v, ws, False))
      | WriteTag t \<Rightarrow> vw_admitted v \<and> (vw_slot v \<or> vw_kind v = WsFlv) \<and> (\<exists>ws k b rx. wrote v (intro_of tags v @ ws)
          \<and> vw_rx v = rx @ [RxOk t] \<and> loop_of tags v rx = (k, b, ws, False)
          \<and> tracker_should_drop b t = (False, vw_tracker v))
      | RecordTag n \<Rightarrow> vw_admitted v \<and> (vw_slot v \<or> vw_kind v = WsFlv) \<and> (\<exists>ws k b rx t. vw_rx v = rx @ [RxOk t]
          \<and> wrote v (intro_of tags v @ ws @ [build_flv_tag_wire t]) \<and> loop_of tags v rx = (k, b, ws, False)
          \<and> tracker_should_drop b t = (False, vw_tracker v) \<and> n = length (build_flv_tag_wire t))
      | AtLeave \<Rightarrow> vw_admitted v \<and> (vw_slot v \<or> vw_kind v = WsFlv) \<and> ss_written (viewer_session tags v) = vw_sent v
          \<and> ss_end (viewer_session tags v) = Served
      | Ended e \<Rightarrow> ss_written (viewer_session tags v) = vw_sent v \<and> ss_end (viewer_session tags v) = e
          \<and> e \<noteq> Serving \<and> vw_slot v = (e = IoError \<and> vw_admitted v))"

text \<open>What was received is a run through the broadcast tags from the subscription on.\<close>

fun rx_reads :: "flv_tag list \<Rightarrow> nat \<Rightarrow> rx_result list \<Rightarrow> nat \<Rightarrow> bool" where
  "rx_reads tags p [] q \<longleftrightarrow> p = q \<and> p \<le> length tags"
| "rx_reads tags p (RxOk t # rx) q \<longleftrightarrow> p < length tags \<and> t = tags ! p \<and> rx_reads tags (Suc p) rx q"
| "rx_reads tags p (RxLagged n # rx) q \<longleftrightarrow>
     (\<exists>p'. p < p' \<and> p' \<le> length tags \<and> n = word_of_nat (p' - p) \<and> rx_reads tags p' rx q)"
| "rx_reads tags p (RxClosed # rx) q \<longleftrightarrow> False"

definition viewer_reads :: "flv_tag list \<Rightarrow> viewer \<Rightarrow> bool" where
  "viewer_reads tags v \<longleftrightarrow> rx_reads tags (vw_sub v) (vw_rx v) (vw_pos v)
     \<and> vw_start v \<le> length tags
     \<and> (in_send_loop (vw_pc v) \<or> vw_rx v \<noteq> [] \<longrightarrow> vw_start v \<le> vw_sub v)"

lemma viewer_session_stream:
  assumes "vw_admitted v" "\<forall>i < length (heads v). vw_socket v i"
  shows "viewer_session tags v = flv_stream_to (vw_socket v) (length (heads v)) (heads v) False
      ((join_relay 1 (take (vw_start v) tags))\<lparr>fp_client_count := 1\<rparr>) (vw_rx v)"
  using assms
  by (cases "vw_kind v")
    (simp_all add: viewer_session_def heads_def viewer_relay_def http_flv_session_def ws_flv_session_def
      puller_add_client_def join_relay_def puller_with_backup_def Let_def All_less_Suc2 numeral_2_eq_2)

lemma startup_of_join:
  "puller_get_startup_tags (join_relay n (take (vw_start v) tags)) = startup_of tags v"
  by (simp add: startup_of_def join_relay_def puller_get_startup_tags_def)

lemma viewer_session_loop:
  assumes "vw_admitted v" "\<forall>i < length (intro_of tags v). vw_socket v i"
    and "loop_of tags v (vw_rx v) = (k, b, ws, fin)"
  shows "ss_written (viewer_session tags v) = intro_of tags v @ ws"
    and "ss_end (viewer_session tags v) = (if fin then Served else Serving)"
proof -
  have h: "\<forall>i < length (heads v). vw_socket v i" using assms(2) by (simp add: intro_of_def)
  have k: "startup_of tags v \<noteq> [] \<Longrightarrow> vw_socket v (length (heads v))"
    using assms(2) by (simp add: intro_of_def)
  note loop = loop_after_send_loop [OF assms(3) [unfolded loop_of_def]]
  have "ss_written (viewer_session tags v) = intro_of tags v @ ws
      \<and> ss_end (viewer_session tags v) = (if fin then Served else Serving)"
  proof (cases "startup_of tags v = []")
    case True
    with loop show ?thesis
      by (simp add: viewer_session_stream [OF assms(1) h] flv_stream_to_def startup_of_join intro_of_def)
  next
    case False
    with loop k [OF False] show ?thesis
      by (simp add: viewer_session_stream [OF assms(1) h] flv_stream_to_def startup_of_join intro_of_def
          Let_def)
  qed
  then show "ss_written (viewer_session tags v) = intro_of tags v @ ws"
    and "ss_end (viewer_session tags v) = (if fin then Served else Serving)" by simp_all
qed

lemma viewer_session_startup_failed:
  assumes "vw_admitted v" "\<forall>i < length (heads v). vw_socket v i"
    and "startup_of tags v \<noteq> []" "\<not> vw_socket v (length (heads v))"
  shows "ss_written (viewer_session tags v) = heads v" "ss_end (viewer_session tags v) = Served"
  using assms(3,4)
  by (simp_all add: viewer_session_stream [OF assms(1,2)] flv_stream_to_def startup_of_join)

lemma viewer_session_refused:
  assumes "\<not> vw_admitted v"
  shows "viewer_session tags v = \<lparr>
      ss_written = (if vw_socket v 0 then [refusal_bytes (vw_kind v)] else []),
      ss_relay = viewer_relay tags v,
      ss_end = (if vw_socket v 0 \<or> vw_kind v = WsFlv then Refused else IoError)\<rparr>"
  using assms
  by (cases "vw_kind v")
    (simp_all add: viewer_session_def viewer_relay_def http_flv_session_def ws_flv_session_def
      puller_add_client_def join_relay_def puller_with_backup_def refusal_bytes_def)

lemma viewer_session_head_failed:
  assumes "vw_admitted v" "j < length (heads v)" "\<forall>i < j. vw_socket v i" "\<not> vw_socket v j"
  shows "ss_written (viewer_session tags v) = take j (heads v)"
    "ss_end (viewer_session tags v) = (if vw_kind v = WsFlv then Served else IoError)"
  using assms
  by (cases "vw_kind v"; cases j;
      simp add: viewer_session_def heads_def viewer_relay_def http_flv_session_def ws_flv_session_def
      puller_add_client_def join_relay_def puller_with_backup_def Let_def)+

section \<open>Every step keeps a connection's account\<close>

lemma heads_update [simp]:
  "heads (v\<lparr>vw_pc := x\<rparr>) = heads v" "heads (v\<lparr>vw_sent := ws\<rparr>) = heads v"
  "heads (v\<lparr>vw_slot := b\<rparr>) = heads v" "heads (v\<lparr>vw_pos := n\<rparr>) = heads v"
  "heads (v\<lparr>vw_tracker := tr\<rparr>) = heads v" "heads (v\<lparr>vw_rx := rx\<rparr>) = heads v"
  "heads (v\<lparr>vw_admitted := b\<rparr>) = heads v" "heads (v\<lparr>vw_start := n\<rparr>) = heads v"
  "heads (v\<lparr>vw_sub := n\<rparr>) = heads v"
  by (simp_all add: heads_def)

lemma startup_update [simp]:
  "startup_of tags (v\<lparr>vw_pc := x\<rparr>) = startup_of tags v"
  "startup_of tags (v\<lparr>vw_sent := ws\<rparr>) = startup_of tags v"
  "startup_of tags (v\<lparr>vw_slot := b\<rparr>) = startup_of tags v"
  "startup_of tags (v\<lparr>vw_pos := n\<rparr>) = startup_of tags v"
  "startup_of tags (v\<lparr>vw_tracker := tr\<rparr>) = startup_of tags v"
  "startup_of tags (v\<lparr>vw_rx := rx\<rparr>) = startup_of tags v"
  "startup_of tags (v\<lparr>vw_admitted := b\<rparr>) = startup_of tags v"
  "startup_of tags (v\<lparr>vw_sub := n\<rparr>) = startup_of tags v"
  by (simp_all add: startup_of_def)

lemma intro_update [simp]:
  "intro_of tags (v\<lparr>vw_pc := x\<rparr>) = intro_of tags v"
  "intro_of tags (v\<lparr>vw_sent := ws\<rparr>) = intro_of tags v"
  "intro_of tags (v\<lparr>vw_slot := b\<rparr>) = intro_of tags v"
  "intro_of tags (v\<lparr>vw_pos := n\<rparr>) = intro_of tags v"
  "intro_of tags (v\<lparr>vw_tracker := tr\<rparr>) = intro_of tags v"
  "intro_of tags (v\<lparr>vw_rx := rx\<rparr>) = intro_of tags v"
  "intro_of tags (v\<lparr>vw_admitted := b\<rparr>) = intro_of tags v"
  "intro_of tags (v\<lparr>vw_sub := n\<rparr>) = intro_of tags v"
  by (simp_all add: intro_of_def)

lemma session_update [simp]:
  "viewer_session tags (v\<lparr>vw_pc := x\<rparr>) = viewer_session tags v"
  "viewer_session tags (v\<lparr>vw_sent := ws\<rparr>) = viewer_session tags v"
  "viewer_session tags (v\<lparr>vw_slot := b\<rparr>) = viewer_session tags v"
  "viewer_session tags (v\<lparr>vw_tracker := tr\<rparr>) = viewer_session tags v"
  by (simp_all add: viewer_session_def viewer_relay_def split: viewer_kind.split)

lemma viewer_write_wrote:
  "wrote v ws \<Longrightarrow> viewer_write buf ok failed v =
     (if vw_socket v (length ws) then v\<lparr>vw_sent := ws @ [buf], vw_pc := ok\<rparr> else v\<lparr>vw_pc := failed\<rparr>)"
  by (simp add: viewer_write_def wrote_def)

lemma wrote_snoc:
  "wrote v ws \<Longrightarrow> vw_socket v (length ws) \<Longrightarrow> wrote (v\<lparr>vw_sent := ws @ [buf]\<rparr>) (ws @ [buf])"
  by (auto simp: wrote_def less_Suc_eq)

lemma wrote_update [simp]:
  "wrote (v\<lparr>vw_pc := x\<rparr>) ws = wrote v ws" "wrote (v\<lparr>vw_slot := b\<rparr>) ws = wrote v ws"
  "wrote (v\<lparr>vw_pos := n\<rparr>) ws = wrote v ws" "wrote (v\<lparr>vw_tracker := tr\<rparr>) ws = wrote v ws"
  "wrote (v\<lparr>vw_rx := rx\<rparr>) ws = wrote v ws" "wrote (v\<lparr>vw_admitted := b\<rparr>) ws = wrote v ws"
  "wrote (v\<lparr>vw_start := n\<rparr>) ws = wrote v ws" "wrote (v\<lparr>vw_sub := n\<rparr>) ws = wrote v ws"
  by (simp_all add: wrote_def)

lemma loop_update [simp]:
  "loop_of tags (v\<lparr>vw_pc := x\<rparr>) rx = loop_of tags v rx"
  "loop_of tags (v\<lparr>vw_sent := ws\<rparr>) rx = loop_of tags v rx"
  "loop_of tags (v\<lparr>vw_slot := b\<rparr>) rx = loop_of tags v rx"
  "loop_of tags (v\<lparr>vw_pos := n\<rparr>) rx = loop_of tags v rx"
  "loop_of tags (v\<lparr>vw_tracker := tr\<rparr>) rx = loop_of tags v rx"
  "loop_of tags (v\<lparr>vw_rx := rx'\<rparr>) rx = loop_of tags v rx"
  "loop_of tags (v\<lparr>vw_sub := n\<rparr>) rx = loop_of tags v rx"
  by (simp_all add: loop_of_def)

lemma loop_of_snoc: "loop_of tags v (rx @ [x]) = loop_event (vw_socket v) x (loop_of tags v rx)"
  by (simp add: loop_of_def loop_after_snoc)

lemma loop_of_count: "loop_of tags v rx = (k, b, ws, fin) \<Longrightarrow> k = length (intro_of tags v) + length ws"
  unfolding loop_of_def by (rule loop_after_count)

lemma rx_reads_snoc:
  "rx_reads tags p (rx @ [x]) q \<longleftrightarrow> (\<exists>m. rx_reads tags p rx m \<and> rx_reads tags m [x] q)"
proof (induction rx arbitrary: p)
  case Nil
  have "rx_reads tags p [x] q \<Longrightarrow> p \<le> length tags" by (cases x) auto
  then show ?case by auto
next
  case (Cons y rx)
  then show ?case by (cases y) auto
qed

lemma rx_reads_bound: "rx_reads tags p rx q \<Longrightarrow> q \<le> length tags"
proof (induction rx arbitrary: p)
  case (Cons x rx)
  then show ?case by (cases x) auto
qed simp

lemma recv_reads:
  assumes "broadcast_receiver recv" "recv tags pos = Some (x, p)" "pos \<le> length tags"
  shows "rx_reads tags pos [x] p"
  using assms(1) [unfolded broadcast_receiver_def, rule_format, OF assms(3)] assms(2)
  by (cases x) auto

lemma recv_idle_iff:
  assumes "broadcast_receiver recv" "pos \<le> length tags"
  shows "recv tags pos = None \<longleftrightarrow> pos = length tags"
proof (cases "recv tags pos")
  case None
  with assms(1) [unfolded broadcast_receiver_def, rule_format, OF assms(2)] show ?thesis by simp
next
  case (Some a)
  obtain x p where "a = (x, p)" by (cases a)
  with Some assms(1) [unfolded broadcast_receiver_def, rule_format, OF assms(2)] show ?thesis
    by (cases x) auto
qed

lemma receive_fields [simp]:
  "vw_rx (viewer_receive x p v) = vw_rx v @ [x]" "vw_pos (viewer_receive x p v) = p"
  "vw_sub (viewer_receive x p v) = vw_sub v" "vw_start (viewer_receive x p v) = vw_start v"
  "vw_slot (viewer_receive x p v) = vw_slot v" "vw_sent (viewer_receive x p v) = vw_sent v"
  "vw_kind (viewer_receive x p v) = vw_kind v" "vw_admitted (viewer_receive x p v) = vw_admitted v"
  by (auto simp: viewer_receive_def Let_def split: rx_result.splits prod.splits bool.splits)

lemma write_fields [simp]:
  "vw_rx (viewer_write buf ok failed v) = vw_rx v" "vw_pos (viewer_write buf ok failed v) = vw_pos v"
  "vw_sub (viewer_write buf ok failed v) = vw_sub v" "vw_start (viewer_write buf ok failed v) = vw_start v"
  "vw_slot (viewer_write buf ok failed v) = vw_slot v" "vw_kind (viewer_write buf ok failed v) = vw_kind v"
  "vw_admitted (viewer_write buf ok failed v) = vw_admitted v"
  by (simp_all add: viewer_write_def)

lemma wrote_wf: "wrote v ws \<Longrightarrow> \<forall>i < length ws. vw_socket v i" "wrote v ws \<Longrightarrow> vw_sent v = ws"
  by (simp_all add: wrote_def)

text \<open>The send loop: a receive, a write, an end.\<close>

lemma recv_step_ok:
  assumes ok: "viewer_ok tags v" and pc: "vw_pc v = AtRecv"
  shows "viewer_ok tags (viewer_receive x p v)"
proof -
  from ok pc obtain ws k where adm: "vw_admitted v" "vw_slot v \<or> vw_kind v = WsFlv" and w: "wrote v (intro_of tags v @ ws)"
    and l: "loop_of tags v (vw_rx v) = (k, vw_tracker v, ws, False)" by (auto simp: viewer_ok_def)
  show ?thesis
  proof (cases x)
    case (RxOk t)
    obtain d b where d: "tracker_should_drop (vw_tracker v) t = (d, b)"
      by (cases "tracker_should_drop (vw_tracker v) t")
    with RxOk adm pc w l show ?thesis
      by (cases d) (auto simp: viewer_receive_def viewer_ok_def loop_of_snoc)
  next
    case (RxLagged n)
    with adm pc w l show ?thesis by (auto simp: viewer_receive_def viewer_ok_def loop_of_snoc)
  next
    case RxClosed
    let ?v = "viewer_receive x p v"
    have "loop_of tags ?v (vw_rx ?v) = (k, vw_tracker v, ws, True)"
      using RxClosed l by (simp add: viewer_receive_def loop_of_snoc)
    with viewer_session_loop [of ?v tags k "vw_tracker v" ws True] adm w RxClosed
    show ?thesis by (simp add: viewer_receive_def viewer_ok_def wrote_def)
  qed
qed

lemma write_tag_ok:
  assumes ok: "viewer_ok tags v" and pc: "vw_pc v = WriteTag t"
  shows "viewer_ok tags (viewer_write (build_flv_tag_wire t) (RecordTag (length (build_flv_tag_wire t))) AtLeave v)"
proof -
  from ok pc obtain ws k b rx where adm: "vw_admitted v" "vw_slot v \<or> vw_kind v = WsFlv" and w: "wrote v (intro_of tags v @ ws)"
    and rx: "vw_rx v = rx @ [RxOk t]" and l: "loop_of tags v rx = (k, b, ws, False)"
    and d: "tracker_should_drop b t = (False, vw_tracker v)" by (auto simp: viewer_ok_def)
  note k = loop_of_count [OF l]
  show ?thesis
  proof (cases "vw_socket v k")
    case True
    with k adm w rx l d wrote_snoc [OF w, of "build_flv_tag_wire t"] show ?thesis
      by (simp add: viewer_write_wrote [OF w] viewer_ok_def)
  next
    case False
    with rx l d have "loop_of tags v (vw_rx v) = (k, vw_tracker v, ws, True)"
      by (simp add: loop_of_snoc)
    from viewer_session_loop [OF adm(1) _ this] w have
      "ss_written (viewer_session tags v) = intro_of tags v @ ws" "ss_end (viewer_session tags v) = Served"
      by (simp_all add: wrote_def)
    with False k adm w show ?thesis
      by (simp add: viewer_write_wrote [OF w] viewer_ok_def wrote_def)
  qed
qed

lemma record_tag_ok:
  assumes ok: "viewer_ok tags v" and pc: "vw_pc v = RecordTag n"
  shows "viewer_ok tags (v\<lparr>vw_tracker := relieve_pressure (vw_tracker v), vw_pc := AtRecv\<rparr>)"
proof -
  from ok pc obtain ws k b rx t where adm: "vw_admitted v" "vw_slot v \<or> vw_kind v = WsFlv"
    and w: "wrote v (intro_of tags v @ ws @ [build_flv_tag_wire t])"
    and rx: "vw_rx v = rx @ [RxOk t]" and l: "loop_of tags v rx = (k, b, ws, False)"
    and d: "tracker_should_drop b t = (False, vw_tracker v)" by (auto simp: viewer_ok_def)
  have "vw_socket v k" using w loop_of_count [OF l] by (simp add: wrote_def)
  with rx l d have "loop_of tags v (vw_rx v)
      = (k + 1, relieve_pressure (vw_tracker v), ws @ [build_flv_tag_wire t], False)"
    by (simp add: loop_of_snoc)
  with adm w show ?thesis by (auto simp: viewer_ok_def)
qed

text \<open>The writes before the loop.\<close>

lemma refusal_ok:
  assumes ok: "viewer_ok tags v" and pc: "vw_pc v = WriteRefusal"
  shows "viewer_ok tags (viewer_write (refusal_bytes (vw_kind v)) (Ended Refused)
            (case vw_kind v of HttpFlv c \<Rightarrow> Ended IoError | WsFlv \<Rightarrow> Ended Refused) v)"
proof -
  from ok pc have w: "wrote v []" and "\<not> vw_slot v" "\<not> vw_admitted v" by (auto simp: viewer_ok_def)
  with viewer_session_refused [of v tags] w show ?thesis
    by (simp add: viewer_write_wrote [OF w] viewer_ok_def wrote_def split: viewer_kind.split)
qed

lemma write_response_ok:
  assumes ok: "viewer_ok tags v" and pc: "vw_pc v = WriteResponse" and kind: "vw_kind v = HttpFlv c"
  shows "viewer_ok tags (viewer_write (ascii (flv_response_header c)) WriteFlvHeader (Ended IoError) v)"
proof -
  from ok pc have w: "wrote v []" and adm: "vw_rx v = []" "vw_slot v" "vw_admitted v"
    by (auto simp: viewer_ok_def)
  show ?thesis
  proof (cases "vw_socket v 0")
    case True
    with w adm kind wrote_snoc [OF w, of "ascii (flv_response_header c)"] show ?thesis
      by (simp add: viewer_write_wrote [OF w] viewer_ok_def heads_def)
  next
    case False
    with viewer_session_head_failed [of v 0 tags] w adm kind show ?thesis
      by (simp add: viewer_write_wrote [OF w] viewer_ok_def heads_def wrote_def)
  qed
qed

lemma write_flv_header_ok:
  assumes ok: "viewer_ok tags v" and pc: "vw_pc v = WriteFlvHeader"
  shows "viewer_ok tags (viewer_write build_flv_header ReadStartup
            (case vw_kind v of HttpFlv c \<Rightarrow> Ended IoError | WsFlv \<Rightarrow> AtLeave) v)"
proof -
  from ok pc have w: "wrote v (butlast (heads v))" and adm: "vw_rx v = []" "vw_slot v" "vw_admitted v"
    by (auto simp: viewer_ok_def)
  have h: "butlast (heads v) @ [build_flv_header] = heads v" "heads v \<noteq> []"
    by (simp_all add: heads_def split: viewer_kind.split)
  let ?k = "length (butlast (heads v))"
  show ?thesis
  proof (cases "vw_socket v ?k")
    case True
    with w adm h wrote_snoc [OF w, of build_flv_header] show ?thesis
      by (simp add: viewer_write_wrote [OF w] viewer_ok_def)
  next
    case False
    have "?k < length (heads v)" using h(2) by simp
    from viewer_session_head_failed [OF adm(3) this wrote_wf(1) [OF w] False, of tags] w adm False
    show ?thesis
      by (simp add: viewer_write_wrote [OF w] viewer_ok_def wrote_def butlast_conv_take
          split: viewer_kind.split)
  qed
qed

lemma write_startup_ok:
  assumes ok: "viewer_ok tags v" and pc: "vw_pc v = WriteStartup st"
  shows "viewer_ok tags (viewer_write (startup_buffer st) (RecordStartup (length (startup_buffer st))) AtLeave v)"
proof -
  from ok pc have w: "wrote v (heads v)" and adm: "vw_rx v = []" "vw_slot v" "vw_admitted v"
    and st: "st = startup_of tags v" "startup_of tags v \<noteq> []" by (auto simp: viewer_ok_def)
  show ?thesis
  proof (cases "vw_socket v (length (heads v))")
    case True
    with w adm st wrote_snoc [OF w, of "startup_buffer st"] show ?thesis
      by (simp add: viewer_write_wrote [OF w] viewer_ok_def intro_of_def)
  next
    case False
    with viewer_session_startup_failed [OF adm(3) wrote_wf(1) [OF w] st(2) False] w adm show ?thesis
      by (simp add: viewer_write_wrote [OF w] viewer_ok_def wrote_def)
  qed
qed

lemma write_pc:
  "vw_pc (viewer_write buf ok failed v) = ok \<or> vw_pc (viewer_write buf ok failed v) = failed"
  by (simp add: viewer_write_def)

lemma viewer_turn_ok:
  assumes ok: "viewer_ok tags v"
    and cache: "fp_gop_cache relay = gop_run gop_cache_config_default (take cached tags)"
    and turn: "viewer_turn recv tags cached relay v = Some (r, v')"
  shows "viewer_ok tags v'"
proof (cases "vw_pc v")
  case AddClient
  with ok turn show ?thesis
    by (auto simp: viewer_turn_def viewer_ok_def heads_def wrote_def split: prod.splits bool.splits
        viewer_kind.splits)
next
  case WriteRefusal
  with turn refusal_ok [OF ok] show ?thesis by (simp add: viewer_turn_def)
next
  case WriteResponse
  with turn write_response_ok [OF ok] show ?thesis
    by (auto simp: viewer_turn_def split: viewer_kind.splits)
next
  case WriteFlvHeader
  with turn write_flv_header_ok [OF ok] show ?thesis by (simp add: viewer_turn_def)
next
  case ReadStartup
  with ok turn cache show ?thesis
    by (auto simp: viewer_turn_def viewer_ok_def Let_def puller_get_startup_tags_def startup_of_def intro_of_def)
next
  case (WriteStartup st)
  with turn write_startup_ok [OF ok] show ?thesis by (simp add: viewer_turn_def Let_def)
next
  case (RecordStartup n)
  with ok turn show ?thesis by (auto simp: viewer_turn_def viewer_ok_def)
next
  case Subscribe
  with ok turn show ?thesis by (auto simp: viewer_turn_def viewer_ok_def loop_of_def)
next
  case AtRecv
  with turn recv_step_ok [OF ok] show ?thesis by (auto simp: viewer_turn_def split: option.splits)
next
  case (WriteTag t)
  with turn write_tag_ok [OF ok] show ?thesis by (simp add: viewer_turn_def Let_def)
next
  case (RecordTag n)
  with turn record_tag_ok [OF ok] show ?thesis by (auto simp: viewer_turn_def)
next
  case AtLeave
  with ok turn show ?thesis by (auto simp: viewer_turn_def viewer_ok_def split: if_splits)
next
  case (Ended e)
  with turn show ?thesis by (simp add: viewer_turn_def)
qed

lemma viewer_turn_reads:
  assumes recv: "broadcast_receiver recv" and ok: "viewer_ok tags v" and reads: "viewer_reads tags v"
    and cached: "cached \<le> length tags" and turn: "viewer_turn recv tags cached relay v = Some (r, v')"
  shows "viewer_reads tags v'"
proof -
  have bound: "vw_pos v \<le> length tags" using reads rx_reads_bound by (auto simp: viewer_reads_def)
  have early: "vw_rx v = []" if "vw_pc v = ReadStartup \<or> vw_pc v = Subscribe"
    using ok that by (auto simp: viewer_ok_def)
  show ?thesis
  proof (cases "vw_pc v")
    case AtRecv
    with turn obtain x p where x: "recv tags (vw_pos v) = Some (x, p)" "v' = viewer_receive x p v"
      by (auto simp: viewer_turn_def split: option.splits)
    from recv_reads [OF recv x(1) bound] reads x(2) AtRecv show ?thesis
      by (auto simp: viewer_reads_def rx_reads_snoc)
  next
    case ReadStartup
    with early reads turn cached show ?thesis
      by (auto simp: viewer_turn_def viewer_reads_def Let_def split: if_splits)
  next
    case Subscribe
    with early reads turn show ?thesis by (auto simp: viewer_turn_def viewer_reads_def)
  qed (use reads turn in \<open>auto simp: viewer_turn_def viewer_reads_def viewer_write_def Let_def split: prod.splits bool.splits viewer_kind.splits if_splits\<close>)
qed

text \<open>Later tags do not change what a connection has read.\<close>

lemma take_start [simp]: "n \<le> length tags \<Longrightarrow> take n (tags @ [t]) = take n tags"
  by simp

lemma viewer_ok_later:
  assumes "viewer_ok tags v" "vw_start v \<le> length tags"
  shows "viewer_ok (tags @ [t]) v"
proof -
  have "startup_of (tags @ [t]) v = startup_of tags v" "intro_of (tags @ [t]) v = intro_of tags v"
    "viewer_session (tags @ [t]) v = viewer_session tags v"
    using assms(2) by (simp_all add: startup_of_def intro_of_def viewer_session_def viewer_relay_def
        split: viewer_kind.split)
  with assms(1) show ?thesis by (simp only: viewer_ok_def loop_of_def)
qed

lemma rx_reads_later: "rx_reads tags p rx q \<Longrightarrow> rx_reads (tags @ [t]) p rx q"
proof (induction rx arbitrary: p)
  case (Cons x rx)
  then show ?case
  proof (cases x)
    case (RxLagged n)
    with Cons.prems obtain p' where "p < p'" "p' \<le> length tags" "n = word_of_nat (p' - p)"
      "rx_reads tags p' rx q" by auto
    with RxLagged Cons.IH [of p'] show ?thesis by auto
  qed (auto simp: nth_append)
qed simp

lemma viewer_reads_later: "viewer_reads tags v \<Longrightarrow> viewer_reads (tags @ [t]) v"
  by (auto simp: viewer_reads_def rx_reads_later)

lemma viewer_start: "viewer_reads tags v \<Longrightarrow> vw_start v \<le> length tags"
  by (simp add: viewer_reads_def)

lemma viewer_select_ok:
  assumes "viewer_select relay v = Some (r, v')"
  shows "viewer_ok tags v' = viewer_ok tags v" "viewer_reads tags v' = viewer_reads tags v"
proof -
  from assms have v': "v' = v\<lparr>vw_slot := False\<rparr>" and pc: "in_send_loop (vw_pc v)"
    and kind: "vw_kind v = WsFlv" by (auto simp: viewer_select_def split: if_splits)
  from pc show "viewer_ok tags v' = viewer_ok tags v"
    unfolding v' by (cases rule: in_send_loopE) (simp_all add: viewer_ok_def kind)
  show "viewer_reads tags v' = viewer_reads tags v" by (simp add: v' viewer_reads_def)
qed

lemma new_viewer_ok: "viewer_ok tags (new_viewer kind wr)" "viewer_reads tags (new_viewer kind wr)"
  by (simp_all add: viewer_ok_def viewer_reads_def new_viewer_def wrote_def)

section \<open>The relay's counters\<close>

text \<open>Bytes a connection has written after its headers, and those not recorded yet.\<close>

definition media_bytes :: "viewer \<Rightarrow> nat" where
  "media_bytes v = total_len (drop (length (heads v)) (vw_sent v))"

definition unrecorded :: "viewer \<Rightarrow> nat" where
  "unrecorded v = (case vw_pc v of RecordStartup n \<Rightarrow> n | RecordTag n \<Rightarrow> n | _ \<Rightarrow> 0)"

definition slots :: "viewer list \<Rightarrow> nat" where
  "slots vs = (\<Sum>v \<leftarrow> vs. if vw_slot v then 1 else 0)"

definition in_transit :: "viewer list \<Rightarrow> u64" where
  "in_transit vs = (\<Sum>v \<leftarrow> vs. word_of_nat (unrecorded v))"

definition media_total :: "viewer list \<Rightarrow> u64" where
  "media_total vs = (\<Sum>v \<leftarrow> vs. word_of_nat (media_bytes v))"

lemma unrecorded_simps [simp]:
  "vw_pc v = RecordStartup n \<Longrightarrow> unrecorded v = n" "vw_pc v = RecordTag n \<Longrightarrow> unrecorded v = n"
  "\<not> in_send_loop (vw_pc v) \<Longrightarrow> (\<And>n. vw_pc v \<noteq> RecordStartup n) \<Longrightarrow> unrecorded v = 0"
  "vw_pc v = AtRecv \<Longrightarrow> unrecorded v = 0" "vw_pc v = WriteTag t \<Longrightarrow> unrecorded v = 0"
  by (cases "vw_pc v"; auto simp: unrecorded_def)+

text \<open>
  The contribution of one connection's step to the counters: \<open>m\<close> counts, the sum of what
  is recorded and still to be recorded grows by what was written.
\<close>

lemma turn_counts:
  assumes "viewer_turn recv tags cached relay v = Some (r, v')"
    and "vw_slot v \<Longrightarrow> 0 < fp_client_count relay" and "fp_client_count relay \<le> fp_max_clients relay"
    and "viewer_ok tags v"
  shows "fp_client_count r + (if vw_slot v then 1 else 0) = fp_client_count relay + (if vw_slot v' then 1 else 0)"
    "fp_client_count r \<le> fp_max_clients r" "fp_max_clients r = fp_max_clients relay"
    "fp_gop_cache r = fp_gop_cache relay"
  using assms
  by (cases "vw_pc v"; auto simp: viewer_turn_def viewer_ok_def puller_add_client_def puller_remove_client_def
      puller_record_bytes_sent_def Let_def split: if_splits viewer_kind.splits option.splits)+

lemma media_early: "length (vw_sent v) \<le> length (heads v) \<Longrightarrow> media_bytes v = 0"
  by (simp add: media_bytes_def)

lemma media_update [simp]:
  "media_bytes (v\<lparr>vw_pc := x\<rparr>) = media_bytes v" "media_bytes (v\<lparr>vw_slot := b\<rparr>) = media_bytes v"
  "media_bytes (v\<lparr>vw_pos := n\<rparr>) = media_bytes v" "media_bytes (v\<lparr>vw_tracker := tr\<rparr>) = media_bytes v"
  "media_bytes (v\<lparr>vw_rx := rx\<rparr>) = media_bytes v" "media_bytes (v\<lparr>vw_admitted := b\<rparr>) = media_bytes v"
  "media_bytes (v\<lparr>vw_start := n\<rparr>) = media_bytes v" "media_bytes (v\<lparr>vw_sub := n\<rparr>) = media_bytes v"
  by (simp_all add: media_bytes_def)

lemma media_snoc:
  "length (heads v) \<le> length (vw_sent v) \<Longrightarrow>
   media_bytes (v\<lparr>vw_sent := vw_sent v @ [buf]\<rparr>) = media_bytes v + length buf"
  by (simp add: media_bytes_def)

lemma media_set: "length ws \<le> length (heads v) \<Longrightarrow> media_bytes (v\<lparr>vw_sent := ws\<rparr>) = 0"
  by (simp add: media_bytes_def)

lemma heads_nonempty: "Suc 0 \<le> length (heads v)"
  by (simp add: heads_def split: viewer_kind.split)

lemma intro_heads: "length (heads v) \<le> length (intro_of tags v)"
  by (simp add: intro_of_def)

lemma receive_counters [simp]:
  "media_bytes (viewer_receive x p v) = media_bytes v"
  "vw_pc v = AtRecv \<Longrightarrow> unrecorded (viewer_receive x p v) = 0"
  by (auto simp: viewer_receive_def unrecorded_def Let_def
      split: rx_result.splits prod.splits bool.splits)

text \<open>What is written before the start-up tags is not media.\<close>

lemma turn_bytes_head:
  assumes turn: "viewer_turn recv tags cached relay v = Some (r, v')" and ok: "viewer_ok tags v"
    and pc: "vw_pc v \<in> {WriteRefusal, WriteResponse, WriteFlvHeader}"
  shows "fp_bytes_sent r + word_of_nat (unrecorded v') + word_of_nat (media_bytes v) =
     fp_bytes_sent relay + word_of_nat (unrecorded v) + word_of_nat (media_bytes v')"
  using pc turn ok heads_nonempty [of v]
  by (elim insertE emptyE) (auto simp: viewer_turn_def viewer_write_def unrecorded_def viewer_ok_def wrote_def
      media_early media_set split: if_splits viewer_kind.splits)

lemma turn_bytes:
  assumes turn: "viewer_turn recv tags cached relay v = Some (r, v')" and ok: "viewer_ok tags v"
  shows "fp_bytes_sent r + word_of_nat (unrecorded v') + word_of_nat (media_bytes v) =
     fp_bytes_sent relay + word_of_nat (unrecorded v) + word_of_nat (media_bytes v')"
proof (cases "vw_pc v")
  case AddClient
  with turn show ?thesis
    by (auto simp: viewer_turn_def puller_add_client_def unrecorded_def Let_def
        split: if_splits viewer_kind.splits)
next
  case WriteRefusal
  then show ?thesis by (intro turn_bytes_head [OF turn ok]) simp
next
  case WriteResponse
  then show ?thesis by (intro turn_bytes_head [OF turn ok]) simp
next
  case WriteFlvHeader
  then show ?thesis by (intro turn_bytes_head [OF turn ok]) simp
next
  case ReadStartup
  with turn show ?thesis by (auto simp: viewer_turn_def unrecorded_def Let_def)
next
  case (WriteStartup st)
  with turn ok media_snoc [of v "startup_buffer st"] show ?thesis
    by (auto simp: viewer_turn_def viewer_write_def unrecorded_def viewer_ok_def wrote_def Let_def
        split: if_splits)
next
  case (RecordStartup n)
  with turn show ?thesis
    by (auto simp: viewer_turn_def unrecorded_def puller_record_bytes_sent_def)
next
  case Subscribe
  with turn show ?thesis by (auto simp: viewer_turn_def unrecorded_def)
next
  case AtRecv
  with turn show ?thesis by (auto simp: viewer_turn_def split: option.splits)
next
  case (WriteTag t)
  with ok intro_heads [of v tags] have "length (heads v) \<le> length (vw_sent v)"
    by (auto simp: viewer_ok_def wrote_def)
  with WriteTag turn media_snoc [of v "build_flv_tag_wire t"] show ?thesis
    by (auto simp: viewer_turn_def viewer_write_def unrecorded_def Let_def split: if_splits)
next
  case (RecordTag n)
  with turn show ?thesis
    by (auto simp: viewer_turn_def unrecorded_def puller_record_bytes_sent_def)
next
  case AtLeave
  with turn show ?thesis
    by (auto simp: viewer_turn_def unrecorded_def puller_remove_client_def split: if_splits)
next
  case (Ended e)
  with turn show ?thesis by (simp add: viewer_turn_def)
qed

lemma sum_list_map_update:
  fixes f :: "'a \<Rightarrow> 'b::comm_monoid_add"
  shows "i < length xs \<Longrightarrow> sum_list (map f (xs[i := x])) + f (xs ! i) = sum_list (map f xs) + f x"
proof (induction xs arbitrary: i)
  case (Cons y xs)
  then show ?case by (cases i) (simp_all add: ac_simps)
qed simp

lemma counters_update:
  assumes "i < length vs"
  shows "slots (vs[i := v]) + (if vw_slot (vs ! i) then 1 else 0) = slots vs + (if vw_slot v then 1 else 0)"
    "in_transit (vs[i := v]) + word_of_nat (unrecorded (vs ! i)) = in_transit vs + word_of_nat (unrecorded v)"
    "media_total (vs[i := v]) + word_of_nat (media_bytes (vs ! i)) = media_total vs + word_of_nat (media_bytes v)"
  unfolding slots_def in_transit_def media_total_def by (rule sum_list_map_update [OF assms])+

lemma slot_held: "i < length vs \<Longrightarrow> vw_slot (vs ! i) \<Longrightarrow> 0 < slots vs"
  using counters_update(1) [of i vs "(vs ! i)\<lparr>vw_slot := False\<rparr>"] by simp

lemma balance:
  fixes A :: "'a::ab_group_add"
  assumes "A + u' + m = A0 + u + m'" "T' + u = T + u'" "M' + m = M + m'" "A0 + T = M"
  shows "A + T' = M'"
proof -
  have "(A + T') + (u' + m + u) = (A + u' + m) + (T' + u)" by (simp only: ac_simps)
  also have "\<dots> = (A0 + T) + m' + (u + u')" unfolding assms(1,2) by (simp only: ac_simps)
  also have "\<dots> = (M' + m) + (u + u')" unfolding assms(3,4) by (simp only: ac_simps)
  also have "\<dots> = M' + (u' + m + u)" by (simp only: ac_simps)
  finally show ?thesis by (rule add_right_imp_eq)
qed

section \<open>The invariant of the running system\<close>

definition sys_inv :: "flv_puller \<Rightarrow> flv_system \<Rightarrow> bool" where
  "sys_inv relay s \<longleftrightarrow>
     fp_gop_cache (sy_relay s) = gop_run gop_cache_config_default (take (sy_cached s) (sy_tags s))
     \<and> sy_cached s \<le> length (sy_tags s) \<and> length (sy_tags s) \<le> Suc (sy_cached s)
     \<and> (\<forall>v \<in> set (sy_viewers s). viewer_ok (sy_tags s) v \<and> viewer_reads (sy_tags s) v)
     \<and> fp_client_count (sy_relay s) = slots (sy_viewers s)
     \<and> slots (sy_viewers s) \<le> fp_max_clients relay \<and> fp_max_clients (sy_relay s) = fp_max_clients relay
     \<and> fp_bytes_sent (sy_relay s) + in_transit (sy_viewers s) = media_total (sy_viewers s)"

definition fresh_relay :: "flv_puller \<Rightarrow> bool" where
  "fresh_relay relay \<longleftrightarrow> fp_gop_cache relay = gop_cache_new gop_cache_config_default
     \<and> fp_client_count relay = 0 \<and> fp_bytes_sent relay = 0"

lemma fresh_with_backup [simp]: "fresh_relay (puller_with_backup key url backup n)"
  by (simp add: fresh_relay_def puller_with_backup_def)

lemma sys_inv_init: "fresh_relay relay \<Longrightarrow> sys_inv relay (sys_init relay)"
  by (simp add: sys_inv_def sys_init_def fresh_relay_def gop_run_def slots_def in_transit_def media_total_def)

lemma sys_inv_set:
  assumes inv: "sys_inv relay s" and i: "i < length (sy_viewers s)"
    and v: "viewer_ok (sy_tags s) v" "viewer_reads (sy_tags s) v"
    and r: "fp_gop_cache r = fp_gop_cache (sy_relay s)" "fp_max_clients r = fp_max_clients (sy_relay s)"
      "fp_client_count r \<le> fp_max_clients r"
      "fp_client_count r + (if vw_slot (sy_viewers s ! i) then 1 else 0)
        = fp_client_count (sy_relay s) + (if vw_slot v then 1 else 0)"
      "fp_bytes_sent r + word_of_nat (unrecorded v) + word_of_nat (media_bytes (sy_viewers s ! i))
        = fp_bytes_sent (sy_relay s) + word_of_nat (unrecorded (sy_viewers s ! i)) + word_of_nat (media_bytes v)"
  shows "sys_inv relay (sys_set i s (r, v))"
proof -
  let ?vs = "sy_viewers s" and ?s' = "sys_set i s (r, v)"
  note u = counters_update [OF i, of v]
  have slots: "fp_client_count r = slots (?vs[i := v])"
    using r(4) u(1) inv by (auto simp: sys_inv_def split: if_splits)
  have "fp_bytes_sent r + in_transit (?vs[i := v]) = media_total (?vs[i := v])"
    using inv unfolding sys_inv_def by (intro balance [OF r(5) u(2,3)]) simp
  moreover have "\<forall>w \<in> set (?vs[i := v]). viewer_ok (sy_tags s) w \<and> viewer_reads (sy_tags s) w"
    using inv v set_update_subset_insert [of ?vs i v] by (auto simp: sys_inv_def)
  ultimately show ?thesis using slots r inv by (auto simp: sys_inv_def sys_set_def)
qed

lemma sys_inv_turn:
  assumes recv: "broadcast_receiver recv" and inv: "sys_inv relay s" and step: "sys_apply recv (Turn i) s = Some s'"
  shows "sys_inv relay s'"
proof -
  let ?v = "sy_viewers s ! i"
  from step obtain r v' where i: "i < length (sy_viewers s)"
    and t: "viewer_turn recv (sy_tags s) (sy_cached s) (sy_relay s) ?v = Some (r, v')"
    and s': "s' = sys_set i s (r, v')" by (auto simp: sys_apply_def split: if_splits)
  from inv i have v: "viewer_ok (sy_tags s) ?v" "viewer_reads (sy_tags s) ?v"
    and c: "fp_client_count (sy_relay s) = slots (sy_viewers s)"
      "fp_client_count (sy_relay s) \<le> fp_max_clients (sy_relay s)"
      "sy_cached s \<le> length (sy_tags s)"
      "fp_gop_cache (sy_relay s) = gop_run gop_cache_config_default (take (sy_cached s) (sy_tags s))"
    by (auto simp: sys_inv_def)
  have held: "vw_slot ?v \<Longrightarrow> 0 < fp_client_count (sy_relay s)" using slot_held [OF i] c(1) by simp
  show ?thesis
    unfolding s'
    using turn_counts [OF t held c(2) v(1)] turn_bytes [OF t v(1)]
      viewer_turn_ok [OF v(1) c(4) t] viewer_turn_reads [OF recv v c(3) t]
    by (intro sys_inv_set [OF inv i]) simp_all
qed

lemma sys_inv_peer_gone:
  assumes inv: "sys_inv relay s" and step: "sys_apply recv (PeerGone i) s = Some s'"
  shows "sys_inv relay s'"
proof -
  let ?v = "sy_viewers s ! i"
  from step obtain r v' where i: "i < length (sy_viewers s)"
    and t: "viewer_select (sy_relay s) ?v = Some (r, v')"
    and s': "s' = sys_set i s (r, v')" by (auto simp: sys_apply_def split: if_splits)
  from inv i have v: "viewer_ok (sy_tags s) ?v" "viewer_reads (sy_tags s) ?v"
    and c: "fp_client_count (sy_relay s) = slots (sy_viewers s)"
      "fp_client_count (sy_relay s) \<le> fp_max_clients (sy_relay s)"
    by (auto simp: sys_inv_def)
  from t slot_held [OF i] c(1) have f: "r = puller_remove_client (sy_relay s)" "vw_slot ?v"
    "v' = ?v\<lparr>vw_slot := False\<rparr>" "0 < fp_client_count (sy_relay s)"
    by (auto simp: viewer_select_def split: if_splits)
  have "unrecorded (?v\<lparr>vw_slot := False\<rparr>) = unrecorded ?v" by (simp add: unrecorded_def)
  with f c v viewer_select_ok [OF t, of "sy_tags s"] show ?thesis
    unfolding s' by (intro sys_inv_set [OF inv i]) (simp_all add: puller_remove_client_def)
qed

lemma sys_inv_step:
  assumes recv: "broadcast_receiver recv" and inv: "sys_inv relay s" and step: "sys_apply recv a s = Some s'"
  shows "sys_inv relay s'"
proof (cases a)
  case (Connect kind wr)
  with step inv new_viewer_ok [of "sy_tags s" kind wr] show ?thesis
    by (auto simp: sys_apply_def sys_inv_def slots_def in_transit_def media_total_def new_viewer_def
        unrecorded_def media_bytes_def)
next
  case (Broadcast t)
  with step inv show ?thesis
    by (auto simp: sys_apply_def sys_inv_def viewer_start intro!: viewer_ok_later viewer_reads_later
        split: if_splits)
next
  case CacheTag
  from CacheTag step have c: "sy_cached s < length (sy_tags s)" by (simp add: sys_apply_def split: if_splits)
  then have "gop_run cfg (take (Suc (sy_cached s)) (sy_tags s))
      = gop_add_tag (sy_tags s ! sy_cached s) (gop_run cfg (take (sy_cached s) (sy_tags s)))" for cfg
    by (simp only: take_Suc_conv_app_nth gop_run_snoc)
  from this [of gop_cache_config_default] c CacheTag step inv show ?thesis
    by (auto simp: sys_apply_def sys_inv_def)
next
  case StreamEnds
  with step inv show ?thesis by (auto simp: sys_apply_def sys_inv_def split: if_splits)
next
  case (Turn i)
  with step show ?thesis by (intro sys_inv_turn [OF recv inv]) simp
next
  case (PeerGone i)
  with step show ?thesis by (intro sys_inv_peer_gone [OF inv]) simp
qed

lemma sys_reach_inv:
  assumes "broadcast_receiver recv" "fresh_relay relay" "sys_reach recv relay s"
  shows "sys_inv relay s"
  using assms(3)
  by (induction rule: sys_reach.induct) (use assms(1,2) in \<open>auto intro: sys_inv_init sys_inv_step\<close>)

end
