(* ===== verification/Flv_System_Props.thy ===== *)
theory Flv_System_Props
  imports Flv_System
begin

text \<open>
  What the concurrent FLV relay of theory \<open>Flv_System\<close> guarantees in every reachable state:
  each connection is one of the sequential sessions of theory \<open>Flv_Session\<close>, sees the stream in
  order, and moves unless it has everything; the relay's counters are exact. And what it does not:
  detached senders escape the capacity, the end of the stream is never passed on.
\<close>

section \<open>What a viewer gets\<close>

lemma reads_events:
  assumes "rx_reads tags p rx q"
  shows "\<exists>es. rx = map to_rx es \<and> subseq (received es) (drop p tags)
    \<and> ((\<forall>n. RxLagged n \<notin> set rx) \<longrightarrow> es = map Recv (take (q - p) (drop p tags)) \<and> p \<le> q)"
  using assms
proof (induction rx arbitrary: p)
  case (Cons x rx)
  show ?case
  proof (cases x)
    case (RxOk t)
    with Cons.prems have t: "p < length tags" "t = tags ! p" "rx_reads tags (Suc p) rx q" by auto
    obtain es where es: "rx = map to_rx es" "subseq (received es) (drop (Suc p) tags)"
      "(\<forall>n. RxLagged n \<notin> set rx) \<longrightarrow> es = map Recv (take (q - Suc p) (drop (Suc p) tags)) \<and> Suc p \<le> q"
      using Cons.IH [OF t(3)] by blast
    have d: "drop p tags = t # drop (Suc p) tags" using t by (simp add: Cons_nth_drop_Suc)
    show ?thesis
    proof (intro exI [of _ "Recv t # es"] conjI impI)
      assume "\<forall>n. RxLagged n \<notin> set (x # rx)"
      with es(3) have e: "es = map Recv (take (q - Suc p) (drop (Suc p) tags))" "Suc p \<le> q" by auto
      then have "q - p = Suc (q - Suc p)" by simp
      with e(1) d show "Recv t # es = map Recv (take (q - p) (drop p tags))" by simp
      show "p \<le> q" using e(2) by simp
    next
      show "x # rx = map to_rx (Recv t # es)" using RxOk es(1) by simp
      show "subseq (received (Recv t # es)) (drop p tags)" using es(2) d by simp
    qed
  next
    case (RxLagged n)
    with Cons.prems obtain p' where "p < p'" "rx_reads tags p' rx q" by auto
    with Cons.IH obtain es where es: "rx = map to_rx es" "subseq (received es) (drop p' tags)" by blast
    have "drop p' tags = drop (p' - p) (drop p tags)" using \<open>p < p'\<close> by simp
    with es(2) have "subseq (received es) (drop p tags)"
      by (metis subseq_order.trans suffix_drop suffix_imp_subseq)
    with es(1) RxLagged show ?thesis by (intro exI [of _ "Lagged n # es"]) auto
  qed (use Cons.prems in simp)
qed simp

lemma send_loop_wrote:
  "flv_send_loop wr k b r (map to_rx es) = (ws, r', False) \<Longrightarrow> ws = map build_flv_tag_wire (flv_deliver b es)"
proof (induction es arbitrary: k b r ws)
  case (Cons e es)
  show ?case
  proof (cases e)
    case (Recv t)
    obtain d b' where d: "tracker_should_drop b t = (d, b')" by (cases "tracker_should_drop b t")
    with Recv Cons show ?thesis
      by (cases d) (auto simp: Let_def case_prod_unfold split: prod.splits if_splits)
  qed (use Cons in auto)
qed simp

lemma loop_wrote:
  assumes "loop_of tags v rx = (k, b, ws, False)" "rx = map to_rx es"
  shows "ws = map build_flv_tag_wire (flv_deliver tracker_with_default_policy es)"
  using send_loop_wrote loop_after_send_loop [OF assms(1) [unfolded loop_of_def]] unfolding assms(2) by blast

lemma serving_viewer:
  assumes ok: "viewer_ok tags v" and reads: "viewer_reads tags v" and pc: "vw_pc v = AtRecv"
  shows "\<exists>ds. vw_sent v = intro_of tags v @ map build_flv_tag_wire ds
    \<and> subseq ds (drop (vw_sub v) tags) \<and> vw_start v \<le> vw_sub v
    \<and> ((\<forall>n. RxLagged n \<notin> set (vw_rx v)) \<longrightarrow> ds = take (vw_pos v - vw_sub v) (drop (vw_sub v) tags))"
proof -
  let ?b = tracker_with_default_policy
  from ok pc obtain ws k where w: "wrote v (intro_of tags v @ ws)"
    and l: "loop_of tags v (vw_rx v) = (k, vw_tracker v, ws, False)" by (auto simp: viewer_ok_def)
  from reads have "rx_reads tags (vw_sub v) (vw_rx v) (vw_pos v)" by (simp add: viewer_reads_def)
  from reads_events [OF this] obtain es where es: "vw_rx v = map to_rx es"
    "subseq (received es) (drop (vw_sub v) tags)"
    "(\<forall>n. RxLagged n \<notin> set (vw_rx v)) \<longrightarrow> es = map Recv (take (vw_pos v - vw_sub v) (drop (vw_sub v) tags))"
    by blast
  have start: "vw_start v \<le> vw_sub v" using reads pc by (simp add: viewer_reads_def)
  have calm: "flv_deliver ?b (map Recv us) = us" for us
    by (rule tracker.calm_delivers_all) (simp add: tracker_with_default_policy_def tracker_new_def)
  show ?thesis
  proof (intro exI [of _ "flv_deliver ?b es"] conjI impI)
    show "vw_sent v = intro_of tags v @ map build_flv_tag_wire (flv_deliver ?b es)"
      using w loop_wrote [OF l es(1)] by (simp add: wrote_def)
    show "subseq (flv_deliver ?b es) (drop (vw_sub v) tags)"
      using tracker.delivered_subseq es(2) by (rule subseq_order.trans)
    assume "\<forall>n. RxLagged n \<notin> set (vw_rx v)"
    with es(3) have "es = map Recv (take (vw_pos v - vw_sub v) (drop (vw_sub v) tags))" by blast
    with calm show "flv_deliver ?b es = take (vw_pos v - vw_sub v) (drop (vw_sub v) tags)" by simp
  qed (rule start)
qed

text \<open>When a connection cannot go on: it is at the end of the stream, or over.\<close>

lemma turn_blocked_iff:
  assumes recv: "broadcast_receiver recv" and ok: "viewer_ok tags v" and reads: "viewer_reads tags v"
  shows "viewer_turn recv tags cached relay v = None \<longleftrightarrow>
     vw_pc v = AtRecv \<and> vw_pos v = length tags
     \<or> (\<exists>e. vw_pc v = Ended e) \<or> vw_pc v = AtLeave \<and> \<not> vw_slot v"
proof -
  have bound: "vw_pos v \<le> length tags" using reads rx_reads_bound by (auto simp: viewer_reads_def)
  note idle = recv_idle_iff [OF recv bound]
  show ?thesis
  proof (cases "vw_pc v")
    case AtRecv
    have "viewer_turn recv tags cached relay v = None \<longleftrightarrow> recv tags (vw_pos v) = None"
      by (cases "recv tags (vw_pos v)") (simp_all add: viewer_turn_def AtRecv case_prod_unfold)
    also have "\<dots> \<longleftrightarrow> vw_pos v = length tags" by (rule idle)
    finally show ?thesis using AtRecv by simp
  next
    case WriteResponse
    with ok show ?thesis by (simp add: viewer_turn_def viewer_ok_def split: viewer_kind.splits)
  qed (simp_all add: viewer_turn_def Let_def split: prod.splits bool.splits)
qed

section \<open>The properties of the running system\<close>

lemma reach_viewer:
  assumes "broadcast_receiver recv" "fresh_relay relay" "sys_reach recv relay s" "v \<in> set (sy_viewers s)"
  shows "viewer_ok (sy_tags s) v" "viewer_reads (sy_tags s) v"
  using sys_reach_inv [OF assms(1-3)] assms(4) by (auto simp: sys_inv_def)

text \<open>
  C6: Refinement. However the tasks interleave, a connection that waits for the next tag or is
  over has written what it would have written alone, on a relay whose cache holds
  the first \<open>vw_start\<close> tags of the stream, from the answers \<open>vw_rx\<close> of a subscription made after
  \<open>vw_sub\<close> tags, and ends the same way: theory \<open>Flv_Session\<close>'s account of one connection is
  exact for every connection of a busy relay.
\<close>

theorem viewers_refine_sessions:
  assumes "broadcast_receiver recv" "fresh_relay relay" "sys_reach recv relay s" "v \<in> set (sy_viewers s)"
  shows "(vw_pc v = AtRecv \<longrightarrow>
        ss_written (viewer_session (sy_tags s) v) = vw_sent v
        \<and> ss_end (viewer_session (sy_tags s) v) = Serving \<and> vw_start v \<le> vw_sub v)
    \<and> (vw_pc v = AtLeave \<longrightarrow>
        ss_written (viewer_session (sy_tags s) v) = vw_sent v
        \<and> ss_end (viewer_session (sy_tags s) v) = Served)
    \<and> (vw_pc v = Ended e \<longrightarrow>
        ss_written (viewer_session (sy_tags s) v) = vw_sent v
        \<and> ss_end (viewer_session (sy_tags s) v) = e)
    \<and> rx_reads (sy_tags s) (vw_sub v) (vw_rx v) (vw_pos v)"
proof -
  note v = reach_viewer [OF assms]
  have "ss_written (viewer_session (sy_tags s) v) = vw_sent v
      \<and> ss_end (viewer_session (sy_tags s) v) = Serving \<and> vw_start v \<le> vw_sub v" if pc: "vw_pc v = AtRecv"
  proof -
    from v(1) pc obtain ws k where adm: "vw_admitted v" and w: "wrote v (intro_of (sy_tags s) v @ ws)"
      and l: "loop_of (sy_tags s) v (vw_rx v) = (k, vw_tracker v, ws, False)"
      by (auto simp: viewer_ok_def)
    have "\<forall>i < length (intro_of (sy_tags s) v). vw_socket v i" using w by (simp add: wrote_def)
    from viewer_session_loop [OF adm this l] w v(2) pc show ?thesis
      by (simp add: wrote_def viewer_reads_def)
  qed
  with v show ?thesis by (auto simp: viewer_ok_def viewer_reads_def)
qed

text \<open>
  One viewer, a keyframe cached before it comes, a P frame after: what the run wrote is the
  sequential session.
\<close>

definition sample_key :: flv_tag where
  "sample_key = \<lparr>tag_type = Video, timestamp_ms = 0, tag_data = [0x17, 1, 7], tag_origin_ts = 0\<rparr>"

definition sample_p :: flv_tag where
  "sample_p = \<lparr>tag_type = Video, timestamp_ms = 40, tag_data = [0x27, 1, 8], tag_origin_ts = 0\<rparr>"

definition sample_schedule :: "sys_action list" where
  "sample_schedule = [Broadcast sample_key, CacheTag, Connect WsFlv (\<lambda>_. True), Turn 0, Turn 0, Turn 0,
     Turn 0, Turn 0, Turn 0, Broadcast sample_p, Turn 0, Turn 0, Turn 0]"

definition sample_run :: "flv_system option" where
  "sample_run = sys_run (ring_recv 512) sample_schedule (sys_init (puller_new ''k'' ''u'' 1))"

lemma sample_run_facts:
  "case sample_run of None \<Rightarrow> False
   | Some s \<Rightarrow> (case sy_viewers s of [v] \<Rightarrow> vw_pc v = AtRecv \<and> length (vw_sent v) = 3 \<and> vw_start v = 1
       | _ \<Rightarrow> False) \<and> fp_bytes_sent (sy_relay s) = 36 \<and> fp_client_count (sy_relay s) = 1"
  by code_simp

lemma sample_run_some:
  obtains s v where "sample_run = Some s" "sy_viewers s = [v]" "vw_pc v = AtRecv" "length (vw_sent v) = 3"
    "fp_bytes_sent (sy_relay s) = 36" "fp_client_count (sy_relay s) = 1" "vw_start v = 1"
    "sys_reach (ring_recv 512) (puller_new ''k'' ''u'' 1) s"
  using sample_run_facts sys_run_reach [OF _ sys_reach.init, of "ring_recv 512" sample_schedule]
  unfolding sample_run_def by (auto split: option.splits list.splits)

lemma fresh_new [simp]: "fresh_relay (puller_new key url n)"
  by (simp add: puller_new_def)

theorem viewers_refine_sessions_witness:
  "\<exists>s v. sample_run = Some s \<and> sy_viewers s = [v] \<and> length (vw_sent v) = 3
    \<and> ss_written (viewer_session (sy_tags s) v) = vw_sent v"
proof -
  obtain s v where s: "sample_run = Some s" "sy_viewers s = [v]" "vw_pc v = AtRecv" "length (vw_sent v) = 3"
    "sys_reach (ring_recv 512) (puller_new ''k'' ''u'' 1) s" by (rule sample_run_some)
  with viewers_refine_sessions [OF ring_recv_ok fresh_new s(5), of v Served] show ?thesis by auto
qed



text \<open>
  C10: The relay's counters. At every moment the client count is the number of connections that
  hold a slot, and at most the capacity; a connection that was refused, or served to its
  end, holds none, an HTTP connection holds one from its admission to its end, and keeps
  it when an error on its headers ends it. The byte counter is what the connections wrote
  after their headers, less what is written but not recorded yet (modulo \<open>2 ^ 64\<close>).
\<close>

theorem relay_counters_exact:
  assumes "broadcast_receiver recv" "fresh_relay relay" "sys_reach recv relay s"
  shows "fp_client_count (sy_relay s) = length (filter vw_slot (sy_viewers s))
    \<and> fp_client_count (sy_relay s) \<le> fp_max_clients relay
    \<and> (\<forall>v \<in> set (sy_viewers s).
        (vw_pc v = Ended Refused \<or> vw_pc v = Ended Served \<longrightarrow> \<not> vw_slot v)
        \<and> (vw_kind v \<noteq> WsFlv \<and> vw_admitted v \<and> vw_pc v \<noteq> AtLeave \<and> vw_pc v \<noteq> Ended Served
            \<and> vw_pc v \<noteq> Ended Refused \<longrightarrow> vw_slot v))
    \<and> fp_bytes_sent (sy_relay s) + (\<Sum>v \<leftarrow> sy_viewers s. word_of_nat (unrecorded v))
        = (\<Sum>v \<leftarrow> sy_viewers s. word_of_nat (media_bytes v))"
proof -
  note inv = sys_reach_inv [OF assms]
  have "slots vs = length (filter vw_slot vs)" for vs by (induction vs) (simp_all add: slots_def)
  moreover have "(vw_pc v = Ended Refused \<or> vw_pc v = Ended Served \<longrightarrow> \<not> vw_slot v)
      \<and> (vw_kind v \<noteq> WsFlv \<and> vw_admitted v \<and> vw_pc v \<noteq> AtLeave \<and> vw_pc v \<noteq> Ended Served
          \<and> vw_pc v \<noteq> Ended Refused \<longrightarrow> vw_slot v)" if "viewer_ok (sy_tags s) v" for v
  proof (cases "vw_pc v")
    case (Ended e)
    with that show ?thesis by (cases e) (auto simp: viewer_ok_def)
  qed (use that in \<open>auto simp: viewer_ok_def\<close>)
  ultimately show ?thesis using inv by (simp add: sys_inv_def in_transit_def media_total_def)
qed

theorem relay_counters_exact_witness:
  "\<exists>s v. sample_run = Some s \<and> sy_viewers s = [v] \<and> vw_slot v
    \<and> (36 :: u64) + word_of_nat (unrecorded v) = word_of_nat (media_bytes v)"
proof -
  obtain s v where s: "sample_run = Some s" "sy_viewers s = [v]" "fp_bytes_sent (sy_relay s) = 36"
    "fp_client_count (sy_relay s) = 1" "sys_reach (ring_recv 512) (puller_new ''k'' ''u'' 1) s"
    by (rule sample_run_some)
  with relay_counters_exact [OF ring_recv_ok fresh_new s(5)] show ?thesis
    by (cases "vw_slot v") auto
qed

section \<open>Detached senders, stranded viewers\<close>

text \<open>
  A WebSocket viewer that connects and goes away again while nothing is broadcast: the
  relay is as before, and a sending task is left behind.
\<close>

definition left_behind :: viewer where
  "left_behind = \<lparr>vw_kind = WsFlv, vw_socket = (\<lambda>_. True), vw_pc = AtRecv, vw_sent = [build_flv_header],
     vw_slot = False, vw_pos = 0, vw_tracker = tracker_with_default_policy, vw_rx = [],
     vw_admitted = True, vw_start = 0, vw_sub = 0\<rparr>"

definition visit :: "nat \<Rightarrow> sys_action list" where
  "visit i = [Connect WsFlv (\<lambda>_. True), Turn i, Turn i, Turn i, Turn i, PeerGone i]"

lemma visit_leaves_sender:
  assumes "sy_tags s = []" "sy_cached s = 0" "fp_client_count (sy_relay s) = 0"
    "0 < fp_max_clients (sy_relay s)" "fp_gop_cache (sy_relay s) = gop_cache_new gop_cache_config_default"
  shows "sys_run recv (visit (length (sy_viewers s))) s = Some (s\<lparr>sy_viewers := sy_viewers s @ [left_behind]\<rparr>)"
proof -
  have "puller_get_startup_tags (sy_relay s\<lparr>fp_client_count := n\<rparr>) = []" for n
    by (simp add: puller_get_startup_tags_def assms(5) get_startup_tags_def gop_cache_new_def)
  moreover have "(sy_relay s)\<lparr>fp_client_count := 0\<rparr> = sy_relay s" using assms(3) by simp
  ultimately show ?thesis
    using assms
    by (simp add: visit_def sys_apply_def new_viewer_def viewer_turn_def puller_add_client_def sys_set_def
        viewer_write_def viewer_select_def puller_remove_client_def left_behind_def Let_def)
qed

lemma visits_leave_senders:
  "\<exists>as. sys_run recv as (sys_init (puller_with_backup key url backup (Suc m)))
     = Some ((sys_init (puller_with_backup key url backup (Suc m)))\<lparr>sy_viewers := replicate n left_behind\<rparr>)"
proof (induction n)
  case 0
  show ?case by (rule exI [of _ "[]"]) (simp add: sys_init_def)
next
  case (Suc n)
  let ?s = "\<lambda>n. (sys_init (puller_with_backup key url backup (Suc m)))\<lparr>sy_viewers := replicate n left_behind\<rparr>"
  from Suc obtain as where as: "sys_run recv as (sys_init (puller_with_backup key url backup (Suc m))) = Some (?s n)" ..
  have "sys_run recv (visit (length (sy_viewers (?s n)))) (?s n)
      = Some ((?s n)\<lparr>sy_viewers := sy_viewers (?s n) @ [left_behind]\<rparr>)"
    by (rule visit_leaves_sender) (simp_all add: sys_init_def puller_with_backup_def)
  then have "sys_run recv (visit n) (?s n) = Some (?s (Suc n))"
    by (simp add: replicate_append_same)
  with as have "sys_run recv (as @ visit n) (sys_init (puller_with_backup key url backup (Suc m)))
      = Some (?s (Suc n))" by (simp only: sys_run_append option.case)
  then show ?case ..
qed

text \<open>
  C11: \<open>select!\<close> stops no one. When the receiving task of a WebSocket viewer ends, the handler
  gives the slot back and the sending task is only detached: it stays subscribed, and keeps
  the socket, until a write fails, so on a stream that is silent for ever. Whatever the
  capacity: a relay without any client left can have any number of such tasks, and each
  of them writes the next tag.
\<close>

theorem detached_senders_exceed_capacity:
  "\<exists>s. sys_reach (ring_recv 512) (puller_with_backup key url backup (Suc m)) s
    \<and> fp_client_count (sy_relay s) = 0 \<and> length (sy_viewers s) = n
    \<and> (\<forall>i < n. vw_pc (sy_viewers s ! i) = AtRecv
        \<and> (\<exists>s'. sys_run (ring_recv 512) [Broadcast t, Turn i, Turn i] s = Some s'
            \<and> vw_sent (sy_viewers s' ! i) = vw_sent (sy_viewers s ! i) @ [build_flv_tag_wire t]))"
proof -
  let ?relay = "puller_with_backup key url backup (Suc m)"
  let ?s = "(sys_init ?relay)\<lparr>sy_viewers := replicate n left_behind\<rparr>"
  obtain as where "sys_run (ring_recv 512) as (sys_init ?relay) = Some ?s"
    using visits_leave_senders by blast
  then have "sys_reach (ring_recv 512) ?relay ?s" by (rule sys_run_reach) (rule sys_reach.init)
  moreover have "\<exists>s'. sys_run (ring_recv 512) [Broadcast t, Turn i, Turn i] ?s = Some s'
      \<and> vw_sent (sy_viewers s' ! i) = vw_sent (sy_viewers ?s ! i) @ [build_flv_tag_wire t]" if "i < n" for i
    using that
    by (simp add: sys_apply_def sys_init_def viewer_turn_def left_behind_def ring_recv_def viewer_receive_def
        tracker_should_drop_def tracker_with_default_policy_def tracker_new_def should_drop_def sys_set_def
        viewer_write_def Let_def)
  ultimately show ?thesis
    by (intro exI [of _ ?s]) (simp add: sys_init_def puller_with_backup_def left_behind_def)
qed

theorem detached_senders_exceed_capacity_witness:
  "\<exists>s. sys_reach (ring_recv 512) (puller_with_backup ''live'' ''http://o/live.flv'' None 1) s
    \<and> fp_client_count (sy_relay s) = 0 \<and> length (sy_viewers s) = 3
    \<and> vw_pc (sy_viewers s ! 2) = AtRecv
    \<and> (\<exists>s'. sys_run (ring_recv 512) [Broadcast sample_key, Turn 2, Turn 2] s = Some s'
        \<and> vw_sent (sy_viewers s' ! 2) = vw_sent (sy_viewers s ! 2) @ [build_flv_tag_wire sample_key])"
proof -
  obtain s where s: "sys_reach (ring_recv 512) (puller_with_backup ''live'' ''http://o/live.flv'' None (Suc 0)) s"
    "fp_client_count (sy_relay s) = 0" "length (sy_viewers s) = 3"
    "\<forall>i < 3. vw_pc (sy_viewers s ! i) = AtRecv
        \<and> (\<exists>s'. sys_run (ring_recv 512) [Broadcast sample_key, Turn i, Turn i] s = Some s'
            \<and> vw_sent (sy_viewers s' ! i) = vw_sent (sy_viewers s ! i) @ [build_flv_tag_wire sample_key])"
    using detached_senders_exceed_capacity [of "''live''" "''http://o/live.flv''" None 0 3 sample_key] by blast
  from s(4) [rule_format, of 2] s(1-3) show ?thesis by (intro exI [of _ s]) simp
qed

lemma stranded_step:
  assumes recv: "broadcast_receiver recv" and "sys_apply recv a s = Some s'" and "sy_ended s"
    and "i < length (sy_viewers s)" and v: "vw_pc (sy_viewers s ! i) = AtRecv"
      "vw_pos (sy_viewers s ! i) = length (sy_tags s)" "vw_kind (sy_viewers s ! i) \<noteq> WsFlv"
  shows "sy_ended s' \<and> sy_tags s' = sy_tags s \<and> i < length (sy_viewers s')
    \<and> sy_viewers s' ! i = sy_viewers s ! i"
proof -
  have "recv (sy_tags s) (length (sy_tags s)) = None" by (simp add: recv_idle_iff [OF recv])
  with v have "viewer_turn recv (sy_tags s) (sy_cached s) (sy_relay s) (sy_viewers s ! i) = None"
    "viewer_select (sy_relay s) (sy_viewers s ! i) = None"
    by (simp_all add: viewer_turn_def viewer_select_def)
  moreover have "sy_ended (sys_set j s rv) = sy_ended s" "sy_tags (sys_set j s rv) = sy_tags s"
    "length (sy_viewers (sys_set j s rv)) = length (sy_viewers s)"
    "j \<noteq> i \<Longrightarrow> sy_viewers (sys_set j s rv) ! i = sy_viewers s ! i" for j rv
    by (simp_all add: sys_set_def case_prod_unfold)
  ultimately show ?thesis
    using assms(2-4)
    by (cases a) (auto simp: sys_apply_def nth_append split: if_splits; metis option.distinct(1))+
qed


text \<open>A stream that ends at once, a viewer that comes to it, and another that comes and is refused.\<close>

definition ended_run :: "flv_system option" where
  "ended_run = sys_run (ring_recv 512)
     [Connect (HttpFlv False) (\<lambda>_. True), StreamEnds, Turn 0, Turn 0, Turn 0, Turn 0, Turn 0]
     (sys_init (puller_new ''k'' ''u'' 1))"

lemma ended_run_facts:
  "case ended_run of None \<Rightarrow> False
   | Some s \<Rightarrow> sy_ended s \<and> sy_tags s = [] \<and>
       (case sy_viewers s of [v] \<Rightarrow> vw_pc v = AtRecv \<and> vw_pos v = 0 \<and> vw_kind v = HttpFlv False | _ \<Rightarrow> False)
     \<and> sys_run (ring_recv 512) [Connect WsFlv (\<lambda>_. True), Turn 1] s \<noteq> None"
  by code_simp




end
