(* ===== verification/Encrypted_System.thy ===== *)
theory Encrypted_System
  imports Encrypted_Session
begin

text \<open>
  One running HLS relay with all its encrypted viewers, as concurrent tasks: the pull loop
  of agent-rust/src/relay/mod.rs and any number of connections served by
  \<open>handle_ws_encrypted_mode\<close> of main.rs. A step is what one task does between two points
  where another can be seen to act: one access to the shared caches, one broadcast, one write,
  one \<open>rx.recv()\<close>. Theory \<open>Stream_Relay\<close> takes a turn of the pull loop, and
  \<open>Encrypted_Session\<close> a connection, as if it were alone; here both are justified, and what only
  the interleaving shows is proved: the loop puts a chunk into the cache before it broadcasts
  it, and a viewer that joins between the two gets it twice.
\<close>

section \<open>The pull loop\<close>

text \<open>
  Where the turn of the loop stands. \<open>CachePlaylist\<close>, \<open>CacheSegment\<close>: encrypted, about to be
  cached; \<open>SendPlaylist\<close>, \<open>SendSegment\<close>: about to be broadcast; with the segments still to do.
\<close>

datatype pull_pc =
    PullIdle
  | CachePlaylist bytes "m3u8_segment list"
  | SendPlaylist bytes "m3u8_segment list"
  | NextSegment "m3u8_segment list"
  | CacheSegment m3u8_segment bytes "m3u8_segment list"
  | SendSegment m3u8_segment bytes "m3u8_segment list"

definition playlist_entry :: "u32 \<Rightarrow> bytes \<Rightarrow> cached_segment" where
  "playlist_entry n d = \<lparr>cs_seq = ucast n, cs_seg_type = M3u8, cs_data = d, cs_duration = Fin 0\<rparr>"

definition ts_entry :: "m3u8_segment \<Rightarrow> bytes \<Rightarrow> cached_segment" where
  "ts_entry seg d = \<lparr>cs_seq = seg_seq seg, cs_seg_type = Ts, cs_data = d, cs_duration = seg_duration seg\<rparr>"

definition pull_begin :: "ring_lib \<Rightarrow> (bytes \<Rightarrow> u64) \<Rightarrow> pull_env \<Rightarrow> pull_locals \<times> stream_relay
    \<Rightarrow> pull_pc \<times> pull_locals \<times> stream_relay" where
  "pull_begin R simple_hash env = (\<lambda>(l, r).
     (if pl_status l \<noteq> Looping then (PullIdle, l, r)
      else if \<not> pe_running env then (PullIdle, l\<lparr>pl_status := LoopStopped\<rparr>, r)
      else case fetch_url (pe_m3u8 env) of
        None \<Rightarrow>
          (case backoff_next (pl_backoff l, pl_seed l) of
             (Some wait, bo, s) \<Rightarrow> (PullIdle, l\<lparr>pl_backoff := bo, pl_seed := s\<rparr>, r)
           | (None, bo, s) \<Rightarrow> (PullIdle, l\<lparr>pl_backoff := bo, pl_seed := s, pl_status := LoopPanicked\<rparr>, r))
      | Some m3u8_data \<Rightarrow>
          (let l1 = l\<lparr>pl_backoff := backoff_reset (pl_backoff l)\<rparr>;
               current_hash = simple_hash m3u8_data
           in if current_hash = pl_last_m3u8_hash l1 then (PullIdle, l1, r)
              else
                let l2 = l1\<lparr>pl_last_m3u8_hash := current_hash\<rparr>
                in case parse_m3u8 (bytes_str m3u8_data) (sr_origin_url r) of
                     None \<Rightarrow> (PullIdle, l2\<lparr>pl_status := LoopPanicked\<rparr>, r)
                   | Some parsed \<Rightarrow>
                       (case encrypt_with R env m3u8_data r of
                          (Inl e, r1) \<Rightarrow> (PullIdle, l2, r1)
                        | (Inr encrypted, r1) \<Rightarrow> (CachePlaylist encrypted (m3u8_segments parsed), l2, r1)))))"

text \<open>The URLs fetched and the encryptor are the loop's own: nobody else looks at them.\<close>

definition pull_step :: "ring_lib \<Rightarrow> ((string, u64) map \<Rightarrow> string list) \<Rightarrow> pull_env \<Rightarrow> pull_pc
    \<Rightarrow> pull_locals \<times> stream_relay \<Rightarrow> pull_pc \<times> pull_locals \<times> stream_relay" where
  "pull_step R pick env pc = (\<lambda>(l, r).
     (let n = pl_seq_counter l
      in case pc of
           PullIdle \<Rightarrow> (PullIdle, l, r)
         | CachePlaylist d segs \<Rightarrow> (SendPlaylist d segs, l, push_segment (playlist_entry n d) r)
         | SendPlaylist d segs \<Rightarrow>
             (NextSegment segs, l\<lparr>pl_seq_counter := n + 1\<rparr>, broadcast_segment n (pe_clock env n) d r)
         | NextSegment [] \<Rightarrow> (PullIdle, l, r)
         | NextSegment (seg # segs) \<Rightarrow>
             (if sr_fetched_urls r (seg_url seg) \<noteq> None then (NextSegment segs, l, r)
              else case fetch_url (pe_segment env (seg_url seg)) of
                None \<Rightarrow> (NextSegment segs, l, r)
              | Some ts_data \<Rightarrow>
                  (case encrypt_with R env ts_data r of
                     (Inl e, r1) \<Rightarrow> (NextSegment segs, l, r1)
                   | (Inr encrypted, r1) \<Rightarrow> (CacheSegment seg encrypted segs, l, r1)))
         | CacheSegment seg d segs \<Rightarrow> (SendSegment seg d segs, l, push_segment (ts_entry seg d) r)
         | SendSegment seg d segs \<Rightarrow>
             (NextSegment segs, l\<lparr>pl_seq_counter := n + 1\<rparr>,
              broadcast_segment n (pe_clock env n) d (remember_url pick (seg_url seg) (seg_seq seg) r))))"

text \<open>What is left of a turn, done without a break.\<close>

definition pull_rest :: "ring_lib \<Rightarrow> ((string, u64) map \<Rightarrow> string list) \<Rightarrow> pull_env \<Rightarrow> m3u8_segment list
    \<Rightarrow> pull_locals \<times> stream_relay \<Rightarrow> pull_locals \<times> stream_relay" where
  "pull_rest R pick env segs = (\<lambda>(l, r).
     case fold (pull_segment R pick env) segs (pl_seq_counter l, r) of
       (n, r') \<Rightarrow> (l\<lparr>pl_seq_counter := n\<rparr>, r'))"

definition pull_finish :: "ring_lib \<Rightarrow> ((string, u64) map \<Rightarrow> string list) \<Rightarrow> pull_env \<Rightarrow> pull_pc
    \<Rightarrow> pull_locals \<times> stream_relay \<Rightarrow> pull_locals \<times> stream_relay" where
  "pull_finish R pick env pc = (\<lambda>(l, r).
     (let n = pl_seq_counter l; l' = l\<lparr>pl_seq_counter := n + 1\<rparr>; send = broadcast_segment n (pe_clock env n)
      in case pc of
           PullIdle \<Rightarrow> (l, r)
         | CachePlaylist d segs \<Rightarrow> pull_rest R pick env segs (l', send d (push_segment (playlist_entry n d) r))
         | SendPlaylist d segs \<Rightarrow> pull_rest R pick env segs (l', send d r)
         | NextSegment segs \<Rightarrow> pull_rest R pick env segs (l, r)
         | CacheSegment seg d segs \<Rightarrow> pull_rest R pick env segs (l', send d
             (remember_url pick (seg_url seg) (seg_seq seg) (push_segment (ts_entry seg d) r)))
         | SendSegment seg d segs \<Rightarrow> pull_rest R pick env segs (l', send d
             (remember_url pick (seg_url seg) (seg_seq seg) r))))"

lemma pull_rest_Nil: "pull_rest R pick env [] (l, r) = (l, r)"
  by (simp add: pull_rest_def)

lemma pull_rest_Cons:
  "pull_rest R pick env (seg # segs) (l, r) =
     (case pull_segment R pick env seg (pl_seq_counter l, r) of
        (n, r') \<Rightarrow> pull_rest R pick env segs (l\<lparr>pl_seq_counter := n\<rparr>, r'))"
  by (simp add: pull_rest_def split: prod.split)

lemma finish_step:
  "pull_step R pick env pc (l, r) = (pc', st) \<Longrightarrow> pull_finish R pick env pc' st = pull_finish R pick env pc (l, r)"
proof (cases pc)
  case (NextSegment segs)
  assume step: "pull_step R pick env pc (l, r) = (pc', st)"
  show ?thesis
  proof (cases segs)
    case Nil
    with NextSegment step show ?thesis by (auto simp: pull_step_def pull_finish_def pull_rest_Nil)
  next
    case (Cons seg rest)
    with NextSegment step show ?thesis
      by (auto simp: pull_step_def pull_finish_def pull_rest_Cons pull_segment_def ts_entry_def Let_def
          split: if_splits option.splits prod.splits sum.splits)
  qed
qed (auto simp: pull_step_def pull_finish_def pull_rest_Nil Let_def)

lemma finish_begin:
  "pull_begin R h env st = (pc, st') \<Longrightarrow> pull_finish R pick env pc st' = pull_turn R h pick env st"
  by (cases st) (auto simp: pull_begin_def pull_turn_def pull_finish_def pull_rest_def playlist_entry_def Let_def
      split: if_splits option.splits prod.splits sum.splits)

text \<open>A relay but for what its viewers change; the loop neither reads nor writes that.\<close>

definition quiet :: "stream_relay \<Rightarrow> stream_relay" where
  "quiet r = r\<lparr>sr_client_count := 0, sr_bytes_sent := 0\<rparr>"

lemma quiet_simps [simp]:
  "pull_segment R pick env seg (n, quiet r) = apsnd quiet (pull_segment R pick env seg (n, r))"
  "encrypt_with R env d (quiet r) = apsnd quiet (encrypt_with R env d r)"
  "sr_fetched_urls (quiet r) = sr_fetched_urls r" "sr_origin_url (quiet r) = sr_origin_url r"
  "sr_broadcast (quiet r) = sr_broadcast r" "sr_segments (quiet r) = sr_segments r"
  "push_segment c (quiet r) = quiet (push_segment c r)"
  "broadcast_segment n t d (quiet r) = quiet (broadcast_segment n t d r)"
  "remember_url pick u q (quiet r) = quiet (remember_url pick u q r)"
  by (auto simp: pull_segment_def quiet_def encrypt_with_def push_segment_def broadcast_segment_def
      remember_url_def Let_def split: option.splits prod.splits sum.splits)

lemma quiet_begin:
  "pull_begin R h env (l, r) = (pc, l', r') \<Longrightarrow> pull_begin R h env (l, quiet r) = (pc, l', quiet r')"
  by (auto simp: pull_begin_def Let_def split: if_splits option.splits prod.splits sum.splits)

lemma quiet_step:
  "pull_step R pick env pc (l, r) = (pc', l', r') \<Longrightarrow> pull_step R pick env pc (l, quiet r) = (pc', l', quiet r')"
  by (auto simp: pull_step_def Let_def split: pull_pc.splits list.splits if_splits option.splits prod.splits sum.splits)

text \<open>The loop only adds to what was broadcast, and keeps the clients.\<close>

lemma segment_extends: "prefix (sr_broadcast r) (sr_broadcast (snd (pull_segment R pick env seg (n, r))))"
  by (auto simp: pull_segment_def encrypt_with_def broadcast_segment_def Let_def split: option.splits prod.splits sum.splits)

lemma rest_extends: "prefix (sr_broadcast r) (sr_broadcast (snd (pull_rest R pick env segs (l, r))))"
proof (induction segs arbitrary: l r)
  case (Cons seg segs)
  obtain n r' where step: "pull_segment R pick env seg (pl_seq_counter l, r) = (n, r')" by force
  with segment_extends [of r R pick env seg "pl_seq_counter l"] Cons.IH [of r' "l\<lparr>pl_seq_counter := n\<rparr>"]
  show ?case by (auto simp: pull_rest_Cons intro: prefix_order.trans)
qed (simp add: pull_rest_Nil)

lemma finish_extends: "prefix (sr_broadcast r) (sr_broadcast (snd (pull_finish R pick env pc (l, r))))"
proof -
  have "prefix (sr_broadcast r) (sr_broadcast (snd (pull_rest R pick env segs (l', r'))))"
    if "prefix (sr_broadcast r) (sr_broadcast r')" for segs l' r'
    using that rest_extends prefix_order.trans by blast
  then show ?thesis
    by (cases pc) (simp_all add: pull_finish_def Let_def broadcast_segment_def)
qed

lemma begin_keeps:
  "pull_begin R h env (l, r) = (pc, l', r') \<Longrightarrow> sr_client_count r' = sr_client_count r
    \<and> sr_max_clients r' = sr_max_clients r \<and> sr_broadcast r' = sr_broadcast r \<and> sr_segments r' = sr_segments r"
  by (auto simp: pull_begin_def encrypt_with_def Let_def split: if_splits option.splits prod.splits sum.splits)

lemma step_keeps:
  "pull_step R pick env pc (l, r) = (pc', l', r') \<Longrightarrow> sr_client_count r' = sr_client_count r
    \<and> sr_max_clients r' = sr_max_clients r \<and> prefix (sr_broadcast r) (sr_broadcast r')"
  by (auto simp: pull_step_def encrypt_with_def push_segment_def broadcast_segment_def remember_url_def Let_def
      split: pull_pc.splits list.splits if_splits option.splits prod.splits sum.splits)

section \<open>The broadcast channel\<close>

text \<open>As in \<open>Flv_System\<close>, with messages for tags.\<close>

type_synonym chunk_receiver = "bytes list \<Rightarrow> nat \<Rightarrow> (chunk_rx \<times> nat) option"

definition chunk_channel :: "chunk_receiver \<Rightarrow> bool" where
  "chunk_channel recv \<longleftrightarrow>
     (\<forall>ms pos. pos \<le> length ms \<longrightarrow>
        (case recv ms pos of
           None \<Rightarrow> pos = length ms
         | Some (ChunkOk d, p) \<Rightarrow> pos < length ms \<and> d = ms ! pos \<and> p = Suc pos
         | Some (ChunkLagged n, p) \<Rightarrow> pos < p \<and> p \<le> length ms \<and> n = word_of_nat (p - pos)
         | Some (ChunkClosed, p) \<Rightarrow> False))"

definition chunk_ring :: "nat \<Rightarrow> chunk_receiver" where
  "chunk_ring cap ms pos =
     (if length ms \<le> pos then None
      else if pos + cap < length ms
      then Some (ChunkLagged (word_of_nat (length ms - cap - pos)), length ms - cap)
      else Some (ChunkOk (ms ! pos), Suc pos))"

lemma chunk_ring_ok: "chunk_channel (chunk_ring cap)"
  by (auto simp: chunk_channel_def chunk_ring_def)

section \<open>Viewers\<close>

datatype enc_pc =
    EncAdd
  | EncRefuse
  | EncReadPlaylist
  | EncWritePlaylist bytes
  | EncSubscribe
  | EncRecv
  | EncWrite bytes
  | EncRecord nat
  | EncLeave
  | EncEnded session_end

text \<open>
  \<open>ev_tried\<close>: the writes tried so far. The last three fields are history: whether the
  connection was admitted, the playlist it found in the cache, and how many messages had
  been broadcast when it subscribed.
\<close>

record enc_viewer =
  ev_socket :: "nat \<Rightarrow> bool"
  ev_pc :: enc_pc
  ev_tried :: nat
  ev_sent :: "bytes list"
  ev_slot :: bool
  ev_pos :: nat
  ev_rx :: "chunk_rx list"
  ev_admitted :: bool
  ev_playlist :: "bytes option"
  ev_sub :: nat

definition new_enc_viewer :: "(nat \<Rightarrow> bool) \<Rightarrow> enc_viewer" where
  "new_enc_viewer wr = \<lparr>ev_socket = wr, ev_pc = EncAdd, ev_tried = 0, ev_sent = [], ev_slot = False,
     ev_pos = 0, ev_rx = [], ev_admitted = False, ev_playlist = None, ev_sub = 0\<rparr>"

definition enc_write :: "bytes \<Rightarrow> enc_pc \<Rightarrow> enc_pc \<Rightarrow> enc_viewer \<Rightarrow> enc_viewer" where
  "enc_write buf ok failed v =
     (let v1 = v\<lparr>ev_tried := ev_tried v + 1\<rparr>
      in if ev_socket v (ev_tried v) then v1\<lparr>ev_sent := ev_sent v @ [buf], ev_pc := ok\<rparr>
         else v1\<lparr>ev_pc := failed\<rparr>)"

definition playlist_message :: "bytes \<Rightarrow> bytes" where
  "playlist_message d = frame_encode (frame_new Data 0 d)"

definition enc_turn :: "chunk_receiver \<Rightarrow> stream_relay \<Rightarrow> enc_viewer \<Rightarrow> (stream_relay \<times> enc_viewer) option" where
  "enc_turn recv relay v =
     (case ev_pc v of
        EncAdd \<Rightarrow>
          (case relay_add_client relay of
             (False, r) \<Rightarrow> Some (r, v\<lparr>ev_pc := EncRefuse\<rparr>)
           | (True, r) \<Rightarrow> Some (r, v\<lparr>ev_slot := True, ev_admitted := True, ev_pc := EncReadPlaylist\<rparr>))
      | EncRefuse \<Rightarrow>
          Some (relay, enc_write (ascii ws_full_message) (EncEnded Refused) (EncEnded Refused) v)
      | EncReadPlaylist \<Rightarrow>
          (case latest_m3u8 relay of
             Some d \<Rightarrow> Some (relay, v\<lparr>ev_playlist := Some d, ev_pc := EncWritePlaylist d\<rparr>)
           | None \<Rightarrow> Some (relay, v\<lparr>ev_pc := EncSubscribe\<rparr>))
      | EncWritePlaylist d \<Rightarrow> Some (relay, enc_write (playlist_message d) EncSubscribe EncSubscribe v)
      | EncSubscribe \<Rightarrow>
          (let n = length (sr_broadcast relay)
           in Some (relay, v\<lparr>ev_pos := n, ev_sub := n, ev_pc := EncRecv\<rparr>))
      | EncRecv \<Rightarrow>
          (case recv (sr_broadcast relay) (ev_pos v) of
             None \<Rightarrow> None
           | Some (x, pos) \<Rightarrow>
               Some (relay, v\<lparr>ev_rx := ev_rx v @ [x], ev_pos := pos,
                 ev_pc := (case x of ChunkOk d \<Rightarrow> EncWrite d | _ \<Rightarrow> EncLeave)\<rparr>))
      | EncWrite d \<Rightarrow> Some (relay, enc_write d (EncRecord (length d)) EncLeave v)
      | EncRecord n \<Rightarrow> Some (relay_record_bytes_sent (word_of_nat n) relay, v\<lparr>ev_pc := EncRecv\<rparr>)
      | EncLeave \<Rightarrow>
          (if ev_slot v then Some (relay_remove_client relay, v\<lparr>ev_slot := False, ev_pc := EncEnded Served\<rparr>)
           else None)
      | EncEnded e \<Rightarrow> None)"

text \<open>The receiving task ends: \<open>select!\<close> returns, the slot is given back, the sending task is detached.\<close>

definition enc_select :: "stream_relay \<Rightarrow> enc_viewer \<Rightarrow> (stream_relay \<times> enc_viewer) option" where
  "enc_select relay v =
     (if ev_slot v \<and> (case ev_pc v of EncRecv \<Rightarrow> True | EncWrite d \<Rightarrow> True | EncRecord n \<Rightarrow> True | _ \<Rightarrow> False)
      then Some (relay_remove_client relay, v\<lparr>ev_slot := False\<rparr>)
      else None)"

section \<open>The system\<close>

text \<open>\<open>en_envs\<close> is history: the environments of the turns begun; the last one is that of the turn under way.\<close>

record enc_system =
  en_relay :: stream_relay
  en_locals :: pull_locals
  en_pc :: pull_pc
  en_env :: pull_env
  en_envs :: "pull_env list"
  en_viewers :: "enc_viewer list"

datatype enc_action =
    EncConnect "nat \<Rightarrow> bool"
  | PullBegins pull_env
  | PullMoves
  | EncTurn nat
  | EncPeerGone nat

text \<open>What the tasks find outside: the library, the hasher, the map's iteration order, the channel.\<close>

record enc_world =
  ew_ring :: ring_lib
  ew_hash :: "bytes \<Rightarrow> u64"
  ew_pick :: "(string, u64) map \<Rightarrow> string list"
  ew_recv :: chunk_receiver

definition enc_init :: "pull_env \<Rightarrow> pull_locals \<times> stream_relay \<Rightarrow> enc_system" where
  "enc_init env st = \<lparr>en_relay = snd st, en_locals = fst st, en_pc = PullIdle, en_env = env, en_envs = [],
     en_viewers = []\<rparr>"

definition enc_set :: "nat \<Rightarrow> enc_system \<Rightarrow> stream_relay \<times> enc_viewer \<Rightarrow> enc_system" where
  "enc_set i s = (\<lambda>(r, v). s\<lparr>en_relay := r, en_viewers := (en_viewers s)[i := v]\<rparr>)"

definition enc_pulled :: "pull_pc \<times> pull_locals \<times> stream_relay \<Rightarrow> enc_system \<Rightarrow> enc_system" where
  "enc_pulled = (\<lambda>(pc, l, r) s. s\<lparr>en_pc := pc, en_locals := l, en_relay := r\<rparr>)"

definition enc_apply :: "enc_world \<Rightarrow> enc_action \<Rightarrow> enc_system \<Rightarrow> enc_system option" where
  "enc_apply W a s =
     (case a of
        EncConnect wr \<Rightarrow> Some (s\<lparr>en_viewers := en_viewers s @ [new_enc_viewer wr]\<rparr>)
      | PullBegins env \<Rightarrow>
          (if en_pc s = PullIdle
           then Some (enc_pulled (pull_begin (ew_ring W) (ew_hash W) env (en_locals s, en_relay s))
             (s\<lparr>en_env := env, en_envs := en_envs s @ [env]\<rparr>))
           else None)
      | PullMoves \<Rightarrow>
          (if en_pc s = PullIdle then None
           else Some (enc_pulled (pull_step (ew_ring W) (ew_pick W) (en_env s) (en_pc s)
             (en_locals s, en_relay s)) s))
      | EncTurn i \<Rightarrow>
          (if i < length (en_viewers s)
           then map_option (enc_set i s) (enc_turn (ew_recv W) (en_relay s) (en_viewers s ! i)) else None)
      | EncPeerGone i \<Rightarrow>
          (if i < length (en_viewers s)
           then map_option (enc_set i s) (enc_select (en_relay s) (en_viewers s ! i)) else None))"

inductive enc_reach :: "enc_world \<Rightarrow> pull_locals \<times> stream_relay \<Rightarrow> enc_system \<Rightarrow> bool" for W st where
  init: "enc_reach W st (enc_init env st)"
| step: "enc_reach W st s \<Longrightarrow> enc_apply W a s = Some s' \<Longrightarrow> enc_reach W st s'"

fun enc_run :: "enc_world \<Rightarrow> enc_action list \<Rightarrow> enc_system \<Rightarrow> enc_system option" where
  "enc_run W [] s = Some s"
| "enc_run W (a # as) s = (case enc_apply W a s of None \<Rightarrow> None | Some s' \<Rightarrow> enc_run W as s')"

lemma enc_run_reach: "enc_run W as s = Some s' \<Longrightarrow> enc_reach W st s \<Longrightarrow> enc_reach W st s'"
  by (induction as arbitrary: s) (auto split: option.splits intro: enc_reach.step)

section \<open>Turns may be taken as one step\<close>

text \<open>What a viewer's step does to the relay: nothing that the pull loop sees.\<close>

lemma enc_turn_relay:
  "enc_turn recv r v = Some (r', v') \<Longrightarrow> quiet r' = quiet r \<and> sr_max_clients r' = sr_max_clients r"
  by (auto simp: enc_turn_def quiet_def relay_add_client_def relay_remove_client_def relay_record_bytes_sent_def Let_def
      split: enc_pc.splits if_splits option.splits)

lemma enc_select_relay:
  "enc_select r v = Some (r', v') \<Longrightarrow> quiet r' = quiet r \<and> sr_max_clients r' = sr_max_clients r"
  by (auto simp: enc_select_def quiet_def relay_remove_client_def split: if_splits)

lemma enc_apply_cases:
  assumes "enc_apply W a s = Some s'"
  obtains (connect) wr where "s' = s\<lparr>en_viewers := en_viewers s @ [new_enc_viewer wr]\<rparr>"
  | (begins) env pc l r where "en_pc s = PullIdle"
      "pull_begin (ew_ring W) (ew_hash W) env (en_locals s, en_relay s) = (pc, l, r)"
      "s' = s\<lparr>en_env := env, en_envs := en_envs s @ [env], en_pc := pc, en_locals := l, en_relay := r\<rparr>"
  | (moves) pc l r where "en_pc s \<noteq> PullIdle"
      "pull_step (ew_ring W) (ew_pick W) (en_env s) (en_pc s) (en_locals s, en_relay s) = (pc, l, r)"
      "s' = s\<lparr>en_pc := pc, en_locals := l, en_relay := r\<rparr>"
  | (turn) i r v where "i < length (en_viewers s)" "enc_turn (ew_recv W) (en_relay s) (en_viewers s ! i) = Some (r, v)"
      "s' = enc_set i s (r, v)"
  | (gone) i r v where "i < length (en_viewers s)" "enc_select (en_relay s) (en_viewers s ! i) = Some (r, v)"
      "s' = enc_set i s (r, v)"
proof (cases a)
  case (PullBegins env)
  obtain pc l r where "pull_begin (ew_ring W) (ew_hash W) env (en_locals s, en_relay s) = (pc, l, r)"
    by (cases "pull_begin (ew_ring W) (ew_hash W) env (en_locals s, en_relay s)")
  with PullBegins assms show ?thesis
    by (intro begins [of env pc l r]) (auto simp: enc_apply_def enc_pulled_def split: if_splits)
next
  case PullMoves
  obtain pc l r where "pull_step (ew_ring W) (ew_pick W) (en_env s) (en_pc s) (en_locals s, en_relay s) = (pc, l, r)"
    by (cases "pull_step (ew_ring W) (ew_pick W) (en_env s) (en_pc s) (en_locals s, en_relay s)")
  with PullMoves assms show ?thesis
    by (intro moves [of pc l r]) (auto simp: enc_apply_def enc_pulled_def split: if_splits)
qed (use assms in \<open>auto simp: enc_apply_def intro: connect turn gone split: if_splits\<close>)

definition finished :: "enc_world \<Rightarrow> enc_system \<Rightarrow> pull_locals \<times> stream_relay" where
  "finished W s = pull_finish (ew_ring W) (ew_pick W) (en_env s) (en_pc s) (en_locals s, quiet (en_relay s))"

lemma finished_reach:
  "enc_reach W st s \<Longrightarrow> finished W s = pull_turns (ew_ring W) (ew_hash W) (ew_pick W) (en_envs s) (apsnd quiet st)"
proof (induction rule: enc_reach.induct)
  case (init env)
  show ?case by (cases st) (simp add: finished_def enc_init_def pull_turns_def pull_finish_def)
next
  case (step s a s')
  from step.hyps(2) show ?case
  proof (cases rule: enc_apply_cases)
    case (begins env pc l r)
    from begins(1) have "finished W s = (en_locals s, quiet (en_relay s))" by (simp add: finished_def pull_finish_def)
    with finish_begin [OF quiet_begin [OF begins(2)], of "ew_pick W"] step.IH begins(3) show ?thesis
      by (simp add: finished_def pull_turns_def)
  next
    case (moves pc l r)
    from finish_step [OF quiet_step [OF moves(2)]] step.IH moves(3) show ?thesis by (simp add: finished_def)
  next
    case (turn i r v)
    with enc_turn_relay [OF turn(2)] step.IH show ?thesis by (simp add: finished_def enc_set_def)
  next
    case (gone i r v)
    with enc_select_relay [OF gone(2)] step.IH show ?thesis by (simp add: finished_def enc_set_def)
  qed (use step.IH in \<open>simp add: finished_def\<close>)
qed

section \<open>What a connection has done\<close>

definition enc_intro :: "enc_viewer \<Rightarrow> bytes list" where
  "enc_intro v = (case ev_playlist v of Some d \<Rightarrow> [playlist_message d] | None \<Rightarrow> [])"

text \<open>The playlist message, where it was written.\<close>

definition greeting :: "enc_viewer \<Rightarrow> bytes list" where
  "greeting v = (if ev_socket v 0 then enc_intro v else [])"

lemma enc_intro_simps [simp]:
  "enc_intro (v\<lparr>ev_pc := pc\<rparr>) = enc_intro v" "enc_intro (v\<lparr>ev_tried := n\<rparr>) = enc_intro v" "enc_intro (v\<lparr>ev_sent := ws\<rparr>) = enc_intro v"
  "enc_intro (v\<lparr>ev_slot := b\<rparr>) = enc_intro v" "enc_intro (v\<lparr>ev_pos := n\<rparr>) = enc_intro v" "enc_intro (v\<lparr>ev_rx := rx\<rparr>) = enc_intro v"
  "enc_intro (v\<lparr>ev_sub := n\<rparr>) = enc_intro v" "enc_intro (v\<lparr>ev_admitted := b\<rparr>) = enc_intro v"
  by (simp_all add: enc_intro_def)

lemma greeting_simps [simp]:
  "greeting (v\<lparr>ev_pc := pc\<rparr>) = greeting v" "greeting (v\<lparr>ev_tried := n\<rparr>) = greeting v"
  "greeting (v\<lparr>ev_sent := ws\<rparr>) = greeting v" "greeting (v\<lparr>ev_slot := b\<rparr>) = greeting v"
  "greeting (v\<lparr>ev_pos := n\<rparr>) = greeting v" "greeting (v\<lparr>ev_rx := rx\<rparr>) = greeting v"
  "greeting (v\<lparr>ev_sub := n\<rparr>) = greeting v" "greeting (v\<lparr>ev_admitted := b\<rparr>) = greeting v"
  by (simp_all add: greeting_def)

text \<open>The messages \<open>ds\<close> have been written after the greeting, with what was received.\<close>

definition wrote_chunks :: "enc_viewer \<Rightarrow> bytes list \<Rightarrow> bool" where
  "wrote_chunks v ds \<longleftrightarrow> ev_sent v = greeting v @ ds \<and> (\<forall>i < length ds. ev_socket v (length (enc_intro v) + i))"

definition takes_from :: "bytes list \<Rightarrow> nat \<Rightarrow> bytes list \<Rightarrow> bool" where
  "takes_from ms k ds \<longleftrightarrow> k \<le> length ms \<and> prefix ds (drop k ms)"

definition left_with :: "enc_viewer \<Rightarrow> bytes list \<Rightarrow> bool" where
  "left_with v ds \<longleftrightarrow> (\<forall>r. \<exists>r'. enc_send_loop (ev_socket v) (length (enc_intro v)) r (ev_rx v) = (ds, r', True))"

definition enc_ok :: "bytes list \<Rightarrow> enc_viewer \<Rightarrow> bool" where
  "enc_ok ms v =
     (case ev_pc v of
        EncAdd \<Rightarrow> ev_sent v = [] \<and> ev_tried v = 0 \<and> ev_rx v = [] \<and> \<not> ev_slot v \<and> \<not> ev_admitted v \<and> ev_playlist v = None
      | EncRefuse \<Rightarrow> ev_sent v = [] \<and> ev_tried v = 0 \<and> \<not> ev_slot v \<and> \<not> ev_admitted v
      | EncReadPlaylist \<Rightarrow> ev_sent v = [] \<and> ev_tried v = 0 \<and> ev_rx v = [] \<and> ev_slot v \<and> ev_admitted v
          \<and> ev_playlist v = None
      | EncWritePlaylist d \<Rightarrow> ev_sent v = [] \<and> ev_tried v = 0 \<and> ev_rx v = [] \<and> ev_slot v \<and> ev_admitted v
          \<and> ev_playlist v = Some d
      | EncSubscribe \<Rightarrow> wrote_chunks v [] \<and> ev_tried v = length (enc_intro v) \<and> ev_rx v = [] \<and> ev_slot v \<and> ev_admitted v
      | EncRecv \<Rightarrow> ev_admitted v \<and> (\<exists>ds. wrote_chunks v ds \<and> ev_tried v = length (enc_intro v) + length ds
          \<and> ev_rx v = map ChunkOk ds \<and> takes_from ms (ev_sub v) ds \<and> ev_pos v = ev_sub v + length ds)
      | EncWrite d \<Rightarrow> ev_admitted v \<and> (\<exists>ds. wrote_chunks v ds \<and> ev_tried v = length (enc_intro v) + length ds
          \<and> ev_rx v = map ChunkOk (ds @ [d]) \<and> takes_from ms (ev_sub v) (ds @ [d])
          \<and> ev_pos v = ev_sub v + length (ds @ [d]))
      | EncRecord n \<Rightarrow> ev_admitted v \<and> (\<exists>ds. wrote_chunks v ds \<and> ev_tried v = length (enc_intro v) + length ds
          \<and> ev_rx v = map ChunkOk ds \<and> takes_from ms (ev_sub v) ds \<and> ev_pos v = ev_sub v + length ds)
      | EncLeave \<Rightarrow> ev_admitted v \<and> (\<exists>ds. wrote_chunks v ds \<and> takes_from ms (ev_sub v) ds \<and> left_with v ds)
      | EncEnded e \<Rightarrow> \<not> ev_slot v
          \<and> (if ev_admitted v then e = Served \<and> (\<exists>ds. wrote_chunks v ds \<and> takes_from ms (ev_sub v) ds \<and> left_with v ds)
             else e = Refused \<and> ev_sent v = (if ev_socket v 0 then [ascii ws_full_message] else [])))"

lemma send_loop_ok:
  "\<forall>i < length ds. wr (k + i) \<Longrightarrow> \<exists>r'. enc_send_loop wr k r (map ChunkOk ds @ rx) =
     (case enc_send_loop wr (k + length ds) r' rx of (ws, r2, fin) \<Rightarrow> (ds @ ws, r2, fin))"
proof (induction ds arbitrary: k r)
  case Nil
  show ?case by (auto split: prod.split)
next
  case (Cons d ds)
  have "wr k" "\<forall>i < length ds. wr (Suc k + i)" using Cons.prems by force+
  then obtain r' where "enc_send_loop wr (Suc k) (relay_record_bytes_sent (word_of_nat (length d)) r) (map ChunkOk ds @ rx) =
      (case enc_send_loop wr (Suc k + length ds) r' rx of (ws, r2, fin) \<Rightarrow> (ds @ ws, r2, fin))"
    using Cons.IH by blast
  with \<open>wr k\<close> show ?case by (intro exI [of _ r']) (simp add: case_prod_unfold)
qed

lemma left_after:
  assumes "wrote_chunks v ds" "ev_rx v = map ChunkOk ds @ rx"
    and "\<And>r. enc_send_loop (ev_socket v) (length (enc_intro v) + length ds) r rx = ([], r, True)"
  shows "left_with v ds"
  unfolding left_with_def assms(2)
proof
  fix r
  from send_loop_ok [of ds "ev_socket v" "length (enc_intro v)" r rx] assms(1,3)
  show "\<exists>r'. enc_send_loop (ev_socket v) (length (enc_intro v)) r (map ChunkOk ds @ rx) = (ds, r', True)"
    by (auto simp: wrote_chunks_def)
qed

lemma wrote_chunks_simps [simp]:
  "wrote_chunks (v\<lparr>ev_pc := pc\<rparr>) ds = wrote_chunks v ds" "wrote_chunks (v\<lparr>ev_tried := n\<rparr>) ds = wrote_chunks v ds"
  "wrote_chunks (v\<lparr>ev_slot := b\<rparr>) ds = wrote_chunks v ds" "wrote_chunks (v\<lparr>ev_pos := n\<rparr>) ds = wrote_chunks v ds"
  "wrote_chunks (v\<lparr>ev_rx := rx\<rparr>) ds = wrote_chunks v ds" "wrote_chunks (v\<lparr>ev_sub := n\<rparr>) ds = wrote_chunks v ds"
  by (simp_all add: wrote_chunks_def)

lemma left_with_simps [simp]:
  "left_with (v\<lparr>ev_pc := pc\<rparr>) ds = left_with v ds" "left_with (v\<lparr>ev_tried := n\<rparr>) ds = left_with v ds"
  "left_with (v\<lparr>ev_slot := b\<rparr>) ds = left_with v ds" "left_with (v\<lparr>ev_pos := n\<rparr>) ds = left_with v ds"
  by (simp_all add: left_with_def)

lemma takes_next:
  assumes "takes_from ms k ds" "k + length ds < length ms" "d = ms ! (k + length ds)"
  shows "takes_from ms k (ds @ [d])"
proof -
  from assms(1) obtain rest where rest: "drop k ms = ds @ rest" by (auto simp: takes_from_def prefix_def)
  have "length (drop k ms) = length ms - k" by simp
  with rest assms(2) obtain x xs where x: "rest = x # xs" by (cases rest) auto
  have "ms ! (k + length ds) = drop k ms ! length ds"
    using assms(1) by (simp add: takes_from_def)
  with rest x have "x = d" by (simp add: assms(3))
  with rest x assms(1) show ?thesis by (simp add: takes_from_def)
qed

lemma takes_later: "takes_from ms k ds \<Longrightarrow> prefix ms ms' \<Longrightarrow> takes_from ms' k ds"
  by (auto simp: takes_from_def prefix_def)

lemma enc_ok_later: "enc_ok ms v \<Longrightarrow> prefix ms ms' \<Longrightarrow> enc_ok ms' v"
  unfolding enc_ok_def by (auto split: enc_pc.splits if_splits intro: takes_later)

lemma new_enc_ok: "enc_ok ms (new_enc_viewer wr)"
  by (simp add: enc_ok_def new_enc_viewer_def)

lemma recv_ok:
  assumes "chunk_channel recv" "enc_ok ms v" "ev_pc v = EncRecv" "recv ms (ev_pos v) = Some (x, p)"
  shows "enc_ok ms (v\<lparr>ev_rx := ev_rx v @ [x], ev_pos := p,
    ev_pc := (case x of ChunkOk d \<Rightarrow> EncWrite d | _ \<Rightarrow> EncLeave)\<rparr>)"
proof -
  from assms(2,3) obtain ds where adm: "ev_admitted v" and w: "wrote_chunks v ds"
    "ev_tried v = length (enc_intro v) + length ds" and rx: "ev_rx v = map ChunkOk ds"
    and t: "takes_from ms (ev_sub v) ds" and pos: "ev_pos v = ev_sub v + length ds"
    by (auto simp: enc_ok_def)
  have le: "ev_pos v \<le> length ms"
    using t pos prefix_length_le [of ds "drop (ev_sub v) ms"] by (auto simp: takes_from_def)
  show ?thesis
  proof (cases x)
    case (ChunkOk d)
    with assms(1,4) le have "ev_pos v < length ms" "d = ms ! ev_pos v" "p = Suc (ev_pos v)"
      by (auto simp: chunk_channel_def dest!: spec [of _ ms] spec [of _ "ev_pos v"])
    with ChunkOk adm w rx t pos takes_next [OF t, of d] show ?thesis
      by (simp add: enc_ok_def) (intro exI [of _ ds], simp)
  next
    case (ChunkLagged n)
    let ?v = "v\<lparr>ev_rx := ev_rx v @ [x], ev_pos := p, ev_pc := EncLeave\<rparr>"
    have "left_with ?v ds" by (rule left_after [of _ _ "[x]"]) (use w rx ChunkLagged in simp_all)
    with ChunkLagged adm w(1) t show ?thesis by (auto simp: enc_ok_def)
  next
    case ChunkClosed
    with assms(1,4) le show ?thesis
      by (auto simp: chunk_channel_def dest!: spec [of _ ms] spec [of _ "ev_pos v"])
  qed
qed

lemma write_ok:
  assumes "enc_ok ms v" "ev_pc v = EncWrite d"
  shows "enc_ok ms (enc_write d (EncRecord (length d)) EncLeave v)"
proof -
  from assms obtain ds where adm: "ev_admitted v" and w: "wrote_chunks v ds"
    "ev_tried v = length (enc_intro v) + length ds" and rx: "ev_rx v = map ChunkOk (ds @ [d])"
    and t: "takes_from ms (ev_sub v) (ds @ [d])" "ev_pos v = ev_sub v + length (ds @ [d])"
    by (auto simp: enc_ok_def)
  show ?thesis
  proof (cases "ev_socket v (ev_tried v)")
    case True
    let ?v = "v\<lparr>ev_tried := ev_tried v + 1, ev_sent := ev_sent v @ [d], ev_pc := EncRecord (length d)\<rparr>"
    have "wrote_chunks ?v (ds @ [d])" using w True by (auto simp: wrote_chunks_def less_Suc_eq)
    with True adm w(2) rx t show ?thesis
      by (simp add: enc_write_def Let_def enc_ok_def) (intro exI [of _ "ds @ [d]"], simp)
  next
    case False
    have "takes_from ms (ev_sub v) ds"
      using t(1) by (auto simp: takes_from_def intro: prefix_order.trans [of ds "ds @ [d]"])
    moreover have "left_with v ds"
      by (rule left_after [OF w(1), of "[ChunkOk d]"]) (use rx False w(2) in simp_all)
    ultimately show ?thesis using False adm w(1) by (auto simp: enc_write_def Let_def enc_ok_def)
  qed
qed

lemma enc_turn_ok:
  assumes recv: "chunk_channel recv" and ok: "enc_ok (sr_broadcast relay) v"
    and turn: "enc_turn recv relay v = Some (r, v')"
  shows "enc_ok (sr_broadcast relay) v'"
proof (cases "ev_pc v")
  case EncAdd
  with ok turn show ?thesis by (auto simp: enc_turn_def enc_ok_def split: prod.splits bool.splits)
next
  case EncRefuse
  with ok turn show ?thesis by (auto simp: enc_turn_def enc_ok_def enc_write_def Let_def split: if_splits)
next
  case EncReadPlaylist
  with ok turn show ?thesis
    by (auto simp: enc_turn_def enc_ok_def wrote_chunks_def greeting_def enc_intro_def split: option.splits)
next
  case (EncWritePlaylist d)
  with ok turn show ?thesis
    by (auto simp: enc_turn_def enc_ok_def enc_write_def Let_def wrote_chunks_def greeting_def enc_intro_def)
next
  case EncSubscribe
  with ok turn show ?thesis by (auto simp: enc_turn_def enc_ok_def Let_def takes_from_def)
next
  case EncRecv
  with turn recv_ok [OF recv ok] show ?thesis by (auto simp: enc_turn_def split: option.splits)
next
  case (EncWrite d)
  with turn write_ok [OF ok] show ?thesis by (auto simp: enc_turn_def)
next
  case (EncRecord n)
  with ok turn show ?thesis by (auto simp: enc_turn_def enc_ok_def)
next
  case EncLeave
  with ok turn show ?thesis by (auto simp: enc_turn_def enc_ok_def split: if_splits)
next
  case (EncEnded e)
  with turn show ?thesis by (simp add: enc_turn_def)
qed

lemma enc_select_ok:
  "enc_ok ms v \<Longrightarrow> enc_select relay v = Some (r, v') \<Longrightarrow> enc_ok ms v'"
  by (auto simp: enc_select_def enc_ok_def split: if_splits enc_pc.splits)

section \<open>The invariant\<close>

definition enc_slots :: "enc_viewer list \<Rightarrow> nat" where
  "enc_slots vs = length (filter ev_slot vs)"

lemma enc_slots_update:
  "i < length vs \<Longrightarrow> enc_slots (vs[i := v]) + of_bool (ev_slot (vs ! i)) = enc_slots vs + of_bool (ev_slot v)"
proof (induction vs arbitrary: i)
  case (Cons w vs)
  then show ?case by (cases i) (auto simp: enc_slots_def)
qed simp

lemma enc_turn_count:
  assumes "enc_turn recv r v = Some (r', v')" "ev_slot v \<Longrightarrow> 0 < sr_client_count r"
    "sr_client_count r \<le> sr_max_clients r" "enc_ok ms v"
  shows "sr_client_count r' + of_bool (ev_slot v) = sr_client_count r + of_bool (ev_slot v')
    \<and> sr_client_count r' \<le> sr_max_clients r'"
  using assms
  by (cases "ev_pc v")
    (auto simp: enc_turn_def enc_ok_def enc_write_def relay_add_client_def relay_remove_client_def
      relay_record_bytes_sent_def Let_def split: if_splits option.splits)

definition enc_inv :: "enc_system \<Rightarrow> bool" where
  "enc_inv s \<longleftrightarrow> (\<forall>v \<in> set (en_viewers s). enc_ok (sr_broadcast (en_relay s)) v)
     \<and> sr_client_count (en_relay s) = enc_slots (en_viewers s)
     \<and> sr_client_count (en_relay s) \<le> sr_max_clients (en_relay s)"

lemma enc_inv_pulled:
  assumes "enc_inv s" "sr_client_count r = sr_client_count (en_relay s)"
    "sr_max_clients r = sr_max_clients (en_relay s)" "prefix (sr_broadcast (en_relay s)) (sr_broadcast r)"
    "en_viewers s' = en_viewers s" "en_relay s' = r"
  shows "enc_inv s'"
  using assms by (auto simp: enc_inv_def intro: enc_ok_later)

lemma enc_inv_set:
  assumes inv: "enc_inv s" and i: "i < length (en_viewers s)" and r: "quiet r = quiet (en_relay s)"
    and ok: "enc_ok (sr_broadcast (en_relay s)) v"
    and count: "sr_client_count r + of_bool (ev_slot (en_viewers s ! i)) = sr_client_count (en_relay s) + of_bool (ev_slot v)"
    and max: "sr_client_count r \<le> sr_max_clients r"
  shows "enc_inv (enc_set i s (r, v))"
proof -
  have "sr_broadcast r = sr_broadcast (en_relay s)" using arg_cong [OF r, of sr_broadcast] by simp
  moreover have "sr_client_count r = enc_slots ((en_viewers s)[i := v])"
    using enc_slots_update [OF i, of v] count inv by (simp add: enc_inv_def)
  moreover have "\<forall>w \<in> set ((en_viewers s)[i := v]). enc_ok (sr_broadcast (en_relay s)) w"
    using inv ok set_update_subset_insert [of "en_viewers s" i v] by (auto simp: enc_inv_def)
  ultimately show ?thesis using max by (simp add: enc_inv_def enc_set_def)
qed

lemma enc_slot_held: "i < length vs \<Longrightarrow> ev_slot (vs ! i) \<Longrightarrow> 0 < enc_slots vs"
  using enc_slots_update [of i vs "(vs ! i)\<lparr>ev_slot := False\<rparr>"] by simp

lemma enc_apply_inv:
  assumes recv: "chunk_channel (ew_recv W)" and inv: "enc_inv s" and step: "enc_apply W a s = Some s'"
  shows "enc_inv s'"
  using step
proof (cases rule: enc_apply_cases)
  case (connect wr)
  with inv new_enc_ok [of "sr_broadcast (en_relay s)" wr] show ?thesis
    by (auto simp: enc_inv_def enc_slots_def) (simp_all add: new_enc_viewer_def)
next
  case (begins env pc l r)
  from begin_keeps [OF begins(2)] begins(3) show ?thesis by (intro enc_inv_pulled [OF inv, of r]) simp_all
next
  case (moves pc l r)
  from step_keeps [OF moves(2)] moves(3) show ?thesis by (intro enc_inv_pulled [OF inv, of r]) simp_all
next
  case (turn i r v)
  have ok: "enc_ok (sr_broadcast (en_relay s)) (en_viewers s ! i)" using inv turn(1) by (simp add: enc_inv_def)
  have "ev_slot (en_viewers s ! i) \<Longrightarrow> 0 < sr_client_count (en_relay s)"
    using enc_slot_held [OF turn(1)] inv by (simp add: enc_inv_def)
  from enc_turn_count [OF turn(2) this _ ok] inv
  have "sr_client_count r + of_bool (ev_slot (en_viewers s ! i)) = sr_client_count (en_relay s) + of_bool (ev_slot v)"
    "sr_client_count r \<le> sr_max_clients r" by (simp_all add: enc_inv_def)
  with enc_turn_ok [OF recv ok turn(2)] enc_turn_relay [OF turn(2)] turn(1,3) inv show ?thesis
    by (simp only:) (intro enc_inv_set; simp)
next
  case (gone i r v)
  have ok: "enc_ok (sr_broadcast (en_relay s)) (en_viewers s ! i)" using inv gone(1) by (simp add: enc_inv_def)
  have "ev_slot (en_viewers s ! i)" "r = relay_remove_client (en_relay s)" "\<not> ev_slot v"
    using gone(2) by (auto simp: enc_select_def split: if_splits)
  moreover from this enc_slot_held [OF gone(1)] inv have "0 < sr_client_count (en_relay s)" by (simp add: enc_inv_def)
  ultimately have "sr_client_count r + of_bool (ev_slot (en_viewers s ! i)) = sr_client_count (en_relay s) + of_bool (ev_slot v)"
    "sr_client_count r \<le> sr_max_clients r" using inv by (auto simp: relay_remove_client_def enc_inv_def)
  with enc_select_ok [OF ok gone(2)] enc_select_relay [OF gone(2)] gone(1,3) inv show ?thesis
    by (simp only:) (intro enc_inv_set; simp)
qed

lemma enc_reach_inv:
  assumes "chunk_channel (ew_recv W)" "sr_client_count (snd st) = 0" "enc_reach W st s"
  shows "enc_inv s"
  using assms(3)
proof (induction rule: enc_reach.induct)
  case (init env)
  show ?case using assms(2) by (simp add: enc_inv_def enc_init_def enc_slots_def)
qed (rule enc_apply_inv [OF assms(1)])

section \<open>Keys and frames in the middle of a turn\<close>

definition pending :: "pull_pc \<Rightarrow> bytes option" where
  "pending pc = (case pc of CachePlaylist d segs \<Rightarrow> Some d | SendPlaylist d segs \<Rightarrow> Some d
     | CacheSegment seg d segs \<Rightarrow> Some d | SendSegment seg d segs \<Rightarrow> Some d | _ \<Rightarrow> None)"

text \<open>The account of \<open>Stream_Relay\<close>, with the chunk that is encrypted but not yet broadcast.\<close>

definition loop_sync :: "ring_lib \<Rightarrow> key_info \<Rightarrow> bytes set \<Rightarrow> pull_pc \<Rightarrow> pull_locals \<Rightarrow> stream_relay
    \<Rightarrow> (bytes \<times> bytes) list \<Rightarrow> bytes list \<Rightarrow> bool" where
  "loop_sync R ki S pc l r ps cs \<longleftrightarrow>
     (case pending pc of
        None \<Rightarrow> relay_sync R ki S (pl_seq_counter l) r ps cs
      | Some d \<Rightarrow> d \<in> set cs
          \<and> (\<forall>ts. relay_sync R ki S (pl_seq_counter l + 1) (broadcast_segment (pl_seq_counter l) ts d r) ps cs))"

lemma sync_cong:
  "sr_encryptor r' = sr_encryptor r \<Longrightarrow> sr_broadcast r' = sr_broadcast r \<Longrightarrow> sr_segments r' = sr_segments r \<Longrightarrow>
   relay_sync R ki S n r' ps cs = relay_sync R ki S n r ps cs"
  by (simp add: relay_sync_def)

lemma encrypt_pending:
  assumes R: "ring_sound R" "ring_seals R" and env: "env_ok env" "env_data env \<subseteq> S" and d: "d \<in> env_data env"
    and sync: "relay_sync R ki S n r ps cs"
  obtains c r1 cs' ps' where "encrypt_with R env d r = (Inr c, r1)" "c \<in> set cs'"
    "\<forall>ts. relay_sync R ki S (n + 1) (broadcast_segment n ts c r1) ps' cs'"
proof -
  have len: "length d < 2 ^ 32" "d \<in> S" "length (pe_nonce env (sc_seq (sr_encryptor r))) = 12"
    using env d by (auto simp: env_ok_def)
  obtain c r1 where e: "encrypt_with R env d r = (Inr c, r1)" "sr_segments r1 = sr_segments r"
    "\<And>r2 ts. sr_encryptor r2 = sr_encryptor r1 \<Longrightarrow> sr_broadcast r2 = sr_broadcast r1 \<Longrightarrow>
       (\<forall>s \<in> set (sr_segments r2). cs_data s \<in> set (cs @ [c])) \<Longrightarrow>
       relay_sync R ki S (n + 1) (broadcast_segment n ts c r2)
         (ps @ [(pe_nonce env (sc_seq (sr_encryptor r)), d)]) (cs @ [c])"
    using sync_encrypt [OF R sync len] by metis
  have "\<forall>s \<in> set (sr_segments r1). cs_data s \<in> set (cs @ [c])" using sync e(2) by (simp add: relay_sync_def)
  with e(1) e(3) [of r1] show ?thesis by (intro that [of c r1 "cs @ [c]" "ps @ [(pe_nonce env (sc_seq (sr_encryptor r)), d)]"]) simp_all
qed

lemma push_sync:
  assumes "relay_sync R ki S n (broadcast_segment m ts d r) ps cs" "cs_data e \<in> set cs"
  shows "relay_sync R ki S n (broadcast_segment m ts d (push_segment e r)) ps cs"
proof -
  have "\<forall>s \<in> set (sr_segments (push_segment e r)). cs_data s \<in> set cs"
    using assms by (auto simp: relay_sync_def dest!: push_segment_set)
  with assms(1) show ?thesis by (simp add: relay_sync_def) (simp add: broadcast_segment_def push_segment_def)
qed

lemma begin_sync:
  assumes "ring_sound R" "ring_seals R" "env_ok env" "env_data env \<subseteq> S"
    and sync: "relay_sync R ki S (pl_seq_counter l) r ps cs" and begins: "pull_begin R h env (l, r) = (pc, l', r')"
  shows "\<exists>ps cs. loop_sync R ki S pc l' r' ps cs"
proof (cases "pc = PullIdle")
  case True
  show ?thesis
  proof (cases "\<exists>d. fetch_url (pe_m3u8 env) = Some d \<and> r' = snd (encrypt_with R env d r) \<and> r' \<noteq> r")
    case True
    then obtain d where d: "fetch_url (pe_m3u8 env) = Some d" "r' = snd (encrypt_with R env d r)" "r' \<noteq> r" by blast
    have "d \<in> env_data env" using d(1) by (simp add: env_data_def)
    from encrypt_pending [OF assms(1-4) this sync] obtain c r1 where "encrypt_with R env d r = (Inr c, r1)" .
    with begins d \<open>pc = PullIdle\<close> show ?thesis
      by (auto simp: pull_begin_def Let_def split: if_splits option.splits prod.splits)
  next
    case False
    with begins True have "r' = r" "pl_seq_counter l' = pl_seq_counter l"
      by (auto simp: pull_begin_def Let_def split: if_splits option.splits prod.splits sum.splits)
    with sync True show ?thesis by (auto simp: loop_sync_def pending_def)
  qed
next
  case False
  with begins obtain d c segs where d: "fetch_url (pe_m3u8 env) = Some d" "encrypt_with R env d r = (Inr c, r')"
    "pc = CachePlaylist c segs" "pl_seq_counter l' = pl_seq_counter l"
    by (auto simp: pull_begin_def Let_def split: if_splits option.splits prod.splits sum.splits)
  have "d \<in> env_data env" using d(1) by (simp add: env_data_def)
  from encrypt_pending [OF assms(1-4) this sync] d show ?thesis
    by (auto simp: loop_sync_def pending_def) blast
qed

lemma step_sync:
  assumes "ring_sound R" "ring_seals R" "env_ok env" "env_data env \<subseteq> S"
    and sync: "loop_sync R ki S pc l r ps cs" and step: "pull_step R pick env pc (l, r) = (pc', l', r')"
  shows "\<exists>ps cs. loop_sync R ki S pc' l' r' ps cs"
proof (cases pc)
  case (NextSegment segs)
  with sync have s: "relay_sync R ki S (pl_seq_counter l) r ps cs" by (simp add: loop_sync_def pending_def)
  show ?thesis
  proof (cases segs)
    case Nil
    with NextSegment step have "pc' = PullIdle" "l' = l" "r' = r" by (simp_all add: pull_step_def Let_def)
    with s show ?thesis by (intro exI [of _ ps] exI [of _ cs]) (simp add: loop_sync_def pending_def)
  next
    case (Cons seg rest)
    show ?thesis
    proof (cases "sr_fetched_urls r (seg_url seg) = None \<and> fetch_url (pe_segment env (seg_url seg)) \<noteq> None")
      case True
      then obtain d where d: "fetch_url (pe_segment env (seg_url seg)) = Some d" by blast
      then have "d \<in> env_data env" by (auto simp: env_data_def)
      from assms(1-4) this s obtain c r1 ps' cs' where
        e: "encrypt_with R env d r = (Inr c, r1)" "c \<in> set cs'"
        "\<forall>ts. relay_sync R ki S (pl_seq_counter l + 1) (broadcast_segment (pl_seq_counter l) ts c r1) ps' cs'"
        by (rule encrypt_pending)
      from NextSegment Cons True d step e(1) have "pc' = CacheSegment seg c rest" "l' = l" "r' = r1"
        by (simp_all add: pull_step_def Let_def)
      with e(2,3) show ?thesis by (intro exI [of _ ps'] exI [of _ cs']) (simp add: loop_sync_def pending_def)
    next
      case False
      with NextSegment Cons step have "pc' = NextSegment rest" "l' = l" "r' = r"
        by (auto simp: pull_step_def Let_def split: if_splits)
      with s show ?thesis by (intro exI [of _ ps] exI [of _ cs]) (simp add: loop_sync_def pending_def)
    qed
  qed
next
  case (SendSegment seg d segs)
  let ?r = "remember_url pick (seg_url seg) (seg_seq seg) r"
  have "relay_sync R ki S n (broadcast_segment m ts d ?r) ps cs = relay_sync R ki S n (broadcast_segment m ts d r) ps cs"
    for n m ts by (rule sync_cong) (simp_all add: broadcast_segment_def)
  with SendSegment sync step show ?thesis
    by (intro exI [of _ ps] exI [of _ cs]) (auto simp: pull_step_def loop_sync_def pending_def Let_def)
next
  case (CachePlaylist d segs)
  with sync step push_sync [where e = "playlist_entry (pl_seq_counter l) d" and r = r] show ?thesis
    by (intro exI [of _ ps] exI [of _ cs]) (auto simp: pull_step_def loop_sync_def pending_def Let_def playlist_entry_def)
next
  case (CacheSegment seg d segs)
  with sync step push_sync [where e = "ts_entry seg d" and r = r] show ?thesis
    by (intro exI [of _ ps] exI [of _ cs]) (auto simp: pull_step_def loop_sync_def pending_def Let_def ts_entry_def)
next
  case (SendPlaylist d segs)
  with sync step show ?thesis
    by (intro exI [of _ ps] exI [of _ cs]) (auto simp: pull_step_def loop_sync_def pending_def Let_def)
qed (use sync step in \<open>auto simp: pull_step_def\<close>)

lemma loop_sync_quiet:
  "quiet r' = quiet r \<Longrightarrow> loop_sync R ki S pc l r' ps cs = loop_sync R ki S pc l r ps cs"
proof -
  assume q: "quiet r' = quiet r"
  have f: "sr_encryptor r' = sr_encryptor r" "sr_broadcast r' = sr_broadcast r" "sr_segments r' = sr_segments r"
    using arg_cong [OF q, of sr_encryptor] arg_cong [OF q, of sr_broadcast] arg_cong [OF q, of sr_segments]
    by (simp_all add: quiet_def)
  have "relay_sync R ki S n (broadcast_segment m ts d r') ps cs = relay_sync R ki S n (broadcast_segment m ts d r) ps cs"
    for n m ts d by (rule sync_cong) (use f in \<open>simp_all add: broadcast_segment_def\<close>)
  with sync_cong [OF f] show ?thesis by (simp add: loop_sync_def split: option.split)
qed

text \<open>What is known of the chunks at any moment: those broadcast are a prefix of those encrypted.\<close>

lemma loop_sync_chunks:
  assumes "ring_sound R" "loop_sync R ki S pc l r ps cs"
  obtains s' where "nonces_ok ps" "snd ` set ps \<subseteq> S" "encrypt_all R ps (stream_cipher_new ki) = (map Inr cs, s')"
    "length (sr_broadcast r) \<le> length cs" "carries_chunks (sr_broadcast r) (take (length (sr_broadcast r)) cs)"
    "\<forall>e \<in> set (sr_segments r). cs_data e \<in> set cs"
proof -
  have carried: "carries_chunks ms (take (length ms) cs) \<and> length ms \<le> length cs"
    if "carries_chunks (ms @ ns) cs" for ms ns
    using that by (auto simp: carries_chunks_def list_all2_append1 dest: list_all2_lengthD)
  show ?thesis
  proof (cases "pending pc")
    case None
    with assms(2) have s: "relay_sync R ki S (pl_seq_counter l) r ps cs" by (simp add: loop_sync_def)
    then have "carries_chunks (sr_broadcast r @ []) cs" by (simp add: relay_sync_def frames_carry_chunks)
    from carried [OF this] s show ?thesis by (intro that) (auto simp: relay_sync_def)
  next
    case (Some d)
    let ?r = "broadcast_segment (pl_seq_counter l) 0 d r"
    from assms(2) Some have s: "relay_sync R ki S (pl_seq_counter l + 1) ?r ps cs" by (simp add: loop_sync_def)
    then have "frames_of_chunks (sr_broadcast ?r) cs" by (simp add: relay_sync_def)
    from frames_carry_chunks [OF this] have "carries_chunks (sr_broadcast r @
        [frame_encode (frame_new_with_ts Data (pl_seq_counter l) 0 d)]) cs" by (simp add: broadcast_segment_def)
    from carried [OF this] s show ?thesis by (intro that) (auto simp: relay_sync_def)
  qed
qed

definition playlist_fits :: "enc_viewer \<Rightarrow> bool" where
  "playlist_fits v \<longleftrightarrow> (\<forall>d. ev_playlist v = Some d \<longrightarrow> 28 \<le> length d \<and> length d \<le> MAX_FRAME_SIZE)"

text \<open>The environments considered: nonces of the right length, and data that fits a frame.\<close>

definition env_fits :: "pull_env \<Rightarrow> bool" where
  "env_fits env \<longleftrightarrow> env_ok env \<and> (\<forall>d \<in> env_data env. length d + 28 \<le> MAX_FRAME_SIZE)"

lemma chunk_sizes:
  assumes "ring_sound R" "nonces_ok ps" "encrypt_all R ps s = (map Inr cs, s')" "snd ` set ps \<subseteq> S"
    and "\<forall>d \<in> S. length d + 28 \<le> MAX_FRAME_SIZE" "c \<in> set cs"
  shows "28 \<le> length c \<and> length c \<le> MAX_FRAME_SIZE"
proof -
  have "length c \<in> set (map (\<lambda>p. length (snd p) + 28) ps)"
    using assms(6) encrypt_all_lengths [OF assms(1-3)] by (metis image_eqI set_map)
  then obtain p where p: "p \<in> set ps" "length c = length (snd p) + 28" by auto
  with assms(4) have "snd p \<in> S" by blast
  with assms(5) p(2) show ?thesis by auto
qed

lemma enc_turn_playlist:
  assumes "enc_turn recv r v = Some (r', v')"
  shows "ev_playlist v' = ev_playlist v \<or> ev_playlist v' = latest_m3u8 r"
  using assms by (auto simp: enc_turn_def enc_write_def Let_def split: enc_pc.splits prod.splits bool.splits option.splits if_splits)

lemma latest_playlist_size:
  assumes R: "ring_sound R" and s: "loop_sync R ki S pc l r ps cs" and S: "\<forall>d \<in> S. length d + 28 \<le> MAX_FRAME_SIZE"
    and d: "latest_m3u8 r = Some d"
  shows "28 \<le> length d \<and> length d \<le> MAX_FRAME_SIZE"
proof -
  obtain s0 where c: "nonces_ok ps" "snd ` set ps \<subseteq> S" "encrypt_all R ps (stream_cipher_new ki) = (map Inr cs, s0)"
    "\<forall>e \<in> set (sr_segments r). cs_data e \<in> set cs" using loop_sync_chunks [OF R s] by metis
  from d obtain e where "e \<in> set (sr_segments r)" "d = cs_data e"
    by (auto simp: latest_m3u8_def find_Some_iff) (metis length_rev nth_mem set_rev)
  with c(4) have "d \<in> set cs" by blast
  from chunk_sizes [OF R c(1,3,2) S this] show ?thesis .
qed

lemma enc_reach_sync:
  assumes R: "ring_sound R" "ring_seals R" and W: "ew_ring W = R"
    and st: "st = (pull_locals_new seed, stream_relay_new key url ki mc ms)"
    and "enc_reach W st s" "\<forall>env \<in> set (en_envs s). env_fits env \<and> env_data env \<subseteq> S"
    and S: "\<forall>d \<in> S. length d + 28 \<le> MAX_FRAME_SIZE"
  shows "(\<exists>ps cs. loop_sync R ki S (en_pc s) (en_locals s) (en_relay s) ps cs)
    \<and> (en_pc s \<noteq> PullIdle \<longrightarrow> en_env s \<in> set (en_envs s)) \<and> (\<forall>v \<in> set (en_viewers s). playlist_fits v)"
  using assms(5,6)
proof (induction rule: enc_reach.induct)
  case (init env)
  have "loop_sync R ki S PullIdle (fst st) (snd st) [] []"
    using sync_new [of R ki S seed key url mc ms] by (simp add: st loop_sync_def pending_def)
  then show ?case by (auto simp: enc_init_def)
next
  case (step s a s')
  have before: "\<forall>env \<in> set (en_envs s). env_fits env \<and> env_data env \<subseteq> S"
    using step.hyps(2) step.prems by (cases rule: enc_apply_cases) (auto simp: enc_set_def)
  with step.IH obtain ps cs where s: "loop_sync R ki S (en_pc s) (en_locals s) (en_relay s) ps cs"
    "en_pc s \<noteq> PullIdle \<Longrightarrow> en_env s \<in> set (en_envs s)" "\<forall>v \<in> set (en_viewers s). playlist_fits v" by blast
  from step.hyps(2) show ?case
  proof (cases rule: enc_apply_cases)
    case (connect wr)
    with s show ?thesis by (auto simp: new_enc_viewer_def playlist_fits_def)
  next
    case (begins env pc l r)
    have env: "env_ok env" "env_data env \<subseteq> S" using step.prems begins(3) by (simp_all add: env_fits_def)
    have "relay_sync R ki S (pl_seq_counter (en_locals s)) (en_relay s) ps cs"
      using s(1) begins(1) by (simp add: loop_sync_def pending_def)
    from begin_sync [OF R env this begins(2) [unfolded W]] begins(3) s(3) show ?thesis by simp
  next
    case (moves pc l r)
    have "env_fits (en_env s) \<and> env_data (en_env s) \<subseteq> S" using s(2) [OF moves(1)] before by blast
    then have env: "env_ok (en_env s)" "env_data (en_env s) \<subseteq> S" by (simp_all add: env_fits_def)
    from step_sync [OF R env s(1) moves(2) [unfolded W]] moves s(2,3) show ?thesis by simp
  next
    case (turn i r v)
    have fits: "playlist_fits v"
    proof -
      have "28 \<le> length d \<and> length d \<le> MAX_FRAME_SIZE" if "latest_m3u8 (en_relay s) = Some d" for d
        using latest_playlist_size [OF R(1) s(1) S that] .
      moreover have "playlist_fits (en_viewers s ! i)" using s(3) turn(1) by simp
      ultimately show ?thesis using enc_turn_playlist [OF turn(2)] by (auto simp: playlist_fits_def)
    qed
    have "loop_sync R ki S (en_pc s) (en_locals s) r ps cs"
      using s(1) loop_sync_quiet [of r "en_relay s"] enc_turn_relay [OF turn(2)] by simp
    with turn(1,3) s fits set_update_subset_insert [of "en_viewers s" i v] show ?thesis
      by (auto simp: enc_set_def)
  next
    case (gone i r v)
    have "ev_playlist v = ev_playlist (en_viewers s ! i)" using gone(2) by (auto simp: enc_select_def split: if_splits)
    moreover have "playlist_fits (en_viewers s ! i)" using s(3) gone(1) by simp
    ultimately have fits: "playlist_fits v" by (simp add: playlist_fits_def)
    have "loop_sync R ki S (en_pc s) (en_locals s) r ps cs"
      using s(1) loop_sync_quiet [of r "en_relay s"] enc_select_relay [OF gone(2)] by simp
    with gone(1,3) s fits set_update_subset_insert [of "en_viewers s" i v] show ?thesis
      by (auto simp: enc_set_def)
  qed
qed

end
