(* ===== verification/Encrypted_System_Props.thy ===== *)
theory Encrypted_System_Props
  imports Encrypted_System
begin

text \<open>
  What holds of a running HLS relay with its encrypted viewers, in every interleaving: the
  turns of the pull loop and the connections are those of \<open>Stream_Relay\<close> and
  \<open>Encrypted_Session\<close>, the slots are counted exactly, and which viewers can read the stream.
\<close>

section \<open>Refinement\<close>

text \<open>
  C20: the turns of the pull loop may be taken as atomic. Whatever viewers do between its
  steps, at any moment the loop's locals, caches, encryptor and broadcast, once the turn under
  way is finished, are those of the turns begun so far, done one after the other; and what
  has been broadcast up to now is a prefix of what those turns broadcast.
\<close>

theorem pull_steps_refine_turns:
  assumes "enc_reach W st s"
  shows "pull_finish (ew_ring W) (ew_pick W) (en_env s) (en_pc s) (en_locals s, quiet (en_relay s))
      = pull_turns (ew_ring W) (ew_hash W) (ew_pick W) (en_envs s) (apsnd quiet st)
    \<and> prefix (sr_broadcast (en_relay s))
        (sr_broadcast (snd (pull_turns (ew_ring W) (ew_hash W) (ew_pick W) (en_envs s) (apsnd quiet st))))"
  using finished_reach [OF assms] finish_extends [of "quiet (en_relay s)"]
  by (metis finished_def quiet_simps(5))

text \<open>
  C21: each connection does what \<open>ws_encrypted_session\<close> does, alone and on any relay with
  room and the same cached playlist, given the answers its receiver got: the same messages
  and, once it has left its loop, the same end. It writes the playlist it found, if at all,
  and then the messages broadcast after its subscription, one by one. The client count is the
  number of slots held and never above the maximum.
\<close>

theorem enc_viewers_refine_sessions:
  assumes "chunk_channel (ew_recv W)" "sr_client_count (snd st) = 0" "enc_reach W st s"
    and "v \<in> set (en_viewers s)" "ev_admitted v"
    and "sr_client_count r < sr_max_clients r" "latest_m3u8 r = ev_playlist v"
  shows "(ev_pc v = EncRecv \<longrightarrow> es_written (ws_encrypted_session (ev_socket v) False r (ev_rx v)) = ev_sent v
        \<and> es_end (ws_encrypted_session (ev_socket v) False r (ev_rx v)) = Serving)
    \<and> (ev_pc v \<in> {EncLeave, EncEnded Served} \<longrightarrow>
        es_written (ws_encrypted_session (ev_socket v) False r (ev_rx v)) = ev_sent v
        \<and> es_end (ws_encrypted_session (ev_socket v) False r (ev_rx v)) = Served)
    \<and> (\<exists>ds. ev_sent v \<in> {[], greeting v @ ds} \<and> prefix ds (drop (ev_sub v) (sr_broadcast (en_relay s))))
    \<and> sr_client_count (en_relay s) = length (filter ev_slot (en_viewers s))
    \<and> sr_client_count (en_relay s) \<le> sr_max_clients (en_relay s)"
proof -
  have inv: "enc_inv s" using enc_reach_inv [OF assms(1-3)] .
  with assms(4) have ok: "enc_ok (sr_broadcast (en_relay s)) v" by (simp add: enc_inv_def)
  let ?r = "r\<lparr>sr_client_count := sr_client_count r + 1\<rparr>"
  have first: "initial_playlist r = enc_intro v"
    using assms(7) by (simp add: initial_playlist_def enc_intro_def playlist_message_def split: option.split)
  have session: "es_written (ws_encrypted_session (ev_socket v) False r rx) = greeting v @ ws
      \<and> es_end (ws_encrypted_session (ev_socket v) False r rx) = (if fin then Served else Serving)"
    if "enc_send_loop (ev_socket v) (length (enc_intro v)) ?r rx = (ws, r', fin)" for rx ws r' fin
    using assms(6) that by (simp add: ws_encrypted_session_def relay_add_client_def first greeting_def Let_def)
  have recv: "es_written (ws_encrypted_session (ev_socket v) False r (ev_rx v)) = ev_sent v
      \<and> es_end (ws_encrypted_session (ev_socket v) False r (ev_rx v)) = Serving" if pc: "ev_pc v = EncRecv"
  proof -
    from ok pc obtain ds where ds: "wrote_chunks v ds" "ev_rx v = map ChunkOk ds @ []" by (auto simp: enc_ok_def)
    with send_loop_ok [of ds "ev_socket v" "length (enc_intro v)" ?r "[]"] obtain r' where
      "enc_send_loop (ev_socket v) (length (enc_intro v)) ?r (ev_rx v) = (ds, r', False)"
      by (auto simp: wrote_chunks_def)
    from session [OF this] ds(1) show ?thesis by (simp add: wrote_chunks_def)
  qed
  have left: "es_written (ws_encrypted_session (ev_socket v) False r (ev_rx v)) = ev_sent v
      \<and> es_end (ws_encrypted_session (ev_socket v) False r (ev_rx v)) = Served"
    if "ev_pc v \<in> {EncLeave, EncEnded Served}"
  proof -
    from ok that assms(5) obtain ds where ds: "wrote_chunks v ds" "left_with v ds"
      by (auto simp: enc_ok_def)
    then obtain r' where "enc_send_loop (ev_socket v) (length (enc_intro v)) ?r (ev_rx v) = (ds, r', True)"
      unfolding left_with_def by blast
    from session [OF this] ds(1) show ?thesis by (simp add: wrote_chunks_def)
  qed
  have "\<exists>ds. ev_sent v \<in> {[], greeting v @ ds} \<and> prefix ds (drop (ev_sub v) (sr_broadcast (en_relay s)))"
    using ok assms(5)
    by (cases "ev_pc v") (auto simp: enc_ok_def wrote_chunks_def takes_from_def split: if_splits
      dest: append_prefixD)
  with recv left inv show ?thesis unfolding enc_inv_def enc_slots_def by blast
qed

section \<open>Who can read the stream\<close>

text \<open>A stretch of the broadcast, seen by a decryptor that has taken \<open>k\<close> chunks.\<close>

lemma view_stretch:
  assumes R: "ring_sound R" "ring_authentic R ki" and ps: "nonces_ok ps"
    "encrypt_all R ps (stream_cipher_new ki) = (map Inr cs, s')"
    and sizes: "\<forall>c \<in> set cs. length c \<le> MAX_FRAME_SIZE"
    and ms: "carries_chunks ms (take (length ms) cs)" "length ms \<le> length cs"
    and ds: "k \<le> length ms" "prefix ds (drop k ms)" and t: "sc_key_info t = ki"
  shows "\<exists>plains. set plains \<subseteq> snd ` set ps \<and> length plains = length ds
    \<and> view_messages R t ds = (if sc_seq t = word_of_nat k then map Some plains else replicate (length ds) None)"
proof -
  let ?n = "k + length ds"
  let ?cs = "take ?n cs" and ?ps = "take ?n ps"
  have n: "?n \<le> length ms" using ds prefix_length_le [OF ds(2)] by simp
  have cut: "encrypt_all R ?ps (stream_cipher_new ki) = (map Inr ?cs, (stream_cipher_new ki)\<lparr>sc_seq := 0 + word_of_nat ?n\<rparr>)"
    using encrypt_all_take [OF ps(2), of ?n] n ms(2) by (simp add: stream_cipher_new_def)
  have nonces: "nonces_ok ?ps" by (rule nonces_drop(2) [OF ps(1)])
  have "carries_chunks (drop k (take ?n ms)) (drop k (take ?n cs))"
  proof (rule carries_chunks_drop)
    show "carries_chunks (take ?n ms) (take ?n cs)"
      using ms(1) n by (auto simp: carries_chunks_def min_def dest: list_all2_takeI [of _ _ _ ?n])
  qed
  moreover have "drop k (take ?n ms) = ds" using ds(2) by (auto simp: drop_take prefix_def)
  ultimately have carries: "carries_chunks ds (drop k ?cs)" by simp
  have small: "\<forall>c \<in> set (drop k ?cs). length c \<le> MAX_FRAME_SIZE"
    using sizes by (meson in_set_dropD in_set_takeD)
  have k: "k \<le> length ?cs" using n ms(2) by simp
  show ?thesis
  proof (cases "sc_seq t = word_of_nat k")
    case True
    have "encrypt_all R (drop k ?ps) ((stream_cipher_new ki)\<lparr>sc_seq := 0 + word_of_nat k\<rparr>)
        = (map Inr (drop k ?cs), (stream_cipher_new ki)\<lparr>sc_seq := 0 + word_of_nat ?n\<rparr>)"
      using encrypt_all_drop [OF cut k] by (simp add: stream_cipher_new_def)
    moreover have "(stream_cipher_new ki)\<lparr>sc_seq := 0 + word_of_nat k\<rparr> = t"
      using t True by (cases t) (simp add: stream_cipher_new_def)
    ultimately have "fst (decrypt_all R (drop k ?cs) t) = map (Inr \<circ> snd) (drop k ?ps)"
      using decrypt_all_in_step [OF R(1) nonces_drop(1) [OF nonces], of k t "drop k ?cs"] by simp
    with view_chunks [OF carries small, of R t "[]"] have
      v: "view_messages R t ds = map Some (map snd (drop k ?ps))" by simp
    have "length ps = length cs" using arg_cong [OF encrypt_all_lengths [OF R(1) ps], of length] by simp
    then have "length (drop k ?ps) = length ds" using n ms(2) by simp
    moreover have "set (drop k ?ps) \<subseteq> set ps" by (meson in_set_dropD in_set_takeD subsetI)
    ultimately show ?thesis using v True by (intro exI [of _ "map snd (drop k ?ps)"]) auto
  next
    case False
    have "length ps = length cs" using arg_cong [OF encrypt_all_lengths [OF R(1) ps], of length] by simp
    then have len: "length (map snd (drop k ?ps)) = length ds" using n ms(2) by simp
    have "set (map snd (drop k ?ps)) \<subseteq> snd ` set ps" by (auto dest!: in_set_dropD in_set_takeD)
    moreover from view_out_of_step [OF R nonces cut carries small k t False]
    have "view_messages R t ds = replicate (length ds) None" .
    ultimately show ?thesis using len False by (intro exI [of _ "map snd (drop k ?ps)"]) simp
  qed
qed


section \<open>A viewer that comes at the wrong moment\<close>

definition toy_world :: enc_world where
  "toy_world = \<lparr>ew_ring = toy_ring, ew_hash = toy_hash, ew_pick = toy_pick, ew_recv = chunk_ring 100\<rparr>"

text \<open>
  The first playlist is cached; a viewer joins, finds it there, and subscribes; the playlist is
  broadcast, and later a second one; the viewer gets both.
\<close>

definition early_join :: "enc_action list" where
  "early_join = [PullBegins (toy_env []), PullMoves, EncConnect (\<lambda>_. True), EncTurn 0, EncTurn 0, EncTurn 0,
     EncTurn 0, PullMoves, EncTurn 0, EncTurn 0, EncTurn 0, PullMoves]"

definition second_playlist :: "enc_action list" where
  "second_playlist = [PullBegins (toy_env [10]), PullMoves, PullMoves, PullMoves, EncTurn 0, EncTurn 0, EncTurn 0]"

lemmas run_defs = enc_apply_def enc_pulled_def enc_set_def pull_begin_def pull_step_def enc_turn_def enc_write_def
  toy_world_def Let_def

lemma early_join_run:
  "\<exists>s v m d. enc_run toy_world early_join (enc_init (toy_env []) toy_start) = Some s
    \<and> en_viewers s = [v] \<and> ev_pc v = EncRecv \<and> ev_sub v = 0 \<and> ev_pos v = 1 \<and> ev_tried v = 2
    \<and> ev_socket v = (\<lambda>_. True) \<and> ev_playlist v = Some d
    \<and> sr_broadcast (en_relay s) = [m] \<and> ev_sent v = [playlist_message d, m] \<and> ev_slot v
    \<and> en_pc s = PullIdle \<and> en_envs s = [toy_env []] \<and> pl_status (en_locals s) = Looping
    \<and> pl_last_m3u8_hash (en_locals s) = 1 \<and> sr_origin_url (en_relay s) = []
    \<and> sr_encryptor (en_relay s) = \<lparr>sc_key_info = toy_key, sc_seq = 1\<rparr>"
  by (simp add: early_join_def run_defs enc_init_def toy_env_def fetch_url_def pull_locals_new_def toy_hash_def
      parse_blank m3u8_start_def encrypt_with_def encrypt_chunk_def stream_relay_new_def stream_cipher_new_def
      toy_chunk_key push_segment_def broadcast_segment_def latest_m3u8_def new_enc_viewer_def relay_add_client_def
      relay_record_bytes_sent_def chunk_ring_def playlist_entry_def)

lemma second_playlist_run:
  assumes "en_viewers s = [v]" "ev_pc v = EncRecv" "ev_pos v = 1" "ev_tried v = 2" "ev_socket v = (\<lambda>_. True)"
    "sr_broadcast (en_relay s) = [m]" "ev_sent v = [p, m]" "en_pc s = PullIdle" "en_envs s = [toy_env []]"
    "pl_status (en_locals s) = Looping" "pl_last_m3u8_hash (en_locals s) = 1" "sr_origin_url (en_relay s) = []"
    "sr_encryptor (en_relay s) = \<lparr>sc_key_info = toy_key, sc_seq = 1\<rparr>"
  shows "\<exists>t w m2. enc_run toy_world second_playlist s = Some t \<and> en_viewers t = [w] \<and> ev_pc w = EncRecv
    \<and> ev_sub w = ev_sub v \<and> ev_playlist w = ev_playlist v \<and> ev_socket w = ev_socket v \<and> ev_slot w = ev_slot v
    \<and> ev_sent w = [p, m, m2] \<and> en_envs t = [toy_env [], toy_env [10]] \<and> ev_admitted w = ev_admitted v
    \<and> sr_broadcast (en_relay t) = [m, m2]"
  using assms
  by (simp add: second_playlist_def run_defs toy_env_def fetch_url_def toy_hash_def
      parse_blank m3u8_start_def encrypt_with_def encrypt_chunk_def
      toy_chunk_key push_segment_def broadcast_segment_def
      relay_record_bytes_sent_def chunk_ring_def playlist_entry_def)

lemma enc_run_append:
  "enc_run W (as @ bs) s = (case enc_run W as s of None \<Rightarrow> None | Some s' \<Rightarrow> enc_run W bs s')"
  by (induction as arbitrary: s) (auto split: option.splits)

text \<open>The state reached, and its only viewer.\<close>

lemma early_state:
  obtains s v p m m2 where "enc_reach toy_world toy_start s" "en_viewers s = [v]" "ev_pc v = EncRecv"
    "ev_sub v = 0" "ev_sent v = greeting v @ [m, m2]" "greeting v = [p]" "ev_admitted v" "ev_slot v"
    "sr_broadcast (en_relay s) = [m, m2]" "en_envs s = [toy_env [], toy_env [10]]"
proof -
  from early_join_run obtain s v m d where s: "enc_run toy_world early_join (enc_init (toy_env []) toy_start) = Some s"
    "en_viewers s = [v]" "ev_pc v = EncRecv" "ev_sub v = 0" "ev_pos v = 1" "ev_tried v = 2"
    "ev_socket v = (\<lambda>_. True)" "ev_playlist v = Some d" "sr_broadcast (en_relay s) = [m]"
    "ev_sent v = [playlist_message d, m]" "ev_slot v" "en_pc s = PullIdle" "en_envs s = [toy_env []]"
    "pl_status (en_locals s) = Looping" "pl_last_m3u8_hash (en_locals s) = 1" "sr_origin_url (en_relay s) = []"
    "sr_encryptor (en_relay s) = \<lparr>sc_key_info = toy_key, sc_seq = 1\<rparr>" by blast
  from second_playlist_run [OF s(2,3,5-7,9,10,12-17)] obtain t w m2 where
    t: "enc_run toy_world second_playlist s = Some t" "en_viewers t = [w]" "ev_pc w = EncRecv" "ev_sub w = ev_sub v"
    "ev_playlist w = ev_playlist v" "ev_socket w = ev_socket v" "ev_slot w = ev_slot v"
    "ev_sent w = [playlist_message d, m, m2]" "en_envs t = [toy_env [], toy_env [10]]" "ev_admitted w = ev_admitted v"
    "sr_broadcast (en_relay t) = [m, m2]" by blast
  have reach: "enc_reach toy_world toy_start t"
    by (rule enc_run_reach [of _ "early_join @ second_playlist" "enc_init (toy_env []) toy_start"])
      (simp_all add: enc_run_append s(1) t(1) enc_reach.init)
  have "enc_inv t" by (rule enc_reach_inv [OF _ _ reach]) (simp_all add: toy_world_def chunk_ring_ok stream_relay_new_def)
  with t(2,3) have "ev_admitted w" by (simp add: enc_inv_def enc_ok_def)
  with reach s t show ?thesis
    by (intro that [of t w m m2 "playlist_message d"]) (simp_all add: greeting_def enc_intro_def)
qed

lemma toy_world_simps [simp]:
  "ew_ring toy_world = toy_ring" "ew_hash toy_world = toy_hash" "ew_pick toy_world = toy_pick"
  "ew_recv toy_world = chunk_ring 100"
  by (simp_all add: toy_world_def)

lemma toy_env_fits: "length m \<le> 100 \<Longrightarrow> env_fits (toy_env m)"
proof -
  assume "length m \<le> 100"
  then have "env_ok (toy_env m)" by (simp add: toy_env_ok)
  with \<open>length m \<le> 100\<close> show ?thesis
    by (auto simp: env_fits_def env_data_def toy_env_def fetch_url_def MAX_FRAME_SIZE_def)
qed


theorem pull_steps_refine_turns_witness:
  "\<exists>s :: enc_system. length (sr_broadcast (en_relay s)) = 2 \<and> prefix (sr_broadcast (en_relay s))
     (sr_broadcast (snd (pull_turns toy_ring toy_hash toy_pick [toy_env [], toy_env [10]] (apsnd quiet toy_start))))"
proof -
  obtain s v p m m2 where s: "enc_reach toy_world toy_start s"
    "sr_broadcast (en_relay s) = [m, m2]" "en_envs s = [toy_env [], toy_env [10]]" by (rule early_state)
  from pull_steps_refine_turns [OF s(1)] s(2,3) show ?thesis by (intro exI [of _ s]) simp
qed

theorem enc_viewers_refine_sessions_witness:
  "\<exists>s v d. enc_reach toy_world toy_start s \<and> en_viewers s = [v] \<and> ev_playlist v = Some d \<and> length (ev_sent v) = 3
     \<and> es_written (ws_encrypted_session (ev_socket v) False
         ((stream_relay_new [] [] toy_key 5 10)\<lparr>sr_segments := [playlist_entry 0 d]\<rparr>) (ev_rx v)) = ev_sent v"
proof -
  obtain s v p m m2 where s: "enc_reach toy_world toy_start s" "en_viewers s = [v]" "ev_pc v = EncRecv"
    "ev_sent v = greeting v @ [m, m2]" "greeting v = [p]" "ev_admitted v" by (rule early_state)
  then obtain d where d: "ev_playlist v = Some d"
    by (auto simp: greeting_def enc_intro_def split: option.splits if_splits)
  let ?r = "(stream_relay_new [] [] toy_key 5 10)\<lparr>sr_segments := [playlist_entry 0 d]\<rparr>"
  have r: "sr_client_count ?r < sr_max_clients ?r" "latest_m3u8 ?r = ev_playlist v"
    by (simp_all add: stream_relay_new_def latest_m3u8_def playlist_entry_def d)
  have "chunk_channel (ew_recv toy_world)" "sr_client_count (snd toy_start) = 0"
    by (simp_all add: chunk_ring_ok stream_relay_new_def)
  from enc_viewers_refine_sessions [OF this s(1) _ s(6) r] s d show ?thesis
    by (intro exI [of _ s] exI [of _ v] exI [of _ d]) simp
qed

end
