(* ===== verification/Cli.thy ===== *)
theory Cli
  imports Rust_Str
begin

text \<open>
  The command line of the agent, \<open>parse_cli_args\<close> of agent-rust/src/main.rs.
\<close>

datatype cli_action = Run string | Version

definition DEFAULT_CONFIG_PATH :: string where
  "DEFAULT_CONFIG_PATH = ''configs/agent.toml''"

definition CONFIG_EQ :: string where
  "CONFIG_EQ = ''--config=''"

definition unexpected_arguments :: "string list \<Rightarrow> string" where
  "unexpected_arguments args = ''unexpected extra arguments: '' @ str_join '' '' args"

definition parse_cli_args :: "string list \<Rightarrow> string + cli_action" where
  "parse_cli_args args =
     (case args of
        [] \<Rightarrow> Inr (Run DEFAULT_CONFIG_PATH)
      | arg # rest \<Rightarrow>
          (if arg = ''--version'' \<or> arg = ''-V'' \<or> arg = ''version'' then Inr Version
           else if arg = ''-c'' \<or> arg = ''--config'' then
             (case rest of
                [] \<Rightarrow> Inl (arg @ '' requires a config path'')
              | [path] \<Rightarrow> Inr (Run path)
              | path # extra \<Rightarrow> Inl (unexpected_arguments extra))
           else if str_starts_with arg CONFIG_EQ then
             (let config_path = trim_start_matches arg CONFIG_EQ
              in if config_path = [] then Inl ''--config requires a config path''
                 else if rest \<noteq> [] then Inl (unexpected_arguments rest)
                 else Inr (Run config_path))
           else if str_starts_with arg ''-'' then Inl (''unknown argument: '' @ arg)
           else if rest \<noteq> [] then Inl (unexpected_arguments rest)
           else Inr (Run arg)))"

section \<open>Properties\<close>

text \<open>
  C0: what the command line accepts. The agent runs with a path exactly for no argument at
  all (the default path), a single argument that is neither an option nor \<open>version\<close>, \<open>-c\<close>
  or \<open>--config\<close> with exactly one argument (even one that looks like an option), and
  \<open>--config=\<close> with a path that is not empty once every leading repetition of the option is
  removed. It prints the version whenever the first argument asks for it, whatever
  follows. Everything else is an error.
\<close>

theorem cli_accepts:
  "(parse_cli_args args = Inr (Run path) \<longleftrightarrow>
      args = [] \<and> path = DEFAULT_CONFIG_PATH
      \<or> args = [path] \<and> \<not> str_starts_with path ''-'' \<and> path \<noteq> ''version''
      \<or> args = [''-c'', path] \<or> args = [''--config'', path]
      \<or> (\<exists>r. args = [CONFIG_EQ @ r] \<and> path = trim_start_matches r CONFIG_EQ \<and> path \<noteq> []))
    \<and> (parse_cli_args args = Inr Version \<longleftrightarrow>
        args \<noteq> [] \<and> hd args \<in> {''--version'', ''-V'', ''version''})"
proof (cases args)
  case Nil
  then show ?thesis by (auto simp: parse_cli_args_def)
next
  case (Cons arg rest)
  have pre: "str_starts_with s CONFIG_EQ \<longleftrightarrow> (\<exists>r. s = CONFIG_EQ @ r)" for s
    by (auto simp: str_starts_with_def prefix_def)
  have eq: "trim_start_matches (CONFIG_EQ @ r) CONFIG_EQ = trim_start_matches r CONFIG_EQ" for r
    by (rule trim_start_prefix) (simp add: CONFIG_EQ_def)
  have dash: "str_starts_with (CONFIG_EQ @ r) ''-''" for r
    by (simp add: str_starts_with_def CONFIG_EQ_def)
  have other: "CONFIG_EQ @ r \<noteq> ''-c''" "CONFIG_EQ @ r \<noteq> ''--config''" "CONFIG_EQ @ r \<noteq> ''--version''"
    "CONFIG_EQ @ r \<noteq> ''-V''" "CONFIG_EQ @ r \<noteq> ''version''" for r
    by (simp_all add: CONFIG_EQ_def)
  consider (version) "arg \<in> {''--version'', ''-V'', ''version''}"
    | (flag) "arg \<in> {''-c'', ''--config''}"
    | (joined) r where "arg = CONFIG_EQ @ r"
    | (dashed) "arg \<notin> {''--version'', ''-V'', ''version'', ''-c'', ''--config''}"
        "\<not> str_starts_with arg CONFIG_EQ" "str_starts_with arg ''-''"
    | (plain) "arg \<notin> {''--version'', ''-V'', ''version'', ''-c'', ''--config''}"
        "\<not> str_starts_with arg CONFIG_EQ" "\<not> str_starts_with arg ''-''"
    using pre by blast
  then show ?thesis
  proof cases
    case version
    then have "\<forall>r. arg \<noteq> CONFIG_EQ @ r" by (auto simp: CONFIG_EQ_def)
    with version show ?thesis by (auto simp: Cons parse_cli_args_def str_starts_with_def)
  next
    case flag
    then have no: "arg \<noteq> CONFIG_EQ @ r" for r by (auto simp: CONFIG_EQ_def)
    have "parse_cli_args (arg # rest) = (case rest of
        [] \<Rightarrow> Inl (arg @ '' requires a config path'') | [path] \<Rightarrow> Inr (Run path)
      | path # extra \<Rightarrow> Inl (unexpected_arguments extra))"
      using flag by (auto simp: parse_cli_args_def)
    with flag no show ?thesis
      by (cases rest rule: remdups_adj.cases) (auto simp: Cons str_starts_with_def)
  next
    case joined
    then show ?thesis using other [of r] dash [of r] eq [of r] pre
      by (auto simp: Cons parse_cli_args_def Let_def)
  next
    case dashed
    then show ?thesis using pre by (auto simp: Cons parse_cli_args_def)
  next
    case plain
    then show ?thesis using pre by (auto simp: Cons parse_cli_args_def)
  qed
qed

end
