(* ===== verification/Startup.thy ===== *)
theory Startup
  imports Agent Cli
begin

text \<open>
  The start of the process, the beginning of \<open>main\<close> in agent-rust/src/main.rs: from the
  command line and the configuration to the first state of the agent. The files, the
  environment variables, the host name and the standard parser of socket addresses are
  arguments.
\<close>

section \<open>From the command line to the first state\<close>

datatype 'addr startup = ExitCode nat | PrintsVersion string | StartAborts | Serves 'addr bool agent

text \<open>\<open>Serves\<close>: the address to bind, whether an update is looked for, and the shared state.\<close>

definition agent_main :: "string \<Rightarrow> (string \<Rightarrow> (string + config) option) \<Rightarrow> (string \<Rightarrow> string option)
    \<Rightarrow> string option \<Rightarrow> (string \<Rightarrow> 'addr option) \<Rightarrow> string list \<Rightarrow> 'addr startup" where
  "agent_main AGENT_VERSION file env hostname parse_addr args =
     (case parse_cli_args args of
        Inl err \<Rightarrow> ExitCode 2
      | Inr Version \<Rightarrow> PrintsVersion AGENT_VERSION
      | Inr (Run config_path) \<Rightarrow>
          (case config_load (file config_path) env hostname of
             None \<Rightarrow> StartAborts
           | Some (Inl e) \<Rightarrow> ExitCode 1
           | Some (Inr c) \<Rightarrow>
               (case parse_addr (listen_addr_str c) of
                  None \<Rightarrow> StartAborts
                | Some addr \<Rightarrow> Serves addr (cfg_auto_update c) (agent_new c))))"

section \<open>Properties\<close>

text \<open>
  What the process becomes. It serves exactly when the command line names a configuration
  (the default path without arguments), the configuration loads and its listening address
  parses; the agent then starts with that configuration, an identity that is not empty
  and is also the selector's, no stream and no upstream. A bad command line exits with 2 and
  a configuration that does not load with 1; nothing else does.
\<close>

theorem agent_main_outcome:
  "(agent_main v file env hostname parse_addr args = Serves addr upd st \<longleftrightarrow>
      (\<exists>path c. parse_cli_args args = Inr (Run path) \<and> config_load (file path) env hostname = Some (Inr c)
        \<and> parse_addr (listen_addr_str c) = Some addr \<and> upd = cfg_auto_update c \<and> st = agent_new c
        \<and> cfg_node_id c \<noteq> [] \<and> sel_node_id (ag_selector st) = cfg_node_id c
        \<and> dom (ag_relays st) = {} \<and> dom (ag_flv_relays st) = {} \<and> current_upstream_url (ag_selector st) = None))
    \<and> (agent_main v file env hostname parse_addr args = ExitCode n \<longleftrightarrow>
        n = 2 \<and> (\<exists>err. parse_cli_args args = Inl err)
        \<or> n = 1 \<and> (\<exists>path e. parse_cli_args args = Inr (Run path) \<and> file path = Some (Inl e)))"
proof -
  have id: "cfg_node_id c \<noteq> []" if "config_load f env hostname = Some (Inr c)" for f c
    using that by (rule config_load_cases)
  have err: "(\<exists>e. config_load f env hostname = Some (Inl e)) \<longleftrightarrow> (\<exists>e. f = Some (Inl e))" for f
    by (auto simp: config_load_def Let_def split: option.splits sum.splits)
  have new: "sel_node_id (ag_selector (agent_new c)) = cfg_node_id c"
    "ag_relays (agent_new c) = Map.empty" "ag_flv_relays (agent_new c) = Map.empty"
    "current_upstream_url (ag_selector (agent_new c)) = None" for c
    by (simp_all add: agent_new_def cascade_selector_new_def current_upstream_url_def)
  show ?thesis
  proof (cases "\<exists>path. parse_cli_args args = Inr (Run path)")
    case False
    then show ?thesis
      by (cases "parse_cli_args args") (auto simp: agent_main_def split: cli_action.split)
  next
    case True
    then obtain path where "parse_cli_args args = Inr (Run path)" by blast
    then show ?thesis using id [of "file path"] err [of "file path"] new
      by (auto simp: agent_main_def split: option.split sum.split)
  qed
qed

end
