(* ===== verification/Http_Api.thy ===== *)
theory Http_Api
  imports Agent
begin

text \<open>
  The agent's plain HTTP side and its reports to the controller: the disguise pages
  (agent-rust/src/disguise/mod.rs), \<open>handle_http_request\<close> and \<open>handle_hls\<close>, and the
  registration and heartbeat of agent-rust/src/main.rs. The embedded page, the JSON and
  base64 encoders and the order in which a table is iterated are arguments; so is the
  measured round trip of each relay.
\<close>

section \<open>The disguise\<close>

record http_response =
  hr_status :: nat
  hr_headers :: "(string \<times> string) list"
  hr_body :: string

definition is_disguise_path :: "string \<Rightarrow> bool" where
  "is_disguise_path path \<longleftrightarrow>
     path \<in> {''/'', ''/about'', ''/archive'', ''/blog'', ''/feed'', ''/rss.xml'', ''/favicon.ico''}
     \<or> str_starts_with path ''/static/'' \<or> str_starts_with path ''/assets/''
     \<or> str_ends_with path ''.css'' \<or> str_ends_with path ''.js''
     \<or> str_ends_with path ''.png'' \<or> str_ends_with path ''.jpg''"

definition quoted :: "string \<Rightarrow> string" where
  "quoted s = [CHR 0x22] @ s @ [CHR 0x22]"

definition RSS_BODY :: string where
  "RSS_BODY = ''<?xml version='' @ quoted ''1.0'' @ '' encoding='' @ quoted ''UTF-8'' @ ''?><rss version=''
     @ quoted ''2.0'' @ ''><channel><title>My Blog</title><link>https://example.com</link>''
     @ ''<description>A personal blog</description></channel></rss>''"

definition disguise_serve :: "string \<Rightarrow> string \<Rightarrow> http_response option" where
  "disguise_serve blog_html path =
     (if path \<in> {''/'', ''/about'', ''/archive'', ''/blog''} then
        Some \<lparr>hr_status = 200, hr_headers = [(''Content-Type'', ''text/html; charset=utf-8''),
          (''Cache-Control'', ''public, max-age=3600'')], hr_body = blog_html\<rparr>
      else if path \<in> {''/feed'', ''/rss.xml''} then
        Some \<lparr>hr_status = 200, hr_headers = [(''Content-Type'', ''application/rss+xml'')], hr_body = RSS_BODY\<rparr>
      else if path = ''/favicon.ico'' then Some \<lparr>hr_status = 204, hr_headers = [], hr_body = []\<rparr>
      else None)"

section \<open>HTTP requests\<close>

definition plain_404 :: "string \<Rightarrow> http_response" where
  "plain_404 body = \<lparr>hr_status = 404, hr_headers = [], hr_body = body\<rparr>"

definition handle_hls :: "(bytes \<Rightarrow> string) \<Rightarrow> string \<Rightarrow> agent \<Rightarrow> http_response" where
  "handle_hls base64_encode path st =
     (let parts = filter (\<lambda>s. s \<noteq> []) (split_on (CHR ''/'') path)
      in if length parts < 3 then plain_404 ''Not Found''
         else
           let stream_key = parts ! 1; filename = parts ! 2
           in case ag_relays st stream_key of
                None \<Rightarrow> plain_404 ''Stream not found''
              | Some relay \<Rightarrow>
                  (if str_ends_with filename ''.m3u8'' then
                     (case latest_m3u8 relay of
                        Some d \<Rightarrow> \<lparr>hr_status = 200,
                          hr_headers = [(''Content-Type'', ''application/vnd.apple.mpegurl''),
                            (''Cache-Control'', ''no-cache''), (''Access-Control-Allow-Origin'', ''*''),
                            (''X-LiveCDN-Encrypted'', ''true'')],
                          hr_body = base64_encode d\<rparr>
                      | None \<Rightarrow> \<lparr>hr_status = 503, hr_headers = [], hr_body = ''No data yet''\<rparr>)
                   else \<lparr>hr_status = 404, hr_headers = [(''Content-Type'', ''text/plain'')],
                          hr_body = ''Use WebSocket for stream data''\<rparr>))"

record health_report =
  he_status :: string
  he_node_id :: string
  he_active_relays :: nat
  he_flv_relays :: nat
  he_users :: nat
  he_ipv6 :: bool
  he_cascade_enabled :: bool
  he_cascade_upstream :: bool

text \<open>\<open>relays\<close> and \<open>pullers\<close>: the tables as they are iterated.\<close>

definition total_users :: "stream_relay list \<Rightarrow> flv_puller list \<Rightarrow> nat" where
  "total_users relays pullers = sum_list (map relay_client_count relays) + sum_list (map puller_client_count pullers)"

definition health_of :: "stream_relay list \<Rightarrow> flv_puller list \<Rightarrow> config \<Rightarrow> health_report" where
  "health_of relays pullers c = \<lparr>he_status = ''ok'', he_node_id = cfg_node_id c,
     he_active_relays = length relays, he_flv_relays = length pullers,
     he_users = total_users relays pullers, he_ipv6 = (cfg_public_ipv6 c \<noteq> []),
     he_cascade_enabled = cfg_cascade_enabled c, he_cascade_upstream = is_cascade_node c\<rparr>"

definition NOT_FOUND_PAGE :: string where
  "NOT_FOUND_PAGE = ''<html><body><h1>404 Not Found</h1><p><a href='' @ quoted ''/''
     @ ''>Go Home</a></p></body></html>''"

record http_libs =
  lib_blog_html :: string
  lib_json :: "health_report \<Rightarrow> string"
  lib_base64 :: "bytes \<Rightarrow> string"

definition handle_http_request :: "http_libs \<Rightarrow> stream_relay list \<Rightarrow> flv_puller list \<Rightarrow> string \<Rightarrow> string
    \<Rightarrow> agent \<Rightarrow> http_response" where
  "handle_http_request lib relays pullers verb path st =
     (case (if is_disguise_path path then disguise_serve (lib_blog_html lib) path else None) of
        Some resp \<Rightarrow> resp
      | None \<Rightarrow>
          (if path = cfg_ws_path (ag_config st) \<and> verb = ''GET'' then
             \<lparr>hr_status = 426, hr_headers = [(''Content-Type'', ''text/plain'')],
              hr_body = ''WebSocket upgrade required''\<rparr>
           else if str_starts_with path ''/live/'' then handle_hls (lib_base64 lib) path st
           else if path = ''/health'' then
             \<lparr>hr_status = 200, hr_headers = [(''Content-Type'', ''application/json'')],
              hr_body = lib_json lib (health_of relays pullers (ag_config st))\<rparr>
           else \<lparr>hr_status = 404, hr_headers = [(''Content-Type'', ''text/html'')],
                 hr_body = NOT_FOUND_PAGE\<rparr>))"

section \<open>Registration and heartbeat\<close>

record register_payload =
  rp_node_id :: string
  rp_public_ip :: string
  rp_public_ipv6 :: string
  rp_port :: u16
  rp_region :: string
  rp_isp :: string
  rp_bw_limit :: u64
  rp_domain :: string
  rp_protocol :: string
  rp_ws_path :: string
  rp_tls_enabled :: bool
  rp_token :: string
  rp_cascade_enabled :: bool
  rp_cascade_upstream :: bool

definition register_request :: "config \<Rightarrow> string \<times> register_payload" where
  "register_request c = (controller_api_url c ''/api/agent/register'',
     \<lparr>rp_node_id = cfg_node_id c, rp_public_ip = cfg_public_ip c, rp_public_ipv6 = cfg_public_ipv6 c,
      rp_port = cfg_port c, rp_region = cfg_region c, rp_isp = cfg_isp c, rp_bw_limit = cfg_bw_limit c,
      rp_domain = cfg_domain c, rp_protocol = cfg_protocol c, rp_ws_path = cfg_ws_path c,
      rp_tls_enabled = cfg_tls_enabled c, rp_token = cfg_reg_token c,
      rp_cascade_enabled = cfg_cascade_enabled c, rp_cascade_upstream = is_cascade_node c\<rparr>)"

record heartbeat_payload =
  hb_node_id :: string
  hb_bw_used :: u64
  hb_bw_limit :: u64
  hb_online_users :: nat
  hb_rtt_ms :: u32
  hb_loss_rate :: f64
  hb_version :: string
  hb_cascade_depth :: int
  hb_children_count :: int
  hb_cascade_egress_bw :: int
  hb_current_upstream :: string
  hb_stream_lag_ms :: int

text \<open>The loops over the tables: clients are added up, and a relay is measured while the round trip is 0.\<close>

definition heartbeat_relay :: "(string \<Rightarrow> nat option) \<Rightarrow> stream_relay \<Rightarrow> nat \<times> u32 \<Rightarrow> nat \<times> u32" where
  "heartbeat_relay head r = (\<lambda>(users, rtt).
     (users + relay_client_count r, if rtt = 0 then relay_measure_rtt head r else rtt))"

definition heartbeat_puller :: "(string \<Rightarrow> nat option) \<Rightarrow> flv_puller \<Rightarrow> nat \<times> u32 \<Rightarrow> nat \<times> u32" where
  "heartbeat_puller head p = (\<lambda>(users, rtt).
     (users + puller_client_count p, if rtt = 0 then puller_measure_rtt head p else rtt))"

definition heartbeat_request :: "(string \<Rightarrow> nat option) \<Rightarrow> string \<Rightarrow> stream_relay list \<Rightarrow> flv_puller list
    \<Rightarrow> agent \<Rightarrow> string \<times> heartbeat_payload" where
  "heartbeat_request head pkg_version relays pullers st =
     (let (users, rtt) = fold (heartbeat_puller head) pullers (fold (heartbeat_relay head) relays (0, 0));
          stats = selector_stats (ag_selector st)
      in (controller_api_url (ag_config st) ''/api/agent/heartbeat'',
          \<lparr>hb_node_id = cfg_node_id (ag_config st), hb_bw_used = 0, hb_bw_limit = cfg_bw_limit (ag_config st),
           hb_online_users = users, hb_rtt_ms = rtt, hb_loss_rate = Fin 0, hb_version = pkg_version,
           hb_cascade_depth = cascade_depth stats, hb_children_count = 0, hb_cascade_egress_bw = 0,
           hb_current_upstream = cs_current_upstream stats, hb_stream_lag_ms = 0\<rparr>))"

text \<open>
  The controller's answer: a failed request, or a status and the mesh map of the body where
  it has one that parses. The result says whether the agent registers again; \<open>None\<close> is the
  abort of a switch that cannot be logged.
\<close>

datatype heartbeat_response = HeartbeatFailed | HeartbeatAnswer nat "mesh_map_response option"

definition handle_heartbeat :: "nat \<Rightarrow> lock_view \<Rightarrow> heartbeat_response \<Rightarrow> agent \<Rightarrow> (bool \<times> agent) option" where
  "handle_heartbeat now lk resp st =
     (case resp of
        HeartbeatFailed \<Rightarrow> Some (False, st)
      | HeartbeatAnswer status mesh_map \<Rightarrow>
          (if 200 \<le> status \<and> status < 300 then
             (case mesh_map of
                Some mesh_resp \<Rightarrow>
                  (let s = update_mesh_map now lk mesh_resp (ag_selector st)
                   in if switch_logged s then Some (False, st\<lparr>ag_selector := s\<rparr>) else None)
              | None \<Rightarrow> Some (False, st))
           else Some (status = 404 \<or> status = 410, st)))"

section \<open>Facts\<close>

text \<open>A table iterated: every entry once, in some order.\<close>

definition iterates :: "'v list \<Rightarrow> ('k, 'v) map \<Rightarrow> bool" where
  "iterates vs m \<longleftrightarrow> (\<exists>ks. distinct ks \<and> set ks = dom m \<and> vs = map (\<lambda>k. the (m k)) ks)"

lemma iterates_sum: "iterates vs m \<Longrightarrow> sum_list (map f vs) = (\<Sum>k \<in> dom m. f (the (m k)))"
  by (auto simp: iterates_def sum_list_distinct_conv_sum_set comp_def)

lemma live_not_disguised: "disguise_serve blog (''/live/'' @ rest) = None"
  by (simp add: disguise_serve_def)

lemma hls_parts:
  assumes "CHR ''/'' \<notin> set key" "CHR ''/'' \<notin> set name" "key \<noteq> []" "name \<noteq> []"
  shows "filter (\<lambda>s. s \<noteq> []) (split_on (CHR ''/'') (''/live/'' @ key @ ''/'' @ name)) = [''live'', key, name]"
  using assms split_on_append [of "CHR ''/''" "''live''" "key @ CHR ''/'' # name"]
  by (simp add: split_on_append split_on_no_sep)

lemma fold_users:
  "fst (fold (heartbeat_relay head) rs a) = fst a + sum_list (map relay_client_count rs)"
  "fst (fold (heartbeat_puller head) ps a) = fst a + sum_list (map puller_client_count ps)"
  by (induction rs arbitrary: a) (simp_all add: heartbeat_relay_def case_prod_unfold,
      induction ps arbitrary: a, simp_all add: heartbeat_puller_def case_prod_unfold)

section \<open>Properties\<close>

text \<open>
  The playlist endpoint. A GET of \<open>/live/<key>/<name>\<close> is answered from the encrypted
  relay of that key alone: with the cached playlist chunk, still encrypted, when the name
  ends in \<open>.m3u8\<close> and there is one, with 503 when there is none yet, with 404 for any other
  name; and with 404 when no WebSocket viewer has started that relay, since the endpoint
  itself never starts one.
\<close>

theorem hls_endpoint:
  assumes "CHR ''/'' \<notin> set key" "CHR ''/'' \<notin> set name" "key \<noteq> []" "name \<noteq> []"
    and "''/live/'' @ key @ ''/'' @ name \<noteq> cfg_ws_path (ag_config st)"
  shows "(let resp = handle_http_request lib relays pullers ''GET'' (''/live/'' @ key @ ''/'' @ name) st
     in case ag_relays st key of
          None \<Rightarrow> resp = plain_404 ''Stream not found''
        | Some r \<Rightarrow>
            (if \<not> str_ends_with name ''.m3u8'' then hr_status resp = 404
             else case latest_m3u8 r of
               None \<Rightarrow> hr_status resp = 503
             | Some d \<Rightarrow> hr_status resp = 200 \<and> hr_body resp = lib_base64 lib d))"
proof -
  have "handle_http_request lib relays pullers ''GET'' (''/live/'' @ key @ ''/'' @ name) st =
      handle_hls (lib_base64 lib) (''/live/'' @ key @ ''/'' @ name) st"
    using assms(5) live_not_disguised [of "lib_blog_html lib" "key @ ''/'' @ name"]
    by (simp add: handle_http_request_def str_starts_with_def)
  then show ?thesis
    unfolding Let_def handle_hls_def hls_parts [OF assms(1-4)]
    by (auto split: option.split)
qed

theorem hls_endpoint_witness:
  "handle_http_request lib [] [] ''GET'' ''/live/room/x.m3u8'' (agent_new default_config)
    = plain_404 ''Stream not found''"
  using hls_endpoint [of "''room''" "''x.m3u8''" "agent_new default_config" lib "[]" "[]"]
  by (simp add: agent_new_def default_config_def default_ws_path_def)

text \<open>
  The disguise holds. Off the endpoints of the agent (the stream paths, \<open>/health\<close> and the
  WebSocket path), the answer does not depend on the agent's state at all: two agents
  that share nothing but the WebSocket path answer alike, with a page of the blog or with
  the 404 page. And the blog's own pages win over every endpoint.
\<close>

theorem disguise_reveals_nothing:
  assumes "\<not> str_starts_with path ''/live/''" "path \<noteq> ''/health''"
    and "path \<noteq> cfg_ws_path (ag_config st)" "path \<noteq> cfg_ws_path (ag_config st')"
  shows "handle_http_request lib relays pullers verb path st = handle_http_request lib relays' pullers' verb' path st'
    \<and> (handle_http_request lib relays pullers verb path st
         \<in> {r. \<exists>page. disguise_serve (lib_blog_html lib) page = Some r}
           \<union> {\<lparr>hr_status = 404, hr_headers = [(''Content-Type'', ''text/html'')], hr_body = NOT_FOUND_PAGE\<rparr>})"
  using assms by (auto simp: handle_http_request_def split: option.split)

theorem disguise_reveals_nothing_witness:
  "handle_http_request lib [] [] ''GET'' ''/about'' (agent_new default_config)
    = handle_http_request lib [] [] ''POST'' ''/about'' (put_flv ''room'' p (agent_new default_config))"
proof -
  have "cfg_ws_path (ag_config (agent_new default_config)) = ''/ws/live''"
    "cfg_ws_path (ag_config (put_flv ''room'' p (agent_new default_config))) = ''/ws/live''"
    by (simp_all add: agent_new_def default_config_def default_ws_path_def put_flv_def)
  then show ?thesis
    using disguise_reveals_nothing [of "''/about''" "agent_new default_config"
        "put_flv ''room'' p (agent_new default_config)" lib "[]" "[]" "''GET''" "[]" "[]" "''POST''"]
    by (simp add: str_starts_with_def)
qed

lemma heartbeat_clients:
  assumes "agent_reach c st" "iterates relays (ag_relays st)" "iterates pullers (ag_flv_relays st)"
  shows "hb_online_users (snd (heartbeat_request head v relays pullers st)) =
      (\<Sum>k \<in> dom (ag_relays st). sr_client_count (the (ag_relays st k)))
      + (\<Sum>k \<in> dom (ag_flv_relays st). fp_client_count (the (ag_flv_relays st k)))"
    and "he_users (health_of relays pullers (ag_config st)) = hb_online_users (snd (heartbeat_request head v relays pullers st))"
    and "hb_online_users (snd (heartbeat_request head v relays pullers st))
        \<le> cfg_max_clients c * (length relays + length pullers)"
proof -
  have users: "hb_online_users (snd (heartbeat_request head v relays pullers st)) = total_users relays pullers"
    using fold_users(2) [of head pullers "fold (heartbeat_relay head) relays (0, 0)"]
      fold_users(1) [of head relays "(0, 0)"]
    by (simp add: heartbeat_request_def total_users_def case_prod_unfold Let_def)
  show "hb_online_users (snd (heartbeat_request head v relays pullers st)) =
      (\<Sum>k \<in> dom (ag_relays st). sr_client_count (the (ag_relays st k)))
      + (\<Sum>k \<in> dom (ag_flv_relays st). fp_client_count (the (ag_flv_relays st k)))"
    unfolding users total_users_def iterates_sum [OF assms(2)] iterates_sum [OF assms(3)]
    by (simp add: relay_client_count_def puller_client_count_def)
  show "he_users (health_of relays pullers (ag_config st)) = hb_online_users (snd (heartbeat_request head v relays pullers st))"
    by (simp add: users health_of_def)
  have inv: "agent_inv c st" by (rule reach_inv [OF assms(1)])
  have "\<forall>r \<in> set relays. relay_client_count r \<le> cfg_max_clients c"
    "\<forall>p \<in> set pullers. puller_client_count p \<le> cfg_max_clients c"
    using assms(2,3) inv
    by (auto simp: iterates_def agent_inv_def relay_ok_def puller_ok_def relay_client_count_def
        puller_client_count_def dom_def)
  then have "sum_list (map relay_client_count relays) \<le> length relays * cfg_max_clients c"
    "sum_list (map puller_client_count pullers) \<le> length pullers * cfg_max_clients c"
    using sum_list_mono [of relays relay_client_count "\<lambda>_. cfg_max_clients c"]
      sum_list_mono [of pullers puller_client_count "\<lambda>_. cfg_max_clients c"]
    by (simp_all add: sum_list_triv)
  then show "hb_online_users (snd (heartbeat_request head v relays pullers st))
      \<le> cfg_max_clients c * (length relays + length pullers)"
    by (simp add: users total_users_def algebra_simps)
qed

text \<open>
  The heartbeat reports the clients. In a reachable state, however the tables are
  iterated, the users reported to the controller are all clients of all relays (as in
  the health report), never more than the capacity of one relay times their number; and
  only a successful answer with a mesh map changes the agent, in the selector alone.
\<close>

theorem heartbeat_reports_clients:
  assumes "agent_reach c st" "iterates relays (ag_relays st)" "iterates pullers (ag_flv_relays st)"
  shows "hb_online_users (snd (heartbeat_request head v relays pullers st)) =
      (\<Sum>k \<in> dom (ag_relays st). sr_client_count (the (ag_relays st k)))
      + (\<Sum>k \<in> dom (ag_flv_relays st). fp_client_count (the (ag_flv_relays st k)))
    \<and> he_users (health_of relays pullers (ag_config st)) = hb_online_users (snd (heartbeat_request head v relays pullers st))
    \<and> hb_online_users (snd (heartbeat_request head v relays pullers st))
        \<le> cfg_max_clients c * (length relays + length pullers)
    \<and> (\<forall>again st'. handle_heartbeat now lk resp st = Some (again, st') \<longrightarrow>
        (\<exists>s. st' = st\<lparr>ag_selector := s\<rparr>
        \<and> ((\<forall>status mm. resp = HeartbeatAnswer status (Some mm) \<longrightarrow> \<not> (200 \<le> status \<and> status < 300))
            \<longrightarrow> s = ag_selector st)))"
  using heartbeat_clients [OF assms, of head v]
  by (auto simp: handle_heartbeat_def Let_def split: heartbeat_response.splits option.splits if_splits
      intro: exI [of _ "ag_selector st"])

theorem heartbeat_reports_clients_witness:
  "hb_online_users (snd (heartbeat_request (\<lambda>_. None) ''0.1.0'' [] [] (agent_new default_config))) = 0"
proof -
  have "iterates [] (ag_relays (agent_new default_config))" "iterates [] (ag_flv_relays (agent_new default_config))"
    by (simp_all add: iterates_def agent_new_def)
  from heartbeat_reports_clients [OF reach_new this] show ?thesis by (simp add: agent_new_def)
qed

end
