(* ===== verification/Healthcheck.thy ===== *)
theory Healthcheck
  imports Rust_Str
begin

text \<open>
  The node's self check, agent-rust/src/healthcheck/mod.rs, on Linux. The results of the
  system calls are arguments: \<open>statvfs\<close> on the working directory, the texts of
  \<open>/proc/meminfo\<close> and \<open>/proc/self/oom_score\<close> where they can be read, and name resolution.
\<close>

section \<open>Report\<close>

record self_report =
  sc_disk_free_mb :: u64
  sc_disk_warning :: bool
  sc_clock_skew_ms :: int
  sc_clock_warning :: bool
  sc_dns_resolvable :: bool
  sc_memory_pressure :: bool
  sc_uptime_secs :: u64
  sc_timestamp :: u64

definition has_issues :: "self_report \<Rightarrow> bool" where
  "has_issues r \<longleftrightarrow> sc_disk_warning r \<or> sc_clock_warning r \<or> \<not> sc_dns_resolvable r \<or> sc_memory_pressure r"

definition int_str :: "int \<Rightarrow> string" where
  "int_str i = (if i < 0 then ''-'' else []) @ nat_str (nat \<bar>i\<bar>)"

text \<open>The messages, in UTF-8.\<close>

definition DISK_LOW :: string where
  "DISK_LOW = [CHR 0xE7, CHR 0xA3, CHR 0x81, CHR 0xE7, CHR 0x9B, CHR 0x98, CHR 0xE7, CHR 0xA9,
   CHR 0xBA, CHR 0xE9, CHR 0x97, CHR 0xB4, CHR 0xE4, CHR 0xB8, CHR 0x8D, CHR 0xE8, CHR 0xB6, CHR
   0xB3, CHR 0x3A, CHR 0x20]"

definition CLOCK_DRIFT :: string where
  "CLOCK_DRIFT = [CHR 0xE6, CHR 0x97, CHR 0xB6, CHR 0xE9, CHR 0x92, CHR 0x9F, CHR 0xE6, CHR 0xBC,
   CHR 0x82, CHR 0xE7, CHR 0xA7, CHR 0xBB, CHR 0x3A, CHR 0x20]"

definition DNS_FAILED :: string where
  "DNS_FAILED = [CHR 0x44, CHR 0x4E, CHR 0x53, CHR 0x20, CHR 0xE8, CHR 0xA7, CHR 0xA3, CHR 0xE6,
   CHR 0x9E, CHR 0x90, CHR 0xE5, CHR 0xA4, CHR 0xB1, CHR 0xE8, CHR 0xB4, CHR 0xA5]"

definition MEMORY_HIGH :: string where
  "MEMORY_HIGH = [CHR 0xE5, CHR 0x86, CHR 0x85, CHR 0xE5, CHR 0xAD, CHR 0x98, CHR 0xE5, CHR 0x8E,
   CHR 0x8B, CHR 0xE5, CHR 0x8A, CHR 0x9B, CHR 0xE9, CHR 0xAB, CHR 0x98]"

definition issues_summary :: "self_report \<Rightarrow> string list" where
  "issues_summary r =
     (if sc_disk_warning r then [DISK_LOW @ nat_str (unat (sc_disk_free_mb r)) @ ''MB''] else [])
     @ (if sc_clock_warning r then [CLOCK_DRIFT @ int_str (sc_clock_skew_ms r) @ ''ms''] else [])
     @ (if \<not> sc_dns_resolvable r then [DNS_FAILED] else [])
     @ (if sc_memory_pressure r then [MEMORY_HIGH] else [])"

section \<open>Checks\<close>

definition DISK_WARNING_THRESHOLD_MB :: u64 where "DISK_WARNING_THRESHOLD_MB = 100"
definition CLOCK_SKEW_THRESHOLD_MS :: int where "CLOCK_SKEW_THRESHOLD_MS = 5000"

text \<open>\<open>f_bavail\<close> and \<open>f_bsize\<close>; their product is taken in \<open>u64\<close>.\<close>

definition nix_statvfs :: "(u64 \<times> u64) option \<Rightarrow> u64 option" where
  "nix_statvfs stat = map_option (\<lambda>(free_blocks, block_size). free_blocks * block_size div (1024 * 1024)) stat"

definition second_word :: "string \<Rightarrow> string option" where
  "second_word line = (case split_whitespace line of _ # w # _ \<Rightarrow> Some w | _ \<Rightarrow> None)"

fun mem_available :: "string list \<Rightarrow> u64 option" where
  "mem_available [] = None"
| "mem_available (line # ls) =
     (case (if str_starts_with line ''MemAvailable:'' then Option.bind (second_word line) parse_u64 else None) of
        Some kb_val \<Rightarrow> Some (kb_val div 1024)
      | None \<Rightarrow> mem_available ls)"

definition check_disk_free :: "(u64 \<times> u64) option \<Rightarrow> string option \<Rightarrow> u64" where
  "check_disk_free stat meminfo =
     (case nix_statvfs stat of
        Some free \<Rightarrow> free
      | None \<Rightarrow> (case Option.bind meminfo (mem_available \<circ> str_lines) of
            Some mb \<Rightarrow> mb
          | None \<Rightarrow> - 1))"

definition check_clock_skew :: int where "check_clock_skew = 0"

text \<open>\<open>resolve\<close>: whether a host with a port resolves to an address.\<close>

definition check_dns :: "(string \<Rightarrow> bool) \<Rightarrow> string \<Rightarrow> bool" where
  "check_dns resolve host =
     (if host = [] then True
      else
        let hostname = hd (split_on (CHR '':'')
              (trim_start_matches (trim_start_matches host ''http://'') ''https://''))
        in if hostname = [] then True else resolve (hostname @ '':80''))"

fun mem_totals :: "string list \<Rightarrow> u64 \<times> u64 \<Rightarrow> u64 \<times> u64" where
  "mem_totals [] a = a"
| "mem_totals (line # ls) (mem_total, mem_avail) =
     mem_totals ls
       (if str_starts_with line ''MemTotal:'' then
          (case second_word line of
             Some v \<Rightarrow> (case parse_u64 v of Some n \<Rightarrow> n | None \<Rightarrow> 0, mem_avail)
           | None \<Rightarrow> (mem_total, mem_avail))
        else if str_starts_with line ''MemAvailable:'' then
          (case second_word line of
             Some v \<Rightarrow> (mem_total, case parse_u64 v of Some n \<Rightarrow> n | None \<Rightarrow> 0)
           | None \<Rightarrow> (mem_total, mem_avail))
        else (mem_total, mem_avail))"

definition parse_u32 :: "string \<Rightarrow> u32 option" where
  "parse_u32 s = (case parse_nat s of
     Some n \<Rightarrow> if n < 2 ^ 32 then Some (word_of_nat n) else None
   | None \<Rightarrow> None)"

definition check_memory_pressure :: "string option \<Rightarrow> string option \<Rightarrow> bool" where
  "check_memory_pressure oom_score meminfo =
     (case Option.bind oom_score (parse_u32 \<circ> str_trim) of
        Some score \<Rightarrow> 800 \<le> score
      | None \<Rightarrow>
          (case meminfo of
             None \<Rightarrow> False
           | Some content \<Rightarrow>
               (let (mem_total, mem_avail) = mem_totals (str_lines content) (0, 0)
                in 0 < mem_total \<and> mem_avail * 100 div mem_total < 10)))"

definition run_self_check :: "(u64 \<times> u64) option \<Rightarrow> string option \<Rightarrow> string option \<Rightarrow> (string \<Rightarrow> bool)
    \<Rightarrow> u64 \<Rightarrow> string \<Rightarrow> self_report" where
  "run_self_check stat meminfo oom_score resolve now controller_host =
     (let disk_free = check_disk_free stat meminfo;
          clock_skew = check_clock_skew;
          dns_ok = check_dns resolve controller_host;
          mem_pressure = check_memory_pressure oom_score meminfo
      in \<lparr>sc_disk_free_mb = disk_free, sc_disk_warning = (disk_free < DISK_WARNING_THRESHOLD_MB),
          sc_clock_skew_ms = clock_skew, sc_clock_warning = (\<bar>clock_skew\<bar> > CLOCK_SKEW_THRESHOLD_MS),
          sc_dns_resolvable = dns_ok, sc_memory_pressure = mem_pressure,
          sc_uptime_secs = 0, sc_timestamp = now\<rparr>)"

section \<open>Facts\<close>

lemma summary_count: "length (issues_summary r) =
    of_bool (sc_disk_warning r) + of_bool (sc_clock_warning r) + of_bool (\<not> sc_dns_resolvable r)
    + of_bool (sc_memory_pressure r)"
  by (simp add: issues_summary_def)

lemma clock_never_warns: "sc_clock_skew_ms (run_self_check stat mi oom res now h) = 0"
  "\<not> sc_clock_warning (run_self_check stat mi oom res now h)"
  by (simp_all add: run_self_check_def check_clock_skew_def CLOCK_SKEW_THRESHOLD_MS_def Let_def)

text \<open>The free space against the threshold, without the words.\<close>

lemma disk_warning_bytes:
  assumes "unat b * unat s < 2 ^ 64"
  shows "check_disk_free (Some (b, s)) mi < DISK_WARNING_THRESHOLD_MB \<longleftrightarrow> unat b * unat s < 100 * 1024 * 1024"
proof -
  have "unat (b * s) = unat b * unat s" using assms by (simp add: unat_mult_lem [symmetric])
  then have "unat (b * s div (1024 * 1024)) = unat b * unat s div (1024 * 1024)"
    by (simp add: unat_div)
  then show ?thesis
    by (simp add: check_disk_free_def nix_statvfs_def DISK_WARNING_THRESHOLD_MB_def word_less_nat_alt)
      (simp add: div_less_iff_less_mult)
qed

lemma dns_plain_http:
  assumes "CHR '':'' \<notin> set h" "h \<notin> {[], ''http'', ''https''}"
  shows "check_dns resolve (''http://'' @ h @ CHR '':'' # port) = resolve (h @ '':80'')"
proof -
  have until: "takeWhile (\<lambda>x. x \<noteq> CHR '':'') (h @ CHR '':'' # port) = h" by (rule takeWhile_sep [OF assms(1)])
  have "takeWhile (\<lambda>x. x \<noteq> CHR '':'') (''http://'' @ zs) = ''http''"
    "takeWhile (\<lambda>x. x \<noteq> CHR '':'') (''https://'' @ zs) = ''https''" for zs by simp_all
  with until assms(2) have "\<not> prefix ''http://'' (h @ CHR '':'' # port)" "\<not> prefix ''https://'' (h @ CHR '':'' # port)"
    unfolding prefix_def by (metis insertCI)+
  then have t: "trim_start_matches (trim_start_matches (''http://'' @ h @ CHR '':'' # port) ''http://'') ''https://''
      = h @ CHR '':'' # port"
    using trim_start_prefix [of "''http://''" "h @ CHR '':'' # port"] by (simp add: trim_start_absent)
  show ?thesis
    using assms unfolding check_dns_def t Let_def by (simp add: split_on_append)
qed

lemma dns_keeps_path:
  assumes "CHR '':'' \<notin> set h" "CHR '':'' \<notin> set path" "h \<noteq> []"
  shows "check_dns resolve (''http://'' @ h @ path) = resolve (h @ path @ '':80'')"
proof -
  have "\<not> prefix ''http://'' (h @ path)" "\<not> prefix ''https://'' (h @ path)"
    using assms set_mono_prefix [of "''http://''" "h @ path"] set_mono_prefix [of "''https://''" "h @ path"] by auto
  then have t: "trim_start_matches (trim_start_matches (''http://'' @ h @ path) ''http://'') ''https://'' = h @ path"
    using trim_start_prefix [of "''http://''" "h @ path"] by (simp add: trim_start_absent)
  show ?thesis
    using assms unfolding check_dns_def t Let_def by (simp add: split_on_no_sep)
qed

section \<open>Properties\<close>

text \<open>
  The verdict of the self check. Where \<open>statvfs\<close> answers and the free bytes fit 64 bits,
  the check finds an issue exactly when less than 100 MiB are free, the controller's name
  does not resolve, or the memory check fails; it lists one message for each of these and
  none when there is none. The clock is never found to drift.
\<close>

theorem self_check_verdict:
  assumes "unat free_blocks * unat block_size < 2 ^ 64"
  shows "(let r = run_self_check (Some (free_blocks, block_size)) meminfo oom_score resolve now host
    in (has_issues r \<longleftrightarrow> unat free_blocks * unat block_size < 100 * 1024 * 1024
          \<or> \<not> check_dns resolve host \<or> check_memory_pressure oom_score meminfo)
      \<and> length (issues_summary r) = of_bool (unat free_blocks * unat block_size < 100 * 1024 * 1024)
          + of_bool (\<not> check_dns resolve host) + of_bool (check_memory_pressure oom_score meminfo)
      \<and> (has_issues r \<longleftrightarrow> issues_summary r \<noteq> [])
      \<and> sc_clock_skew_ms r = 0 \<and> \<not> sc_clock_warning r)"
proof -
  let ?r = "run_self_check (Some (free_blocks, block_size)) meminfo oom_score resolve now host"
  have f: "sc_disk_warning ?r \<longleftrightarrow> unat free_blocks * unat block_size < 100 * 1024 * 1024"
    "sc_dns_resolvable ?r = check_dns resolve host" "sc_memory_pressure ?r = check_memory_pressure oom_score meminfo"
    using disk_warning_bytes [OF assms, of meminfo] by (simp_all add: run_self_check_def Let_def)
  have "issues_summary ?r \<noteq> [] \<longleftrightarrow> length (issues_summary ?r) \<noteq> 0" by simp
  then show ?thesis unfolding Let_def summary_count has_issues_def f
    by (auto simp: clock_never_warns)
qed

theorem self_check_verdict_witness:
  "has_issues (run_self_check (Some (20000, 4096)) None (Some (''12'' @ [NL])) (\<lambda>_. True) 7 ''http://controller:8080'')"
  using self_check_verdict [of 20000 4096 None "Some (''12'' @ [NL])" "\<lambda>_. True" 7 "''http://controller:8080''"]
  by (simp add: Let_def)

text \<open>
  Which name the self check resolves. For a controller at \<open>http://host:port\<close> it is the
  host. Without a port everything behind the scheme is taken for the host, so a controller
  URL with a path is reported as unresolvable unless a name with a slash resolves; and of an
  IPv6 literal only the opening bracket is left.
\<close>

theorem dns_check_host:
  assumes "CHR '':'' \<notin> set h" "h \<notin> {[], ''http'', ''https''}" "CHR '':'' \<notin> set path"
  shows "check_dns resolve (''http://'' @ h @ '':'' @ port) = resolve (h @ '':80'')
    \<and> check_dns resolve (''http://'' @ h @ ''/'' @ path) = resolve (h @ ''/'' @ path @ '':80'')
    \<and> check_dns resolve ''http://[::1]:8080'' = resolve ''[:80''"
  using dns_plain_http [OF assms(1,2), of resolve port] dns_keeps_path [of h "''/'' @ path" resolve] assms
    dns_plain_http [of "''[''" resolve "'':1]:8080''"] by simp

theorem dns_check_host_witness:
  "\<not> check_dns (\<lambda>n. n = ''cdn.example.com:80'') ''http://cdn.example.com/api''
    \<and> check_dns (\<lambda>n. n = ''cdn.example.com:80'') ''http://cdn.example.com:8080/api''"
  using dns_check_host [of "''cdn.example.com''" "''api''" "\<lambda>n. n = ''cdn.example.com:80''" "''8080/api''"]
  by simp

end
