(* ===== verification/Background.thy ===== *)
theory Background
  imports Startup Http_Api Healthcheck
begin

text \<open>
  The background tasks that \<open>main\<close> spawns (agent-rust/src/main.rs): registration, the
  heartbeat loop, the mesh ping and health check timers, and the accept loops with the
  shutdown. The HTTP client, the clock and the network are arguments. A
  \<open>tokio::time::interval\<close> is modelled as documented: it panics on a zero period, the first tick
  is due at once, and ticks that were missed are made up for at once (the default, \<open>Burst\<close>).
\<close>

section \<open>Timers\<close>

definition interval_new :: "u64 \<Rightarrow> u64 option" where
  "interval_new period = (if period = 0 then None else Some period)"

text \<open>
  When the \<open>k\<close>-th turn of a loop around \<open>tick()\<close> begins, in seconds after the interval was
  made: the loop is entered at \<open>ready\<close>, and turn \<open>k\<close> keeps it busy for \<open>busy k\<close>.
\<close>

fun tick_time :: "nat \<Rightarrow> (nat \<Rightarrow> nat) \<Rightarrow> nat \<Rightarrow> nat \<Rightarrow> nat" where
  "tick_time period busy ready 0 = ready"
| "tick_time period busy ready (Suc k) = max (Suc k * period) (tick_time period busy ready k + busy k)"

definition mesh_ping_time :: "(nat \<Rightarrow> nat) \<Rightarrow> nat \<Rightarrow> nat" where
  "mesh_ping_time busy = tick_time 10 busy 15"

definition health_check_time :: "(nat \<Rightarrow> nat) \<Rightarrow> nat \<Rightarrow> nat" where
  "health_check_time busy = tick_time 60 busy 0"

section \<open>Registration\<close>

datatype register_error = RegisterRequestFailed | RegisterStatus nat

definition register_with_controller :: "(string \<times> register_payload \<Rightarrow> nat option) \<Rightarrow> config
    \<Rightarrow> register_error + unit" where
  "register_with_controller post c =
     (case post (register_request c) of
        None \<Rightarrow> Inl RegisterRequestFailed
      | Some status \<Rightarrow> (if status_is_success status then Inr () else Inl (RegisterStatus status)))"

section \<open>The heartbeat loop\<close>

text \<open>
  What a turn finds: the order in which the tables are iterated, the round trips of the
  origins, the controller, the clock and the state of the selector's locks.
\<close>

record heartbeat_env =
  hv_relays :: "stream_relay list"
  hv_pullers :: "flv_puller list"
  hv_head :: "string \<Rightarrow> nat option"
  hv_post :: "string \<times> string \<times> heartbeat_payload \<Rightarrow> heartbeat_response"
  hv_register :: "string \<times> register_payload \<Rightarrow> nat option"
  hv_now :: nat
  hv_locks :: lock_view

record heartbeat_result =
  hbr_url :: string
  hbr_bearer :: string
  hbr_payload :: heartbeat_payload
  hbr_reregistered :: "(register_error + unit) option"

definition heartbeat_turn :: "string \<Rightarrow> heartbeat_env \<Rightarrow> agent \<Rightarrow> (heartbeat_result \<times> agent) option" where
  "heartbeat_turn pkg_version env st =
     (let (url, hb) = heartbeat_request (hv_head env) pkg_version (hv_relays env) (hv_pullers env) st;
          token = cfg_reg_token (ag_config st);
          resp = hv_post env (url, token, hb)
      in case handle_heartbeat (hv_now env) (hv_locks env) resp st of
           None \<Rightarrow> None
         | Some (again, st') \<Rightarrow>
             Some (\<lparr>hbr_url = url, hbr_bearer = token, hbr_payload = hb,
                    hbr_reregistered = (if again then Some (register_with_controller (hv_register env) (ag_config st'))
                                       else None)\<rparr>, st'))"

text \<open>
  The loop: between two turns the other tasks change the agent. \<open>None\<close>: the process has
  aborted, at the start of the loop when the configured interval is zero.
\<close>

fun heartbeat_turns :: "string \<Rightarrow> (agent_op list \<times> heartbeat_env) list \<Rightarrow> agent
    \<Rightarrow> (heartbeat_result list \<times> agent) option" where
  "heartbeat_turns v [] st = Some ([], st)"
| "heartbeat_turns v ((ops, env) # ts) st =
     (case agent_run ops st of
        None \<Rightarrow> None
      | Some st1 \<Rightarrow>
          (case heartbeat_turn v env st1 of
             None \<Rightarrow> None
           | Some (r, st2) \<Rightarrow> map_option (\<lambda>(rs, st'). (r # rs, st')) (heartbeat_turns v ts st2)))"

definition heartbeat_loop :: "string \<Rightarrow> (agent_op list \<times> heartbeat_env) list \<Rightarrow> agent
    \<Rightarrow> (heartbeat_result list \<times> agent) option" where
  "heartbeat_loop v ts st =
     (case interval_new (cfg_hb_interval_secs (ag_config st)) of
        None \<Rightarrow> None
      | Some period \<Rightarrow> heartbeat_turns v ts st)"

section \<open>The health check task\<close>

text \<open>One turn: the warnings it logs.\<close>

definition health_turn :: "self_report \<Rightarrow> string list" where
  "health_turn report = (if has_issues report then issues_summary report else [])"

section \<open>Accepting connections\<close>

text \<open>
  \<open>select!\<close> of the IPv4 loop: a connection (with the bytes it begins with), an error of
  \<open>accept\<close>, the shutdown. The result: the handlers started, and whether the loop was left;
  the relays are stopped then. The IPv6 loop is the same without the shutdown.
\<close>

datatype accept_event = Accepted bytes | AcceptFailed | ShutdownSignal

fun accept_loop :: "accept_event list \<Rightarrow> connection_kind list \<times> bool" where
  "accept_loop [] = ([], False)"
| "accept_loop (Accepted net_in # es) = (case accept_loop es of (ks, fin) \<Rightarrow> (connection_kind net_in # ks, fin))"
| "accept_loop (AcceptFailed # es) = accept_loop es"
| "accept_loop (ShutdownSignal # es) = ([], True)"

text \<open>
  What \<open>main\<close> starts once the state is there: each task with the delay before its first turn
  and the period of its timer; the IPv6 listener is optional, its failure is only logged.
\<close>

datatype background_task = UpdateCheck | Register | Heartbeat | MeshPing | HealthCheck | AcceptIpv6 | AcceptIpv4

definition background_tasks :: "bool \<Rightarrow> bool \<Rightarrow> config \<Rightarrow> (background_task \<times> nat \<times> u64 option) list" where
  "background_tasks ipv4_binds ipv6_binds c =
     (if cfg_auto_update c then [(UpdateCheck, 30, None)] else [])
     @ [(Register, 0, None), (Heartbeat, 0, Some (cfg_hb_interval_secs c)), (MeshPing, 15, Some 10),
        (HealthCheck, 0, Some 60)]
     @ (if ipv4_binds then
          (if listen_ipv6_str c \<noteq> None \<and> ipv6_binds then [(AcceptIpv6, 0, None)] else []) @ [(AcceptIpv4, 0, None)]
        else [])"

text \<open>The process runs on when its IPv4 socket is bound and no timer panics.\<close>

definition main_runs :: "bool \<Rightarrow> bool \<Rightarrow> config \<Rightarrow> bool" where
  "main_runs ipv4_binds ipv6_binds c \<longleftrightarrow> ipv4_binds
     \<and> (\<forall>(task, delay, period) \<in> set (background_tasks ipv4_binds ipv6_binds c).
          case period of None \<Rightarrow> True | Some p \<Rightarrow> interval_new p \<noteq> None)"

section \<open>Facts\<close>

lemma tick_due: "k * period \<le> tick_time period busy ready k" if "0 < k"
  using that by (cases k) auto

lemma tick_regular:
  assumes "\<And>k. busy k \<le> period"
  shows "tick_time period busy 0 k = k * period"
proof (induction k)
  case (Suc k)
  with assms [of k] show ?case by simp
qed simp

text \<open>A loop whose turns are short against the period catches up and is then on time.\<close>

lemma tick_catches_up:
  assumes "\<And>k. busy k \<le> period" "tick_time period busy ready k = k * period"
  shows "tick_time period busy ready (k + n) = (k + n) * period"
proof (induction n)
  case (Suc n)
  with assms(1) [of "k + n"] show ?case by simp
qed (use assms(2) in simp)

lemma override_interval:
  "(\<And>v c. cfg_hb_interval_secs (upd v c) = cfg_hb_interval_secs c) \<Longrightarrow>
   cfg_hb_interval_secs (override env name upd c) = cfg_hb_interval_secs c"
  by (simp add: override_def split: option.split)

lemma load_keeps_interval:
  assumes "config_load (Some (Inr c0)) env hostname = Some (Inr c)"
  shows "cfg_hb_interval_secs c = cfg_hb_interval_secs c0"
  using assms
  by (auto simp: config_load_def Let_def config_normalize_def apply_env_def override_interval
      split: if_splits option.splits)

lemma handle_heartbeat_step:
  assumes "handle_heartbeat now lk resp st = Some (again, st')"
  shows "st' = st \<or> (\<exists>mm. agent_step (SelectorOp (OpMeshMap now lk mm)) st = Some st')"
proof (cases resp)
  case (HeartbeatAnswer status mm)
  with assms show ?thesis
    by (cases mm) (auto simp: handle_heartbeat_def Let_def split: if_splits)
qed (use assms in \<open>simp add: handle_heartbeat_def\<close>)

lemma heartbeat_turn_handles:
  assumes "heartbeat_turn v env st = Some (r, st')"
  obtains again where
    "handle_heartbeat (hv_now env) (hv_locks env) (hv_post env (hbr_url r, hbr_bearer r, hbr_payload r)) st
      = Some (again, st')"
    "(hbr_url r, hbr_payload r) = heartbeat_request (hv_head env) v (hv_relays env) (hv_pullers env) st"
    "hbr_bearer r = cfg_reg_token (ag_config st)"
    "hbr_reregistered r = (if again then Some (register_with_controller (hv_register env) (ag_config st')) else None)"
  using assms by (auto simp: heartbeat_turn_def Let_def case_prod_unfold split: option.splits)

lemma turn_reaches:
  assumes "agent_reach c st" "heartbeat_turn v env st = Some (r, st')"
  shows "agent_reach c st'"
proof -
  obtain again where "handle_heartbeat (hv_now env) (hv_locks env)
      (hv_post env (hbr_url r, hbr_bearer r, hbr_payload r)) st = Some (again, st')"
    using assms(2) by (rule heartbeat_turn_handles)
  with handle_heartbeat_step assms(1) show ?thesis by (blast intro: reach_step)
qed

lemma turns_reach:
  "agent_reach c st \<Longrightarrow> heartbeat_turns v ts st = Some (rs, st') \<Longrightarrow> agent_reach c st'"
proof (induction v ts st arbitrary: rs rule: heartbeat_turns.induct)
  case (2 v ops env ts st)
  from "2.prems"(2) obtain st1 r st2 rs' where s: "agent_run ops st = Some st1"
    "heartbeat_turn v env st1 = Some (r, st2)" "heartbeat_turns v ts st2 = Some (rs', st')"
    by (auto split: option.splits)
  from turn_reaches [OF reach_run [OF "2.prems"(1) s(1)] s(2)] show ?case
    by (rule "2.IH" [OF s(1) s(2) refl _ s(3)])
qed simp

section \<open>Properties\<close>

text \<open>
  C35: A turn of the heartbeat loop. In a reachable state, whatever the order of the tables, the
  controller is told, under the node's token, of all clients of all relays (at most the
  capacity of a relay for each); the agent registers again exactly when the answer is 404
  or 410; and all that the answer changes is the selector, only when it is a success
  with a mesh map, and the state stays reachable.
\<close>

theorem heartbeat_turn_outcome:
  assumes "agent_reach c st" "iterates (hv_relays env) (ag_relays st)" "iterates (hv_pullers env) (ag_flv_relays st)"
    and "heartbeat_turn v env st = Some (r, st')"
  shows "hb_online_users (hbr_payload r) =
      (\<Sum>k \<in> dom (ag_relays st). sr_client_count (the (ag_relays st k)))
      + (\<Sum>k \<in> dom (ag_flv_relays st). fp_client_count (the (ag_flv_relays st k)))
    \<and> hb_online_users (hbr_payload r) \<le> cfg_max_clients c * (length (hv_relays env) + length (hv_pullers env))
    \<and> hbr_bearer r = cfg_reg_token c
    \<and> (\<forall>resp. resp = hv_post env (hbr_url r, hbr_bearer r, hbr_payload r) \<longrightarrow>
        (hbr_reregistered r \<noteq> None \<longleftrightarrow> (\<exists>mm. resp = HeartbeatAnswer 404 mm \<or> resp = HeartbeatAnswer 410 mm))
        \<and> ((\<forall>status mm. resp = HeartbeatAnswer status (Some mm) \<longrightarrow> \<not> (200 \<le> status \<and> status < 300))
            \<longrightarrow> st' = st))
    \<and> st' = st\<lparr>ag_selector := ag_selector st'\<rparr> \<and> agent_reach c st'"
proof -
  let ?resp = "hv_post env (hbr_url r, hbr_bearer r, hbr_payload r)"
  obtain again where h: "handle_heartbeat (hv_now env) (hv_locks env) ?resp st = Some (again, st')"
    "(hbr_url r, hbr_payload r) = heartbeat_request (hv_head env) v (hv_relays env) (hv_pullers env) st"
    "hbr_bearer r = cfg_reg_token (ag_config st)"
    "hbr_reregistered r = (if again then Some (register_with_controller (hv_register env) (ag_config st')) else None)"
    using assms(4) by (rule heartbeat_turn_handles)
  have p: "hbr_payload r = snd (heartbeat_request (hv_head env) v (hv_relays env) (hv_pullers env) st)"
    using h(2) by (metis snd_conv)
  have cfg: "ag_config st = c" using reach_inv [OF assms(1)] by (simp add: agent_inv_def)
  have again: "again \<longleftrightarrow> (\<exists>mm. ?resp = HeartbeatAnswer 404 mm \<or> ?resp = HeartbeatAnswer 410 mm)"
    and kept: "st' = st\<lparr>ag_selector := ag_selector st'\<rparr>"
    and same: "(\<forall>status mm. ?resp = HeartbeatAnswer status (Some mm) \<longrightarrow> \<not> (200 \<le> status \<and> status < 300)) \<Longrightarrow> st' = st"
    using h(1) by (cases ?resp; auto simp: handle_heartbeat_def Let_def split: option.splits if_splits)+
  from heartbeat_clients [OF assms(1-3), of "hv_head env" v] turn_reaches [OF assms(1,4)] h(3,4) again kept same
  show ?thesis unfolding p cfg by auto
qed

text \<open>An unknown node: the controller answers 404 and then does not take the registration either.\<close>

definition gone_env :: heartbeat_env where
  "gone_env = \<lparr>hv_relays = [], hv_pullers = [], hv_head = (\<lambda>_. None),
     hv_post = (\<lambda>_. HeartbeatAnswer 404 None), hv_register = (\<lambda>_. Some 500), hv_now = 0,
     hv_locks = demo_locks\<rparr>"

theorem heartbeat_turn_outcome_witness:
  "\<exists>r. heartbeat_turn ''0.1.0'' gone_env (agent_new default_config) = Some (r, agent_new default_config)
    \<and> hb_online_users (hbr_payload r) = 0 \<and> hbr_reregistered r \<noteq> None"
proof -
  let ?st = "agent_new default_config"
  have it: "iterates (hv_relays gone_env) (ag_relays ?st)" "iterates (hv_pullers gone_env) (ag_flv_relays ?st)"
    by (simp_all add: iterates_def agent_new_def gone_env_def)
  obtain r st' where t: "heartbeat_turn ''0.1.0'' gone_env ?st = Some (r, st')"
    by (simp add: heartbeat_turn_def gone_env_def handle_heartbeat_def case_prod_unfold Let_def)
  from heartbeat_turn_outcome [OF reach_new it t] t show ?thesis
    by (auto simp: gone_env_def agent_new_def)
qed

text \<open>
  A heartbeat interval of zero is accepted by the configuration, neither the environment nor
  the normalisation repair it, and the timer of the heartbeat loop panics on it: the process
  aborts as soon as the task runs. The two constant periods never panic.
\<close>

theorem zero_interval_aborts_agent:
  assumes "parse_cli_args args = Inr (Run path)" "file path = Some (Inr c0)"
    and "agent_main v file env hostname parse_addr args = Serves addr upd st"
  shows "(cfg_hb_interval_secs c0 = 0 \<longrightarrow>
      \<not> main_runs ipv4 ipv6 (ag_config st) \<and> heartbeat_loop v ts st = None)
    \<and> (cfg_hb_interval_secs c0 \<noteq> 0 \<longrightarrow>
      (main_runs ipv4 ipv6 (ag_config st) \<longleftrightarrow> ipv4) \<and> heartbeat_loop v ts st = heartbeat_turns v ts st)"
proof -
  from assms obtain c where l: "config_load (Some (Inr c0)) env hostname = Some (Inr c)" and st: "st = agent_new c"
    by (auto simp: agent_main_def split: option.splits sum.splits)
  have "ag_config st = c" by (simp add: st agent_new_def)
  with load_keeps_interval [OF l] show ?thesis
    by (auto simp: main_runs_def background_tasks_def interval_new_def heartbeat_loop_def)
qed

theorem zero_interval_aborts_agent_witness:
  "\<exists>upd st. agent_main v (\<lambda>_. Some (Inr (default_config\<lparr>cfg_node_id := ''n'', cfg_hb_interval_secs := 0\<rparr>)))
       (\<lambda>_. None) None (\<lambda>_. Some ()) [] = Serves () upd st
    \<and> heartbeat_loop v [] st = None"
proof -
  let ?c0 = "default_config\<lparr>cfg_node_id := ''n'', cfg_hb_interval_secs := 0\<rparr>"
  have p: "parse_cli_args [] = Inr (Run DEFAULT_CONFIG_PATH)" by code_simp
  have n: "cfg_node_id (config_normalize (apply_env (\<lambda>_. None) ?c0)) = ''n''"
    by (simp add: config_normalize_def apply_env_def override_def)
  obtain upd st where m: "agent_main v (\<lambda>_. Some (Inr ?c0)) (\<lambda>_. None) None (\<lambda>_. Some ()) [] = Serves () upd st"
    by (simp add: agent_main_def p config_load_def Let_def n)
  from zero_interval_aborts_agent [OF p refl m, of True True "[]"] m show ?thesis by auto
qed

text \<open>
  The timers. When no turn takes longer than the period, the health checks are exactly a
  minute apart. The mesh ping is delayed by 15 seconds after its interval was made, so a
  tick is already overdue: the second ping follows the first at once, and only then
  are they ten seconds apart.
\<close>

theorem timers_regular:
  assumes "\<And>k. busy k \<le> 60" and "\<And>k. ping k < 3"
  shows "health_check_time busy k = 60 * k
    \<and> mesh_ping_time ping 0 = 15 \<and> mesh_ping_time ping 1 = 15 + ping 0
    \<and> mesh_ping_time ping (k + 2) = 10 * (k + 2)"
proof -
  have p: "mesh_ping_time ping 1 = 15 + ping 0" by (simp add: mesh_ping_time_def)
  have "ping 0 + ping 1 < 5" using assms(2) [of 0] assms(2) [of 1] by linarith
  then have "mesh_ping_time ping (Suc (Suc 0)) = 20" using p by (simp add: mesh_ping_time_def)
  moreover have "ping j \<le> 10" for j using assms(2) [of j] by simp
  ultimately have "mesh_ping_time ping (k + 2) = 10 * (k + 2)"
    using tick_catches_up [of ping 10 15 2 k] by (simp add: mesh_ping_time_def numeral_2_eq_2 add.commute)
  moreover have "health_check_time busy k = 60 * k"
    using tick_regular [of busy 60 k] assms(1) by (simp add: health_check_time_def)
  ultimately show ?thesis using p by (simp add: mesh_ping_time_def)
qed

theorem timers_regular_witness:
  "mesh_ping_time (\<lambda>_. 0) 0 = 15 \<and> mesh_ping_time (\<lambda>_. 0) 1 = 15 \<and> mesh_ping_time (\<lambda>_. 0) (0 + 2) = 20"
  using timers_regular [of "\<lambda>_. 0" "\<lambda>_. 0" 0] by simp

end
