(* ===== verification/Interop.thy ===== *)
theory Interop
  imports Crypto Protocol
begin

text \<open>
  The peers of the agent written in other languages, as far as they speak its protocol: the
  frame codec of the controller's Go module (internal/protocol/protocol.go: \<open>MarshalFrame\<close>
  and \<open>UnmarshalFrame\<close>), its key derivation (internal/crypto/crypto.go), and the web
  player's \<open>handleStreamData\<close> and \<open>StreamDecryptor\<close> (web/player.html). What they agree on
  with protocol/mod.rs and crypto/mod.rs, and what not.
\<close>

section \<open>The Go codec\<close>

record go_frame =
  gf_version :: u8
  gf_type :: u8
  gf_flags :: u8
  gf_seq :: u32
  gf_origin_ts :: u64
  gf_payload :: bytes

datatype go_error =
    GoTooLarge nat
  | GoTooShort nat
  | GoInvalidMagic
  | GoTooShortV3 nat
  | GoIncomplete nat

definition V3_HEADER :: nat where "V3_HEADER = 21"
definition V2_HEADER :: nat where "V2_HEADER = 20"
definition V1_HEADER :: nat where "V1_HEADER = 12"
definition GO_MAX_FRAME :: nat where "GO_MAX_FRAME = 2 ^ 20"

lemmas go_consts = V3_HEADER_def V2_HEADER_def V1_HEADER_def GO_MAX_FRAME_def

definition marshal_frame :: "go_frame \<Rightarrow> go_error + bytes" where
  "marshal_frame f =
     (if GO_MAX_FRAME < length (gf_payload f) then Inl (GoTooLarge (length (gf_payload f)))
      else Inr ([0x48, 0x54, if gf_version f = 0 then 3 else gf_version f, gf_type f, gf_flags f]
        @ put_u32 (gf_seq f) @ put_u64 (gf_origin_ts f)
        @ put_u32 (word_of_nat (length (gf_payload f))) @ gf_payload f))"

text \<open>The check of the payload length is made in 32 bits.\<close>

definition go_payload :: "bytes \<Rightarrow> nat \<Rightarrow> u32 \<Rightarrow> go_frame \<Rightarrow> go_error + go_frame" where
  "go_payload data hdr_size payload_len f =
     (if GO_MAX_FRAME < unat payload_len then Inl (GoTooLarge (unat payload_len))
      else if (word_of_nat (length data - hdr_size) :: u32) < payload_len
        then Inl (GoIncomplete (unat payload_len))
      else Inr (f\<lparr>gf_payload := subslice hdr_size (hdr_size + unat payload_len) data\<rparr>))"

definition unmarshal_frame :: "bytes \<Rightarrow> go_error + go_frame" where
  "unmarshal_frame data =
     (if length data < V1_HEADER then Inl (GoTooShort (length data))
      else if data ! 0 \<noteq> 0x48 \<or> data ! 1 \<noteq> 0x54 then Inl GoInvalidMagic
      else if 3 \<le> data ! 2 then
        (if length data < V3_HEADER then Inl (GoTooShortV3 (length data))
         else go_payload data V3_HEADER (get_u32 [data ! 17, data ! 18, data ! 19, data ! 20])
           \<lparr>gf_version = data ! 2, gf_type = data ! 3, gf_flags = data ! 4,
            gf_seq = get_u32 [data ! 5, data ! 6, data ! 7, data ! 8],
            gf_origin_ts = get_u64 [data ! 9, data ! 10, data ! 11, data ! 12,
                                    data ! 13, data ! 14, data ! 15, data ! 16],
            gf_payload = []\<rparr>)
      else if length data < V2_HEADER then
        go_payload data V1_HEADER (get_u32 [data ! 8, data ! 9, data ! 10, data ! 11])
          \<lparr>gf_version = 1, gf_type = data ! 2, gf_flags = data ! 3,
           gf_seq = get_u32 [data ! 4, data ! 5, data ! 6, data ! 7], gf_origin_ts = 0, gf_payload = []\<rparr>
      else
        go_payload data V2_HEADER (get_u32 [data ! 16, data ! 17, data ! 18, data ! 19])
          \<lparr>gf_version = 2, gf_type = data ! 2, gf_flags = data ! 3,
           gf_seq = get_u32 [data ! 4, data ! 5, data ! 6, data ! 7],
           gf_origin_ts = get_u64 [data ! 8, data ! 9, data ! 10, data ! 11,
                                   data ! 12, data ! 13, data ! 14, data ! 15],
           gf_payload = []\<rparr>)"

definition to_go :: "frame \<Rightarrow> go_frame" where
  "to_go f = \<lparr>gf_version = fr_version f, gf_type = frame_type_u8 (fr_type f), gf_flags = fr_flags f,
     gf_seq = fr_seq f, gf_origin_ts = fr_origin_ts f, gf_payload = fr_payload f\<rparr>"

section \<open>The web player\<close>

text \<open>\<open>data.slice(a, b)\<close> of a typed array: a negative end counts from the end.\<close>

definition js_slice :: "nat \<Rightarrow> int \<Rightarrow> bytes \<Rightarrow> bytes" where
  "js_slice a b data = take (nat (if b < 0 then b + int (length data) else b) - a) (drop a data)"

record player_decryptor =
  pd_key :: bytes
  pd_seq :: nat

text \<open>
  The decryptor: SHA-256 and AES-GCM are the browser's. A short chunk is handed on; so is one whose
  key cannot be imported (the exception is caught by the caller, before the number is counted up)
  or that does not authenticate.
\<close>

definition player_chunk_key :: "(bytes \<Rightarrow> bytes) \<Rightarrow> bytes \<Rightarrow> nat \<Rightarrow> bytes" where
  "player_chunk_key sha key seq = take (length key) (sha (key @ put_u32 (word_of_nat seq)))"

definition player_decrypt :: "(bytes \<Rightarrow> bytes) \<Rightarrow> (bytes \<Rightarrow> bytes \<Rightarrow> bytes \<Rightarrow> bytes option) \<Rightarrow> bytes
    \<Rightarrow> player_decryptor \<Rightarrow> bytes \<times> player_decryptor" where
  "player_decrypt sha gcm data d =
     (if length data < 28 then (data, d)
      else
        let nonce = take 12 data;
            ciphertext = drop 12 data;
            derived_key = player_chunk_key sha (pd_key d) (pd_seq d)
        in if length derived_key \<notin> {16, 24, 32} then (data, d)
           else
             let d' = d\<lparr>pd_seq := pd_seq d + 1\<rparr>
             in case gcm derived_key nonce ciphertext of
                  Some decrypted \<Rightarrow> (decrypted, d')
                | None \<Rightarrow> (data, d'))"

text \<open>One WebSocket message: what is fed to the media source, and the decryptor.\<close>

definition handle_stream_data :: "(bytes \<Rightarrow> bytes) \<Rightarrow> (bytes \<Rightarrow> bytes \<Rightarrow> bytes \<Rightarrow> bytes option) \<Rightarrow> bytes
    \<Rightarrow> player_decryptor option \<Rightarrow> bytes list \<times> player_decryptor option" where
  "handle_stream_data sha gcm data decryptor =
     (if length data < 21 then ([], decryptor)
      else if data ! 0 \<noteq> 0x48 \<or> data ! 1 \<noteq> 0x54 then ([data], decryptor)
      else
        let (frame_type, payload_len, header_size) =
              (if 3 \<le> data ! 2
               then (data ! 3, sint (get_u32 [data ! 17, data ! 18, data ! 19, data ! 20]), 21)
               else (data ! 2, sint (get_u32 [data ! 16, data ! 17, data ! 18, data ! 19]), 20));
            payload = js_slice header_size (int header_size + payload_len) data
        in if frame_type = 0x02 then
             (case decryptor of
                None \<Rightarrow> ([payload], None)
              | Some d \<Rightarrow> (case player_decrypt sha gcm payload d of (out, d') \<Rightarrow> ([out], Some d')))
           else ([], decryptor))"

fun player_run :: "(bytes \<Rightarrow> bytes) \<Rightarrow> (bytes \<Rightarrow> bytes \<Rightarrow> bytes \<Rightarrow> bytes option) \<Rightarrow> bytes list
    \<Rightarrow> player_decryptor option \<Rightarrow> bytes list \<times> player_decryptor option" where
  "player_run sha gcm [] d = ([], d)"
| "player_run sha gcm (m # ms) d =
     (case handle_stream_data sha gcm m d of (out, d') \<Rightarrow>
        (case player_run sha gcm ms d' of (outs, d'') \<Rightarrow> (out @ outs, d'')))"

section \<open>Key derivation in Go\<close>

definition go_derive_chunk_key :: "(bytes \<Rightarrow> bytes) \<Rightarrow> bytes \<Rightarrow> bytes \<Rightarrow> bytes" where
  "go_derive_chunk_key sha master seq =
     (let derived = sha (master @ seq)
      in if length master \<le> 32 then take (length master) derived else derived)"

section \<open>Facts\<close>

lemma to_go_eq:
  "to_go f = \<lparr>gf_version = v, gf_type = frame_type_u8 ty, gf_flags = fl, gf_seq = sq, gf_origin_ts = ts,
      gf_payload = pl\<rparr> \<longleftrightarrow>
   f = \<lparr>fr_version = v, fr_type = ty, fr_flags = fl, fr_seq = sq, fr_origin_ts = ts, fr_payload = pl\<rparr>"
proof -
  have "frame_type_u8 a = frame_type_u8 b \<longleftrightarrow> a = b" for a b by (cases a; cases b) simp_all
  then show ?thesis by (cases f) (auto simp: to_go_def)
qed

lemma go_payload_Inr:
  assumes "length data < 2 ^ 32" "hdr \<le> length data"
  shows "go_payload data hdr n f = Inr g \<longleftrightarrow> unat n \<le> MAX_FRAME_SIZE \<and> hdr + unat n \<le> length data
    \<and> g = f\<lparr>gf_payload := subslice hdr (hdr + unat n) data\<rparr>"
proof -
  have "unat (word_of_nat (length data - hdr) :: u32) = length data - hdr"
    using assms(1) by (intro payload_len_word) simp
  then have "(word_of_nat (length data - hdr) :: u32) < n \<longleftrightarrow> length data - hdr < unat n"
    by (simp add: word_less_nat_alt)
  with assms(2) show ?thesis by (auto simp: go_payload_def GO_MAX_FRAME_def MAX_FRAME_SIZE_def)
qed

lemma unmarshal_v3:
  assumes len: "21 \<le> length data" "length data < 2 ^ 32" and v: "3 \<le> data ! 2"
  shows "(\<exists>n. frame_decode data = Inr (Some (f, n))) \<longleftrightarrow> unmarshal_frame data = Inr (to_go f)"
proof (cases "data ! 0 = 0x48 \<and> data ! 1 = 0x54")
  case True
  let ?n = "get_u32 [data ! 17, data ! 18, data ! 19, data ! 20]"
  have "unmarshal_frame data = go_payload data 21 ?n
      \<lparr>gf_version = data ! 2, gf_type = data ! 3, gf_flags = data ! 4,
       gf_seq = get_u32 [data ! 5, data ! 6, data ! 7, data ! 8],
       gf_origin_ts = get_u64 [data ! 9, data ! 10, data ! 11, data ! 12, data ! 13, data ! 14, data ! 15, data ! 16],
       gf_payload = []\<rparr>"
    using len True v by (simp add: unmarshal_frame_def go_consts)
  then have go: "unmarshal_frame data = Inr (to_go f) \<longleftrightarrow> unat ?n \<le> MAX_FRAME_SIZE \<and> 21 + unat ?n \<le> length data
      \<and> to_go f = \<lparr>gf_version = data ! 2, gf_type = data ! 3, gf_flags = data ! 4,
       gf_seq = get_u32 [data ! 5, data ! 6, data ! 7, data ! 8],
       gf_origin_ts = get_u64 [data ! 9, data ! 10, data ! 11, data ! 12, data ! 13, data ! 14, data ! 15, data ! 16],
       gf_payload = subslice 21 (21 + unat ?n) data\<rparr>"
    using go_payload_Inr [OF len(2), of 21 ?n] len(1) by simp
  show ?thesis
  proof (cases "frame_type_try_from (data ! 3)")
    case (Inl e)
    have "data ! 3 \<noteq> frame_type_u8 (fr_type f)" using Inl by auto
    then have "\<not> unmarshal_frame data = Inr (to_go f)" unfolding go by (auto simp: to_go_def)
    with Inl len True v show ?thesis by (auto simp: frame_decode_def protocol_consts)
  next
    case (Inr ty)
    have "data ! 3 = frame_type_u8 ty" using try_from_Inr [OF Inr] by simp
    with Inr len True v show ?thesis
      unfolding go
      by (auto simp: frame_decode_def protocol_consts Let_def to_go_eq)
  qed
next
  case False
  with len v show ?thesis
    by (auto simp: unmarshal_frame_def frame_decode_def go_consts protocol_consts)
qed

lemma unmarshal_v2:
  assumes len: "21 \<le> length data" "length data < 2 ^ 32" and v: "data ! 2 < 3"
  shows "(\<exists>n. frame_decode data = Inr (Some (f, n))) \<longleftrightarrow> unmarshal_frame data = Inr (to_go f)"
proof (cases "data ! 0 = 0x48 \<and> data ! 1 = 0x54")
  case True
  let ?n = "get_u32 [data ! 16, data ! 17, data ! 18, data ! 19]"
  have "\<not> 3 \<le> data ! 2" using v by simp
  then have "unmarshal_frame data = go_payload data 20 ?n
      \<lparr>gf_version = 2, gf_type = data ! 2, gf_flags = data ! 3,
       gf_seq = get_u32 [data ! 4, data ! 5, data ! 6, data ! 7],
       gf_origin_ts = get_u64 [data ! 8, data ! 9, data ! 10, data ! 11, data ! 12, data ! 13, data ! 14, data ! 15],
       gf_payload = []\<rparr>"
    using len True by (simp add: unmarshal_frame_def go_consts)
  then have go: "unmarshal_frame data = Inr (to_go f) \<longleftrightarrow> unat ?n \<le> MAX_FRAME_SIZE \<and> 20 + unat ?n \<le> length data
      \<and> to_go f = \<lparr>gf_version = 2, gf_type = data ! 2, gf_flags = data ! 3,
       gf_seq = get_u32 [data ! 4, data ! 5, data ! 6, data ! 7],
       gf_origin_ts = get_u64 [data ! 8, data ! 9, data ! 10, data ! 11, data ! 12, data ! 13, data ! 14, data ! 15],
       gf_payload = subslice 20 (20 + unat ?n) data\<rparr>"
    using go_payload_Inr [OF len(2), of 20 ?n] len(1) by simp
  have rust: "frame_decode data = decode_v2 data"
    using len True v by (simp add: frame_decode_def protocol_consts)
  show ?thesis
  proof (cases "frame_type_try_from (data ! 2)")
    case (Inl e)
    have "data ! 2 \<noteq> frame_type_u8 (fr_type f)" using Inl by auto
    then have "\<not> unmarshal_frame data = Inr (to_go f)" unfolding go by (auto simp: to_go_def)
    with Inl len show ?thesis unfolding rust by (auto simp: decode_v2_def protocol_consts)
  next
    case (Inr ty)
    have "data ! 2 = frame_type_u8 ty" using try_from_Inr [OF Inr] by simp
    with Inr len show ?thesis
      unfolding go rust by (auto simp: decode_v2_def protocol_consts Let_def to_go_eq)
  qed
next
  case False
  with len v show ?thesis
    by (auto simp: unmarshal_frame_def frame_decode_def go_consts protocol_consts)
qed

lemma marshal_to_go:
  assumes "fr_version f \<noteq> 0"
  shows "marshal_frame (to_go f) =
    (if length (fr_payload f) \<le> MAX_FRAME_SIZE then Inr (frame_encode f)
     else Inl (GoTooLarge (length (fr_payload f))))"
  using assms by (simp add: marshal_frame_def to_go_def frame_encode_def go_consts protocol_consts)

text \<open>The player's reading of a frame the agent sends.\<close>

lemma player_reads_frame:
  assumes v: "3 \<le> fr_version f" and len: "length (fr_payload f) < 2 ^ 31"
  shows "handle_stream_data sha gcm (frame_encode f) d =
    (if fr_type f = Data
     then (case d of None \<Rightarrow> ([fr_payload f], None)
           | Some d \<Rightarrow> (case player_decrypt sha gcm (fr_payload f) d of (out, d') \<Rightarrow> ([out], Some d')))
     else ([], d))"
proof -
  let ?len = "word_of_nat (length (fr_payload f)) :: u32"
  obtain s0 s1 s2 s3 where s: "put_u32 (fr_seq f) = [s0, s1, s2, s3]" by (rule put_u32_list)
  obtain t0 t1 t2 t3 t4 t5 t6 t7 where
    t: "put_u64 (fr_origin_ts f) = [t0, t1, t2, t3, t4, t5, t6, t7]" by (rule put_u64_list)
  obtain l0 l1 l2 l3 where l: "put_u32 ?len = [l0, l1, l2, l3]" "get_u32 [l0, l1, l2, l3] = ?len"
    by (rule put_u32_list)
  have n: "sint ?len = int (length (fr_payload f))"
    using len by (simp add: signed_of_nat signed_take_bit_eq_if_positive take_bit_int_eq_self
        bit_iff_odd div_eq_0_iff)
  have enc: "frame_encode f = [0x48, 0x54, fr_version f, frame_type_u8 (fr_type f),
      fr_flags f, s0, s1, s2, s3, t0, t1, t2, t3, t4, t5, t6, t7, l0, l1, l2, l3] @ fr_payload f"
    by (simp add: frame_encode_def s t l(1) MAGIC_def)
  have ty: "frame_type_u8 (fr_type f) = 2 \<longleftrightarrow> fr_type f = Data" by (cases "fr_type f") simp_all
  show ?thesis
    unfolding handle_stream_data_def enc
    using v by (cases d) (simp_all add: l(2) n ty js_slice_def Let_def nat_add_distrib)
qed

text \<open>A chunk of the agent, decrypted by a player in step, when both derive keys the same way.\<close>

lemma player_decrypts_chunk:
  assumes R: "ring_sound R" and k: "ki_cipher (sc_key_info s) = Aes128Gcm" "length (master_key (sc_key_info s)) = 16"
    and same: "derive_chunk_key R (sc_key_info s) (sc_seq s)
      = player_chunk_key (sha256 R) (master_key (sc_key_info s)) n"
    and e: "encrypt_chunk R nonce pt s = (Inr c, s')" and nonce: "length nonce = 12"
  shows "player_decrypt (sha256 R) (aead_open R Aes128Gcm) c \<lparr>pd_key = master_key (sc_key_info s), pd_seq = n\<rparr>
    = (pt, \<lparr>pd_key = master_key (sc_key_info s), pd_seq = n + 1\<rparr>)"
proof -
  from encrypt_chunk_Inr [OF e] obtain ct tag where c: "c = nonce @ ct @ tag"
    "aead_seal R Aes128Gcm (derive_chunk_key R (sc_key_info s) (sc_seq s)) nonce pt = Some (ct, tag)"
    unfolding k by metis
  from R c(2) have t: "length tag = 16"
    "aead_open R Aes128Gcm (derive_chunk_key R (sc_key_info s) (sc_seq s)) nonce (ct @ tag) = Some pt"
    unfolding ring_sound_def by blast+
  have len: "length (player_chunk_key (sha256 R) (master_key (sc_key_info s)) n) = 16"
    using R k(2) by (simp add: player_chunk_key_def ring_sound_def)
  from t(2) [unfolded same] t(1) len nonce show ?thesis by (simp add: c(1) player_decrypt_def Let_def)
qed

lemma legacy_key:
  assumes "ki_cipher ki = Aes128Gcm" "length (master_key ki) = 16"
    and "\<And>info n. hkdf_expand R (ki_salt ki) (master_key ki) info n = None"
  shows "derive_chunk_key R ki (word_of_nat n) = player_chunk_key (sha256 R) (master_key ki) n"
  using assms by (simp add: derive_chunk_key_def fallback_key_def player_chunk_key_def)

lemma go_key:
  assumes "length (master_key ki) = key_len (ki_cipher ki)"
    and "\<And>info n. hkdf_expand R (ki_salt ki) (master_key ki) info n = None"
  shows "derive_chunk_key R ki seq = go_derive_chunk_key (sha256 R) (master_key ki) (put_u32 seq)"
  using assms
  by (cases "ki_cipher ki") (simp_all add: derive_chunk_key_def fallback_key_def go_derive_chunk_key_def)

section \<open>Properties\<close>



text \<open>
  The web player against the agent. It takes the payload of every data frame, of any
  size, unlike the decoder of the crate. And it decrypts a stream exactly as it was
  encrypted, from the number it starts with, when the agent derives its keys the old way (no
  HKDF) and uses AES-128-GCM under the player's key, where the two derivations coincide.
  (The agent asks for ChaCha20-Poly1305, uses HKDF and a key of its own.)
\<close>

theorem player_plays_legacy_stream:
  assumes "ring_sound R" "ki_cipher (sc_key_info s) = Aes128Gcm" "length (master_key (sc_key_info s)) = 16"
    and "\<And>info n. hkdf_expand R (ki_salt (sc_key_info s)) (master_key (sc_key_info s)) info n = None"
    and "nonces_ok ps" "encrypt_all R ps s = (map Inr cs, s')" "sc_seq s = word_of_nat n"
    and "map fr_payload fs = cs"
      "\<forall>f \<in> set fs. fr_type f = Data \<and> 3 \<le> fr_version f \<and> length (fr_payload f) < 2 ^ 31"
  shows "player_run (sha256 R) (aead_open R Aes128Gcm) (map frame_encode fs)
      (Some \<lparr>pd_key = master_key (sc_key_info s), pd_seq = n\<rparr>)
    = (map snd ps, Some \<lparr>pd_key = master_key (sc_key_info s), pd_seq = n + length ps\<rparr>)"
  using assms
proof (induction ps arbitrary: s cs n fs)
  case (Cons p ps)
  obtain nonce pt where p: "p = (nonce, pt)" by (cases p)
  from Cons.prems(6) [unfolded p] obtain c cs' s1 where c: "cs = c # cs'"
    "encrypt_chunk R nonce pt s = (Inr c, s1)" "encrypt_all R ps s1 = (map Inr cs', s')"
    by (rule encrypt_all_Cons)
  have s1: "s1 = s\<lparr>sc_seq := sc_seq s + 1\<rparr>" using encrypt_chunk_state [of R nonce pt s] c(2) by simp
  from Cons.prems(8) c(1) obtain f fs' where f: "fs = f # fs'" "fr_payload f = c" "map fr_payload fs' = cs'"
    by (cases fs) auto
  have n: "length nonce = 12" "nonces_ok ps" using Cons.prems(5) by (auto simp: nonces_ok_def p)
  have "derive_chunk_key R (sc_key_info s) (sc_seq s)
      = player_chunk_key (sha256 R) (master_key (sc_key_info s)) n"
    unfolding Cons.prems(7) by (rule legacy_key [OF Cons.prems(2,3,4)])
  from player_decrypts_chunk [OF Cons.prems(1,2,3) this c(2) n(1)] f Cons.prems(9)
  have one: "handle_stream_data (sha256 R) (aead_open R Aes128Gcm) (frame_encode f)
      (Some \<lparr>pd_key = master_key (sc_key_info s), pd_seq = n\<rparr>)
    = ([pt], Some \<lparr>pd_key = master_key (sc_key_info s), pd_seq = n + 1\<rparr>)"
    using player_reads_frame [of f] by simp
  have "player_run (sha256 R) (aead_open R Aes128Gcm) (map frame_encode fs')
      (Some \<lparr>pd_key = master_key (sc_key_info s1), pd_seq = n + 1\<rparr>)
    = (map snd ps, Some \<lparr>pd_key = master_key (sc_key_info s1), pd_seq = n + 1 + length ps\<rparr>)"
    by (rule Cons.IH) (use Cons.prems c(3) f n(2) in \<open>simp_all add: s1\<close>)
  with one show ?case by (simp add: f(1) p s1)
qed auto

text \<open>One chunk, encrypted without HKDF by the toy instance of the library.\<close>

theorem player_plays_legacy_stream_witness:
  "\<exists>c s'. encrypt_all (toy_ring\<lparr>hkdf_expand := (\<lambda>_ _ _ _. None)\<rparr>) [(replicate 12 1, [1, 2, 3])]
       (stream_cipher_new \<lparr>master_key = replicate 16 5, ki_salt = [], ki_cipher = Aes128Gcm\<rparr>)
       = ([Inr c], s')
    \<and> fst (player_run (\<lambda>_. replicate 32 0) (aead_open toy_ring Aes128Gcm) [frame_encode (frame_new Data 0 c)]
        (Some \<lparr>pd_key = replicate 16 5, pd_seq = 0\<rparr>)) = [[1, 2, 3]]"
proof -
  let ?R = "toy_ring\<lparr>hkdf_expand := (\<lambda>_ _ _ _. None)\<rparr>"
  let ?ki = "\<lparr>master_key = replicate 16 5, ki_salt = [], ki_cipher = Aes128Gcm\<rparr>"
  let ?s = "stream_cipher_new ?ki" and ?ps = "[(replicate 12 1, [1, 2, 3])] :: (bytes \<times> bytes) list"
  have R: "ring_sound ?R" using toy_sound by (simp add: ring_sound_def)
  have lib: "sha256 ?R = (\<lambda>_. replicate 32 0)" "aead_open ?R = aead_open toy_ring"
    by (simp_all add: toy_ring_def)
  obtain c s' where e: "encrypt_all ?R ?ps ?s = ([Inr c], s')"
    by (simp add: encrypt_chunk_def stream_cipher_new_def derive_chunk_key_def fallback_key_def toy_ring_def Let_def)
  then have c: "length c < 100"
    by (auto simp: encrypt_chunk_def stream_cipher_new_def derive_chunk_key_def fallback_key_def toy_ring_def
        toy_tag_def Let_def)
  have "player_run (sha256 ?R) (aead_open ?R Aes128Gcm) (map frame_encode [frame_new Data 0 c])
      (Some \<lparr>pd_key = master_key (sc_key_info ?s), pd_seq = 0\<rparr>)
    = (map snd ?ps, Some \<lparr>pd_key = master_key (sc_key_info ?s), pd_seq = 0 + length ?ps\<rparr>)"
    by (rule player_plays_legacy_stream [OF R, of ?s ?ps "[c]" s' 0])
      (use e c in \<open>simp_all add: stream_cipher_new_def nonces_ok_def frame_new_def PROTOCOL_VERSION_def\<close>)
  with e show ?thesis by (auto simp: lib stream_cipher_new_def)
qed

end
