(* ===== verification/Updater.thy ===== *)
theory Updater
  imports Config
begin

text \<open>
  The agent's self update, agent-rust/src/updater/mod.rs, on a file system of paths and
  files. What the network answers and whether each file operation succeeds are arguments;
  an operation that fails while writing leaves part of its data. The result of an update
  carries every state the file system goes through, which is what a crash in between
  would leave.
\<close>

section \<open>Files\<close>

record disk_file =
  df_content :: bytes
  df_executable :: bool

type_synonym disk = "(string, disk_file) map"

text \<open>\<open>Path::with_extension\<close> on a path that ends in a file name.\<close>

definition file_stem :: "string \<Rightarrow> string" where
  "file_stem name = (case str_rfind name (CHR ''.'') of
     None \<Rightarrow> name
   | Some i \<Rightarrow> if i = 0 then name else take i name)"

definition with_extension :: "string \<Rightarrow> string \<Rightarrow> string" where
  "with_extension path ext =
     (let cut = (case str_rfind path (CHR ''/'') of None \<Rightarrow> 0 | Some i \<Rightarrow> i + 1)
      in take cut path @ file_stem (drop cut path) @ ''.'' @ ext)"

text \<open>
  Writing may fail before the file is opened (\<open>None\<close>) or after some bytes. A new file is
  not executable; \<open>fs::copy\<close> copies the mode too, and onto itself it truncates the file.
\<close>

datatype io_write = Written | WriteFailed "nat option"

definition part_written :: "io_write \<Rightarrow> bytes \<Rightarrow> bytes option" where
  "part_written w bs = (case w of Written \<Rightarrow> Some bs | WriteFailed n \<Rightarrow> map_option (\<lambda>k. take k bs) n)"

definition fs_copy :: "io_write \<Rightarrow> string \<Rightarrow> string \<Rightarrow> disk \<Rightarrow> disk" where
  "fs_copy w src dst d =
     (case d src of
        None \<Rightarrow> d
      | Some f \<Rightarrow>
          (case part_written w (if src = dst then [] else df_content f) of
             None \<Rightarrow> d
           | Some bs \<Rightarrow> d(dst \<mapsto> \<lparr>df_content = bs, df_executable = df_executable f\<rparr>)))"

definition fs_write :: "io_write \<Rightarrow> string \<Rightarrow> bytes \<Rightarrow> disk \<Rightarrow> bool \<times> disk" where
  "fs_write w path content d =
     (w = Written,
      case part_written w content of
        None \<Rightarrow> d
      | Some bs \<Rightarrow> d(path \<mapsto> \<lparr>df_content = bs,
          df_executable = (case d path of Some f \<Rightarrow> df_executable f | None \<Rightarrow> False)\<rparr>))"

definition fs_make_executable :: "bool \<Rightarrow> string \<Rightarrow> disk \<Rightarrow> bool \<times> disk" where
  "fs_make_executable ok path d =
     (case d path of
        Some f \<Rightarrow> (if ok then (True, d(path \<mapsto> f\<lparr>df_executable := True\<rparr>)) else (False, d))
      | None \<Rightarrow> (False, d))"

definition fs_rename :: "bool \<Rightarrow> string \<Rightarrow> string \<Rightarrow> disk \<Rightarrow> bool \<times> disk" where
  "fs_rename ok src dst d =
     (case d src of
        Some f \<Rightarrow> (if ok then (True, (d(src := None))(dst \<mapsto> f)) else (False, d))
      | None \<Rightarrow> (False, d))"

definition fs_remove :: "bool \<Rightarrow> string \<Rightarrow> disk \<Rightarrow> disk" where
  "fs_remove ok path d = (if ok then d(path := None) else d)"

section \<open>The update\<close>

record version_info =
  vi_version :: string
  vi_download_url :: "string option"

text \<open>
  The environment: the version request (its status is not looked at; \<open>None\<close> when it fails or
  does not parse), the download (status and body), the path of the running executable, and
  the outcomes of the file operations in program order.
\<close>

record update_env =
  ue_version :: "string \<Rightarrow> version_info option"
  ue_download :: "string \<Rightarrow> (nat \<times> bytes option) option"
  ue_current_exe :: "string option"
  ue_copy :: io_write
  ue_write :: io_write
  ue_chmod :: bool
  ue_rename :: bool
  ue_restore :: bool
  ue_remove :: bool

text \<open>From the backup on; the states after each operation, oldest first.\<close>

definition install :: "update_env \<Rightarrow> string \<Rightarrow> bytes \<Rightarrow> disk \<Rightarrow> bool \<times> disk list" where
  "install env current_exe new_binary d =
     (let backup_path = with_extension current_exe ''bak'';
          d1 = fs_copy (ue_copy env) current_exe backup_path d;
          tmp_path = with_extension current_exe ''new'';
          (written, d2) = fs_write (ue_write env) tmp_path new_binary d1
      in if \<not> written then (False, [d1, d2])
         else
           let (executable, d3) = fs_make_executable (ue_chmod env) tmp_path d2
           in if \<not> executable then (False, [d1, d2, fs_remove (ue_remove env) tmp_path d3])
              else
                let (replaced, d4) = fs_rename (ue_rename env) tmp_path current_exe d3
                in if replaced then (True, [d1, d2, d3, d4])
                   else
                     let d5 = (if d4 backup_path \<noteq> None
                               then snd (fs_rename (ue_restore env) backup_path current_exe d4) else d4)
                     in (False, [d1, d2, d3, d5, fs_remove (ue_remove env) tmp_path d5]))"

definition DOWNLOAD_PATH :: string where
  "DOWNLOAD_PATH = ''/downloads/livecdn-agent-x86_64-unknown-linux-musl''"

definition check_and_update :: "config \<Rightarrow> string \<Rightarrow> update_env \<Rightarrow> disk \<Rightarrow> bool \<times> disk list" where
  "check_and_update c AGENT_VERSION env d =
     (case ue_version env (controller_api_url c ''/api/admin/agent_version'') of
        None \<Rightarrow> (False, [])
      | Some info \<Rightarrow>
          (if vi_version info = AGENT_VERSION then (False, [])
           else
             let download_url = (case vi_download_url info of
                   Some url \<Rightarrow> url
                 | None \<Rightarrow> controller_api_url c DOWNLOAD_PATH)
             in case ue_download env download_url of
                  None \<Rightarrow> (False, [])
                | Some (status, body) \<Rightarrow>
                    (if \<not> (200 \<le> status \<and> status < 300) then (False, [])
                     else case body of
                       None \<Rightarrow> (False, [])
                     | Some new_binary \<Rightarrow>
                         (case ue_current_exe env of
                            None \<Rightarrow> (False, [])
                          | Some current_exe \<Rightarrow> install env current_exe new_binary d))))"

definition rollback :: "string option \<Rightarrow> bool \<Rightarrow> disk \<Rightarrow> bool \<times> disk" where
  "rollback exe ok d =
     (case exe of
        None \<Rightarrow> (False, d)
      | Some current_exe \<Rightarrow>
          (let backup_path = with_extension current_exe ''bak''
           in if d backup_path = None then (False, d)
              else fs_rename ok backup_path current_exe d))"

definition current_exe_path :: "update_env \<Rightarrow> string option" where
  "current_exe_path env = ue_current_exe env"

section \<open>Facts\<close>

lemma with_extension_inj: "with_extension p a = with_extension p b \<Longrightarrow> a = b"
  by (simp add: with_extension_def Let_def)

lemma backup_not_new [simp]: "with_extension p ''bak'' \<noteq> with_extension p ''new''"
  using with_extension_inj [of p "''bak''" "''new''"] by auto

lemma fs_ops_other [simp]:
  "p \<noteq> dst \<Longrightarrow> fs_copy w src dst d p = d p"
  "p \<noteq> path \<Longrightarrow> snd (fs_write v path bs d) p = d p"
  "p \<noteq> path \<Longrightarrow> snd (fs_make_executable ok path d) p = d p"
  "p \<noteq> path \<Longrightarrow> fs_remove ok path d p = d p"
  "p \<noteq> src \<Longrightarrow> p \<noteq> dst \<Longrightarrow> snd (fs_rename ok src dst d) p = d p"
  by (auto simp: fs_copy_def fs_write_def fs_make_executable_def fs_remove_def fs_rename_def
      split: option.split)

lemma fst_fs_write [simp]: "fst (fs_write w path bs d) \<longleftrightarrow> w = Written"
  by (simp add: fs_write_def)

lemma fs_copied [simp]: "d src = Some f \<Longrightarrow> src \<noteq> dst \<Longrightarrow> fs_copy Written src dst d dst = Some f"
  by (simp add: fs_copy_def part_written_def)

lemma fs_written [simp]:
  "map_option df_content (snd (fs_write Written path bs d) path) = Some bs"
  by (simp add: fs_write_def part_written_def)

lemma fs_write_file: "\<exists>x. snd (fs_write Written path bs d) path = Some \<lparr>df_content = bs, df_executable = x\<rparr>"
  by (simp add: fs_write_def part_written_def)

lemma fs_rename_done [simp]:
  "d src = Some f \<Longrightarrow> fst (fs_rename ok src dst d) = ok"
  "d src = Some f \<Longrightarrow> snd (fs_rename True src dst d) dst = Some f"
  "d src = Some f \<Longrightarrow> src \<noteq> dst \<Longrightarrow> snd (fs_rename True src dst d) src = None"
  "snd (fs_rename False src dst d) = d"
  by (simp_all add: fs_rename_def split: option.split)

text \<open>
  The ways an installation ends: the new file is not written, not made executable, in
  place, or not moved, in which case the backup is put back where there is one.
\<close>

lemma install_unwritten:
  "ue_write env \<noteq> Written \<Longrightarrow> install env exe bin d =
    (let d1 = fs_copy (ue_copy env) exe (with_extension exe ''bak'') d
     in (False, [d1, snd (fs_write (ue_write env) (with_extension exe ''new'') bin d1)]))"
  by (simp add: install_def Let_def case_prod_unfold)

lemma install_written:
  assumes "ue_write env = Written"
  obtains d1 d2 d3 d5 x where "d1 = fs_copy (ue_copy env) exe (with_extension exe ''bak'') d"
    and "d2 = d1(with_extension exe ''new'' \<mapsto> \<lparr>df_content = bin, df_executable = x\<rparr>)"
    and "d3 = d1(with_extension exe ''new'' \<mapsto> \<lparr>df_content = bin, df_executable = True\<rparr>)"
    and "d5 = (if d3 (with_extension exe ''bak'') \<noteq> None
      then snd (fs_rename (ue_restore env) (with_extension exe ''bak'') exe d3) else d3)"
    and "\<not> ue_chmod env \<Longrightarrow> install env exe bin d =
      (False, [d1, d2, fs_remove (ue_remove env) (with_extension exe ''new'') d2])"
    and "ue_chmod env \<Longrightarrow> ue_rename env \<Longrightarrow> install env exe bin d =
      (True, [d1, d2, d3, (d3(with_extension exe ''new'' := None))
            (exe \<mapsto> \<lparr>df_content = bin, df_executable = True\<rparr>)])"
    and "ue_chmod env \<Longrightarrow> \<not> ue_rename env \<Longrightarrow> install env exe bin d =
      (False, [d1, d2, d3, d5, fs_remove (ue_remove env) (with_extension exe ''new'') d5])"
proof -
  let ?new = "with_extension exe ''new''" and ?bak = "with_extension exe ''bak''"
  let ?d1 = "fs_copy (ue_copy env) exe (with_extension exe ''bak'') d"
  let ?x = "case ?d1 ?new of Some f \<Rightarrow> df_executable f | None \<Rightarrow> False"
  let ?d2 = "?d1(?new \<mapsto> \<lparr>df_content = bin, df_executable = ?x\<rparr>)"
  let ?d3 = "?d1(?new \<mapsto> \<lparr>df_content = bin, df_executable = True\<rparr>)"
  have w: "fs_write (ue_write env) ?new bin ?d1 = (True, ?d2)"
    using assms by (simp add: fs_write_def part_written_def)
  have c: "fs_make_executable (ue_chmod env) ?new ?d2 = (if ue_chmod env then (True, ?d3) else (False, ?d2))"
    by (simp add: fs_make_executable_def)
  have r: "fs_rename (ue_rename env) ?new exe ?d3 =
      (if ue_rename env then (True, (?d3(?new := None))(exe \<mapsto> \<lparr>df_content = bin, df_executable = True\<rparr>))
       else (False, ?d3))"
    by (simp add: fs_rename_def)
  note run = install_def w Let_def prod.case
  show thesis
  proof (rule that [OF refl refl refl refl])
    assume "\<not> ue_chmod env"
    then have "fs_make_executable (ue_chmod env) ?new ?d2 = (False, ?d2)" unfolding c by (simp only: if_False)
    then show "install env exe bin d = (False, [?d1, ?d2, fs_remove (ue_remove env) ?new ?d2])"
      by (simp only: run if_True if_False simp_thms)
  next
    assume "ue_chmod env" "ue_rename env"
    then have "fs_make_executable (ue_chmod env) ?new ?d2 = (True, ?d3)"
      "fs_rename (ue_rename env) ?new exe ?d3 =
        (True, (?d3(?new := None))(exe \<mapsto> \<lparr>df_content = bin, df_executable = True\<rparr>))"
      unfolding c r by (simp_all only: if_True)
    then show "install env exe bin d = (True, [?d1, ?d2, ?d3, (?d3(?new := None))
        (exe \<mapsto> \<lparr>df_content = bin, df_executable = True\<rparr>)])"
      by (simp only: run if_True if_False simp_thms)
  next
    assume "ue_chmod env" "\<not> ue_rename env"
    then have "fs_make_executable (ue_chmod env) ?new ?d2 = (True, ?d3)"
      "fs_rename (ue_rename env) ?new exe ?d3 = (False, ?d3)"
      unfolding c r by (simp_all only: if_True if_False)
    then show "install env exe bin d = (False, [?d1, ?d2, ?d3,
          if ?d3 ?bak \<noteq> None then snd (fs_rename (ue_restore env) ?bak exe ?d3) else ?d3,
          fs_remove (ue_remove env) ?new
            (if ?d3 ?bak \<noteq> None then snd (fs_rename (ue_restore env) ?bak exe ?d3) else ?d3)])"
      by (simp only: run if_True if_False simp_thms)
  qed
qed

text \<open>Every moment of an installation, seen at the path of the executable.\<close>

lemma install_moments:
  assumes "d exe = Some old" "with_extension exe ''bak'' \<noteq> exe" "with_extension exe ''new'' \<noteq> exe"
    and "d' \<in> set (snd (install env exe bin d))"
  shows "d' exe = Some old \<or> d' exe = Some \<lparr>df_content = bin, df_executable = True\<rparr>
    \<or> \<not> ue_rename env \<and> d' exe = fs_copy (ue_copy env) exe (with_extension exe ''bak'') d (with_extension exe ''bak'')"
proof (cases "ue_write env = Written")
  case False
  with assms show ?thesis by (auto simp: install_unwritten Let_def)
next
  case True
  then show ?thesis
  proof (rule install_written [of env exe d bin])
    fix d1 d2 d3 d5 x
    let ?bak = "with_extension exe ''bak''" and ?new = "with_extension exe ''new''"
    assume d: "d1 = fs_copy (ue_copy env) exe ?bak d"
      "d2 = d1(?new \<mapsto> \<lparr>df_content = bin, df_executable = x\<rparr>)"
      "d3 = d1(?new \<mapsto> \<lparr>df_content = bin, df_executable = True\<rparr>)"
      "d5 = (if d3 ?bak \<noteq> None then snd (fs_rename (ue_restore env) ?bak exe d3) else d3)"
      and runs: "\<not> ue_chmod env \<Longrightarrow> install env exe bin d = (False, [d1, d2, fs_remove (ue_remove env) ?new d2])"
        "ue_chmod env \<Longrightarrow> ue_rename env \<Longrightarrow> install env exe bin d = (True, [d1, d2, d3, (d3(?new := None))
            (exe \<mapsto> \<lparr>df_content = bin, df_executable = True\<rparr>)])"
        "ue_chmod env \<Longrightarrow> \<not> ue_rename env \<Longrightarrow>
          install env exe bin d = (False, [d1, d2, d3, d5, fs_remove (ue_remove env) ?new d5])"
    have exe: "d1 exe = Some old" "d2 exe = Some old" "d3 exe = Some old"
      using assms(1-3) by (auto simp: d)
    have d5: "d5 exe = Some old \<or> d5 exe = d1 ?bak"
      using exe(3) by (auto simp: d(4) fs_rename_def split: option.split) (simp add: d(3))
    have removed: "fs_remove (ue_remove env) ?new d'' exe = d'' exe" for d''
      using assms(3) by simp
    consider "\<not> ue_chmod env" | "ue_chmod env" "ue_rename env" | "ue_chmod env" "\<not> ue_rename env" by blast
    then show ?thesis
    proof cases
      case 1
      with runs(1) exe removed [of d2] assms(4) show ?thesis by auto
    next
      case 2
      with runs(2) exe assms(4) show ?thesis by auto
    next
      case 3
      with runs(3) have "d' \<in> {d1, d2, d3, d5, fs_remove (ue_remove env) ?new d5}" using assms(4) by simp
      with exe d5 removed [of d5] 3 show ?thesis by (auto simp: d(1) [symmetric])
    qed
  qed
qed

text \<open>A successful installation: the new program in place, the old one in the backup.\<close>

lemma install_success:
  "fst (install env exe bin d) \<longleftrightarrow> ue_write env = Written \<and> ue_chmod env \<and> ue_rename env"
  "fst (install env exe bin d) \<Longrightarrow>
    last (snd (install env exe bin d)) exe = Some \<lparr>df_content = bin, df_executable = True\<rparr>"
  "fst (install env exe bin d) \<Longrightarrow> with_extension exe ''bak'' \<noteq> exe \<Longrightarrow>
    last (snd (install env exe bin d)) (with_extension exe ''bak'')
      = fs_copy (ue_copy env) exe (with_extension exe ''bak'') d (with_extension exe ''bak'')"
proof -
  have "(fst (install env exe bin d) \<longleftrightarrow> ue_write env = Written \<and> ue_chmod env \<and> ue_rename env)
    \<and> (fst (install env exe bin d) \<longrightarrow>
      last (snd (install env exe bin d)) exe = Some \<lparr>df_content = bin, df_executable = True\<rparr>
      \<and> (with_extension exe ''bak'' \<noteq> exe \<longrightarrow> last (snd (install env exe bin d)) (with_extension exe ''bak'')
        = fs_copy (ue_copy env) exe (with_extension exe ''bak'') d (with_extension exe ''bak'')))"
  proof (cases "ue_write env = Written")
    case False
    then show ?thesis by (simp add: install_unwritten Let_def)
  next
    case True
    then show ?thesis
      by (rule install_written [of env exe d bin]; cases "ue_chmod env"; cases "ue_rename env") auto
  qed
  then show "fst (install env exe bin d) \<longleftrightarrow> ue_write env = Written \<and> ue_chmod env \<and> ue_rename env"
    "fst (install env exe bin d) \<Longrightarrow>
      last (snd (install env exe bin d)) exe = Some \<lparr>df_content = bin, df_executable = True\<rparr>"
    "fst (install env exe bin d) \<Longrightarrow> with_extension exe ''bak'' \<noteq> exe \<Longrightarrow>
      last (snd (install env exe bin d)) (with_extension exe ''bak'')
        = fs_copy (ue_copy env) exe (with_extension exe ''bak'') d (with_extension exe ''bak'')"
    by blast+
qed

text \<open>An update either stops before it touches a file or installs what it downloaded.\<close>

lemma update_cases:
  obtains (idle) "check_and_update c v env d = (False, [])"
      "\<not> (\<exists>info status bin exe.
        ue_version env (controller_api_url c ''/api/admin/agent_version'') = Some info \<and> vi_version info \<noteq> v
        \<and> ue_download env (case vi_download_url info of Some url \<Rightarrow> url | None \<Rightarrow> controller_api_url c DOWNLOAD_PATH)
            = Some (status, Some bin)
        \<and> 200 \<le> status \<and> status < 300 \<and> ue_current_exe env = Some exe)"
    | (installs) info status bin exe where
      "ue_version env (controller_api_url c ''/api/admin/agent_version'') = Some info" "vi_version info \<noteq> v"
      "ue_download env (case vi_download_url info of Some url \<Rightarrow> url | None \<Rightarrow> controller_api_url c DOWNLOAD_PATH)
        = Some (status, Some bin)"
      "200 \<le> status" "status < 300" "ue_current_exe env = Some exe"
      "check_and_update c v env d = install env exe bin d"
proof (cases "\<exists>info status bin exe.
    ue_version env (controller_api_url c ''/api/admin/agent_version'') = Some info \<and> vi_version info \<noteq> v
    \<and> ue_download env (case vi_download_url info of Some url \<Rightarrow> url | None \<Rightarrow> controller_api_url c DOWNLOAD_PATH)
        = Some (status, Some bin)
    \<and> 200 \<le> status \<and> status < 300 \<and> ue_current_exe env = Some exe")
  case True
  then obtain info status bin exe where
    f: "ue_version env (controller_api_url c ''/api/admin/agent_version'') = Some info" "vi_version info \<noteq> v"
      "ue_download env (case vi_download_url info of Some url \<Rightarrow> url | None \<Rightarrow> controller_api_url c DOWNLOAD_PATH)
        = Some (status, Some bin)"
      "200 \<le> status" "status < 300" "ue_current_exe env = Some exe" by blast
  then have "check_and_update c v env d = install env exe bin d"
    by (simp add: check_and_update_def Let_def)
  with f show thesis by (rule installs)
next
  case False
  then have "check_and_update c v env d = (False, [])"
    by (auto simp: check_and_update_def Let_def split: option.split)
  from this False show thesis by (rule idle)
qed

section \<open>Properties\<close>

text \<open>
  C38: an update cannot lose the agent. Whatever the network answers and whichever file
  operations fail, at every moment of an update (also where a crash would cut it short) the
  path of the executable holds the old program, or all of the downloaded one, marked
  executable. The single exception needs two failures: when the backup could not be
  written and the new file cannot be moved into place, whatever lies at the backup path,
  an old backup or part of the program, is moved over the executable.
\<close>

theorem update_keeps_a_program:
  assumes "ue_current_exe env = Some exe" "d exe = Some old"
    and "with_extension exe ''bak'' \<noteq> exe" "with_extension exe ''new'' \<noteq> exe"
    and "d' \<in> set (snd (check_and_update c v env d))"
  shows "d' exe = Some old
    \<or> (\<exists>url status bin. ue_download env url = Some (status, Some bin) \<and> 200 \<le> status \<and> status < 300
        \<and> d' exe = Some \<lparr>df_content = bin, df_executable = True\<rparr>)
    \<or> ue_copy env \<noteq> Written \<and> \<not> ue_rename env
        \<and> d' exe = fs_copy (ue_copy env) exe (with_extension exe ''bak'') d (with_extension exe ''bak'')"
proof (cases rule: update_cases [of c v env d])
  case idle
  with assms(5) show ?thesis by simp
next
  case (installs info status bin exe')
  with assms(1,5) have "d' \<in> set (snd (install env exe bin d))" by simp
  from install_moments [OF assms(2-4) this] show ?thesis
  proof (elim disjE conjE)
    assume "d' exe = fs_copy (ue_copy env) exe (with_extension exe ''bak'') d (with_extension exe ''bak'')" "\<not> ue_rename env"
    then show ?thesis using assms(2,3) by (cases "ue_copy env = Written") auto
  qed (use installs(3-5) in blast)+
qed

text \<open>The exception: an empty backup, left by a copy on a full disk, replaces the program.\<close>

theorem update_keeps_a_program_witness:
  "let env = \<lparr>ue_version = (\<lambda>_. Some \<lparr>vi_version = ''2'', vi_download_url = None\<rparr>),
       ue_download = (\<lambda>_. Some (200, Some [7])), ue_current_exe = Some ''/opt/agent'',
       ue_copy = WriteFailed (Some 0), ue_write = Written, ue_chmod = True, ue_rename = False,
       ue_restore = True, ue_remove = True\<rparr>;
       d = [''/opt/agent'' \<mapsto> \<lparr>df_content = [1], df_executable = True\<rparr>];
       ds = snd (check_and_update default_config ''1'' env d)
   in (\<forall>d' \<in> set ds. d' ''/opt/agent'' = d ''/opt/agent''
        \<or> d' ''/opt/agent'' = Some \<lparr>df_content = [7], df_executable = True\<rparr>
        \<or> d' ''/opt/agent'' = Some \<lparr>df_content = [], df_executable = True\<rparr>)
     \<and> last ds ''/opt/agent'' = Some \<lparr>df_content = [], df_executable = True\<rparr>"
proof -
  let ?env = "\<lparr>ue_version = (\<lambda>_. Some \<lparr>vi_version = ''2'', vi_download_url = None\<rparr>),
       ue_download = (\<lambda>_. Some (200, Some [7])), ue_current_exe = Some ''/opt/agent'',
       ue_copy = WriteFailed (Some 0), ue_write = Written, ue_chmod = True, ue_rename = False,
       ue_restore = True, ue_remove = True\<rparr>"
  let ?d = "[''/opt/agent'' \<mapsto> \<lparr>df_content = [1 :: u8], df_executable = True\<rparr>]"
  have e: "with_extension ''/opt/agent'' ''bak'' = ''/opt/agent.bak''"
    "with_extension ''/opt/agent'' ''new'' = ''/opt/agent.new''"
    by (simp_all add: with_extension_def str_rfind_def file_stem_def)
  have c: "fs_copy (WriteFailed (Some 0)) ''/opt/agent'' ''/opt/agent.bak'' ?d ''/opt/agent.bak''
      = Some \<lparr>df_content = [], df_executable = True\<rparr>"
    by (simp add: fs_copy_def part_written_def)
  have "d' ''/opt/agent'' = ?d ''/opt/agent'' \<or> d' ''/opt/agent'' = Some \<lparr>df_content = [7], df_executable = True\<rparr>
      \<or> d' ''/opt/agent'' = Some \<lparr>df_content = [], df_executable = True\<rparr>"
    if "d' \<in> set (snd (check_and_update default_config ''1'' ?env ?d))" for d'
    using update_keeps_a_program [OF _ _ _ _ that, of "''/opt/agent''"] c by (auto simp: e)
  moreover have "last (snd (check_and_update default_config ''1'' ?env ?d)) ''/opt/agent''
      = Some \<lparr>df_content = [], df_executable = True\<rparr>"
    by (simp add: check_and_update_def install_def e fs_copy_def fs_write_def fs_make_executable_def
        fs_rename_def fs_remove_def part_written_def Let_def)
  ultimately show ?thesis unfolding Let_def by blast
qed

text \<open>
  When an update succeeds, and with what. It succeeds exactly when the controller names a
  version that differs from the running one, the download answers with a success, and the
  new file can be written, made executable and moved; the executable is then the downloaded
  bytes. The version is compared for equality only and the bytes are not checked: a
  controller can install any bytes, an older version included.
\<close>

theorem update_succeeds_iff:
  "fst (check_and_update c v env d) \<longleftrightarrow>
    (\<exists>info status bin exe.
      ue_version env (controller_api_url c ''/api/admin/agent_version'') = Some info \<and> vi_version info \<noteq> v
      \<and> ue_download env (case vi_download_url info of Some url \<Rightarrow> url | None \<Rightarrow> controller_api_url c DOWNLOAD_PATH)
          = Some (status, Some bin)
      \<and> 200 \<le> status \<and> status < 300 \<and> ue_current_exe env = Some exe
      \<and> ue_write env = Written \<and> ue_chmod env \<and> ue_rename env
      \<and> last (snd (check_and_update c v env d)) exe = Some \<lparr>df_content = bin, df_executable = True\<rparr>)"
proof (cases rule: update_cases [of c v env d])
  case idle
  have "\<not> fst (check_and_update c v env d)" by (simp only: idle(1) fst_conv simp_thms)
  with idle(2) show ?thesis by blast
next
  case (installs info status bin exe)
  then show ?thesis using install_success(1,2) [of env exe bin d] by auto
qed

text \<open>
  Rolling back. After a successful update whose backup was written, one rollback puts the
  old program back, with its mode; a second one finds no backup and changes nothing; and
  a rollback that cannot move the file leaves the new program.
\<close>

theorem rollback_restores:
  assumes "check_and_update c v env d = (True, ds)" "ue_current_exe env = Some exe"
    and "d exe = Some old" "ue_copy env = Written" "with_extension exe ''bak'' \<noteq> exe"
  shows "fst (rollback (Some exe) True (last ds))
    \<and> snd (rollback (Some exe) True (last ds)) exe = Some old
    \<and> rollback (Some exe) ok (snd (rollback (Some exe) True (last ds)))
        = (False, snd (rollback (Some exe) True (last ds)))
    \<and> rollback (Some exe) False (last ds) = (False, last ds)"
proof (cases rule: update_cases [of c v env d])
  case idle
  with assms(1) show ?thesis by simp
next
  case (installs info status bin exe')
  with assms(1,2) have run: "install env exe bin d = (True, ds)" by simp
  have backup: "last ds (with_extension exe ''bak'') = Some old"
    using install_success(3) [of env exe bin d] assms(3-5) by (simp add: run)
  then show ?thesis using assms(5) by (auto simp: rollback_def Let_def fs_rename_def)
qed

theorem rollback_restores_witness:
  "let env = \<lparr>ue_version = (\<lambda>_. Some \<lparr>vi_version = ''2'', vi_download_url = None\<rparr>),
       ue_download = (\<lambda>_. Some (200, Some [7])), ue_current_exe = Some ''/opt/agent'',
       ue_copy = Written, ue_write = Written, ue_chmod = True, ue_rename = True,
       ue_restore = True, ue_remove = True\<rparr>;
       d = [''/opt/agent'' \<mapsto> \<lparr>df_content = [1], df_executable = True\<rparr>];
       ds = snd (check_and_update default_config ''1'' env d)
   in last ds ''/opt/agent'' = Some \<lparr>df_content = [7], df_executable = True\<rparr>
     \<and> snd (rollback (Some ''/opt/agent'') True (last ds)) ''/opt/agent'' = d ''/opt/agent''"
proof -
  let ?env = "\<lparr>ue_version = (\<lambda>_. Some \<lparr>vi_version = ''2'', vi_download_url = None\<rparr>),
       ue_download = (\<lambda>_. Some (200, Some [7])), ue_current_exe = Some ''/opt/agent'',
       ue_copy = Written, ue_write = Written, ue_chmod = True, ue_rename = True,
       ue_restore = True, ue_remove = True\<rparr>"
  let ?d = "[''/opt/agent'' \<mapsto> \<lparr>df_content = [1 :: u8], df_executable = True\<rparr>]"
  let ?run = "check_and_update default_config ''1'' ?env ?d"
  have run: "?run = install ?env ''/opt/agent'' [7] ?d" by (simp add: check_and_update_def)
  have inst: "fst (install ?env ''/opt/agent'' [7] ?d)" unfolding install_success(1) by simp
  have ok: "fst ?run" "last (snd ?run) ''/opt/agent'' = Some \<lparr>df_content = [7], df_executable = True\<rparr>"
    unfolding run by (rule inst, rule install_success(2) [OF inst])
  have e: "with_extension ''/opt/agent'' ''bak'' \<noteq> ''/opt/agent''"
    by (simp add: with_extension_def str_rfind_def file_stem_def)
  have "?run = (True, snd ?run)" by (rule prod_eqI) (simp_all only: ok(1) fst_conv snd_conv)
  from rollback_restores [OF this _ _ _ e]
  have "snd (rollback (Some ''/opt/agent'') True (last (snd ?run))) ''/opt/agent'' = ?d ''/opt/agent''"
    by simp
  with ok(2) show ?thesis unfolding Let_def by blast
qed

end
