(* ===== verification/Controller.thy ===== *)
theory Controller
  imports Http_Api "HOL-Library.Multiset"
begin

text \<open>
  The controller as the agents see it, written in Go: its table of nodes
  (internal/controller/store.go), the handlers of registration and heartbeat
  (internal/controller/server.go) and the mesh map they answer with
  (internal/controller/mesh.go). Go's \<open>int\<close> is unbounded here and \<open>float64\<close> exact, as elsewhere
  in this development. The order in which a Go map is iterated, the nodes that viewers have
  complained about and the unstable \<open>sort.Slice\<close> are arguments. Each handler is one step, as if it
  held the lock of the store throughout. The counts of an answer are taken to fit the 32 bits
  the agent reads them into. Of a node's entry the fields that neither these handlers nor the
  mesh map read are left out (version, tier, weight and failures of the scheduler).
\<close>

section \<open>The table of nodes\<close>

datatype node_status = NodeOnline | NodeBusy | NodeOffline | NodeCooling | NodePending

record node_info =
  ni_node_id :: string
  ni_public_ip :: string
  ni_public_ipv6 :: string
  ni_port :: nat
  ni_region :: string
  ni_isp :: string
  ni_bw_used :: int
  ni_bw_limit :: int
  ni_online_users :: int
  ni_rtt :: int
  ni_loss_rate :: real
  ni_status :: node_status
  ni_last_hb :: nat
  ni_domain :: string
  ni_protocol :: string
  ni_ws_path :: string
  ni_tls_enabled :: bool
  ni_cascade_enabled :: bool
  ni_cascade_upstream :: bool
  ni_cascade_depth :: int
  ni_children_count :: int
  ni_cascade_egress_bw :: int
  ni_current_upstream :: string

type_synonym node_store = "(string, node_info) map"

definition register_existing :: "nat \<Rightarrow> register_payload \<Rightarrow> node_info \<Rightarrow> node_info" where
  "register_existing now req n = n\<lparr>ni_public_ip := rp_public_ip req, ni_public_ipv6 := rp_public_ipv6 req,
     ni_port := unat (rp_port req), ni_region := rp_region req, ni_isp := rp_isp req,
     ni_bw_limit := uint (rp_bw_limit req), ni_domain := rp_domain req, ni_protocol := rp_protocol req,
     ni_ws_path := rp_ws_path req, ni_tls_enabled := rp_tls_enabled req, ni_last_hb := now,
     ni_status := (if ni_status n = NodeOffline then NodeOnline else ni_status n)\<rparr>"

definition register_new :: "nat \<Rightarrow> register_payload \<Rightarrow> node_info" where
  "register_new now req = \<lparr>ni_node_id = rp_node_id req, ni_public_ip = rp_public_ip req,
     ni_public_ipv6 = rp_public_ipv6 req, ni_port = unat (rp_port req), ni_region = rp_region req,
     ni_isp = rp_isp req, ni_bw_used = 0, ni_bw_limit = uint (rp_bw_limit req), ni_online_users = 0,
     ni_rtt = 0, ni_loss_rate = 0, ni_status = NodePending, ni_last_hb = now,
     ni_domain = rp_domain req, ni_protocol = rp_protocol req, ni_ws_path = rp_ws_path req,
     ni_tls_enabled = rp_tls_enabled req, ni_cascade_enabled = rp_cascade_enabled req,
     ni_cascade_upstream = rp_cascade_upstream req, ni_cascade_depth = 0, ni_children_count = 0,
     ni_cascade_egress_bw = 0, ni_current_upstream = []\<rparr>"

definition register_node :: "nat \<Rightarrow> register_payload \<Rightarrow> node_store \<Rightarrow> node_store" where
  "register_node now req nodes = nodes(rp_node_id req \<mapsto>
     (case nodes (rp_node_id req) of
        Some existing \<Rightarrow> register_existing now req existing
      | None \<Rightarrow> register_new now req))"

text \<open>A loss rate that is not a number is \<open>null\<close> in JSON, which Go reads as 0.\<close>

definition json_number :: "f64 \<Rightarrow> real" where
  "json_number x = (case x of Fin r \<Rightarrow> r | _ \<Rightarrow> 0)"

definition update_heartbeat :: "nat \<Rightarrow> heartbeat_payload \<Rightarrow> node_store \<Rightarrow> node_store option" where
  "update_heartbeat now hb nodes =
     (case nodes (hb_node_id hb) of
        None \<Rightarrow> None
      | Some n \<Rightarrow> Some (nodes(hb_node_id hb \<mapsto>
          n\<lparr>ni_bw_used := uint (hb_bw_used hb), ni_bw_limit := uint (hb_bw_limit hb),
            ni_online_users := int (hb_online_users hb), ni_rtt := uint (hb_rtt_ms hb),
            ni_loss_rate := json_number (hb_loss_rate hb), ni_last_hb := now, ni_status := NodeOnline,
            ni_cascade_depth := hb_cascade_depth hb, ni_children_count := hb_children_count hb,
            ni_cascade_egress_bw := hb_cascade_egress_bw hb,
            ni_current_upstream := hb_current_upstream hb\<rparr>)))"

definition remove_node :: "string \<Rightarrow> node_store \<Rightarrow> node_store" where
  "remove_node i nodes = nodes(i := None)"

definition remove_stale_nodes :: "nat \<Rightarrow> nat \<Rightarrow> node_store \<Rightarrow> node_store" where
  "remove_stale_nodes now timeout nodes = (\<lambda>i. case nodes i of
     Some n \<Rightarrow> (if timeout < now - ni_last_hb n then None else Some n) | None \<Rightarrow> None)"

definition set_node_status :: "string \<Rightarrow> node_status \<Rightarrow> node_store \<Rightarrow> node_store" where
  "set_node_status i status nodes =
     (case nodes i of Some n \<Rightarrow> nodes(i \<mapsto> n\<lparr>ni_status := status\<rparr>) | None \<Rightarrow> nodes)"

definition is_node_healthy :: "nat \<Rightarrow> node_info \<Rightarrow> bool" where
  "is_node_healthy now n =
     (if ni_status n = NodeOffline \<or> ni_status n = NodeCooling \<or> ni_status n = NodePending then False
      else if now - ni_last_hb n > 15000 then False
      else if ni_bw_limit n > 0 \<and> real_of_int (ni_bw_used n) / real_of_int (ni_bw_limit n) > 7 / 10 then False
      else if ni_loss_rate n > 5 / 100 then False
      else True)"

definition get_healthy_nodes :: "nat \<Rightarrow> (string \<Rightarrow> bool) \<Rightarrow> node_info list \<Rightarrow> node_info list" where
  "get_healthy_nodes now cooling nodes =
     filter (\<lambda>n. is_node_healthy now n \<and> \<not> cooling (ni_node_id n)) nodes"

section \<open>The mesh map\<close>

definition compute_tier :: "node_info \<Rightarrow> int" where
  "compute_tier n = (if ni_cascade_enabled n \<and> \<not> ni_cascade_upstream n then 1 else 2)"

definition url_scheme :: "node_info \<Rightarrow> string" where
  "url_scheme n = (if ni_tls_enabled n then ''https'' else ''http'')"

definition build_cascade_endpoint_url :: "node_info \<Rightarrow> string" where
  "build_cascade_endpoint_url n =
     (let host = (if ni_public_ipv6 n \<noteq> [] then ''['' @ ni_public_ipv6 n @ '']'' else ni_public_ip n);
          host' = (if ni_port n \<noteq> 0 \<and> ni_port n \<noteq> 80 \<and> ni_port n \<noteq> 443
                   then host @ '':'' @ nat_str (ni_port n) else host)
      in url_scheme n @ ''://'' @ host' @ ''/cascade/'' @ STREAM_KEY @ ''.flv'')"

definition build_ipv6_cascade_url :: "node_info \<Rightarrow> string" where
  "build_ipv6_cascade_url n =
     (if ni_public_ipv6 n = [] then []
      else url_scheme n @ ''://['' @ ni_public_ipv6 n @ '']:'' @ nat_str (ni_port n)
             @ ''/cascade/'' @ STREAM_KEY @ ''.flv'')"

definition mesh_node_score_v2 :: "node_info \<Rightarrow> string \<Rightarrow> string \<Rightarrow> real" where
  "mesh_node_score_v2 n requester_region requester_isp =
     (let same_region = (ni_region n = requester_region);
          same_isp = (ni_isp n = requester_isp);
          locality = (if same_region \<and> same_isp then 1 else if same_region then 6 / 10 else 2 / 10);
          isp = (if same_isp then 1 else 4 / 10);
          capacity = (if ni_bw_limit n > 0
                      then (1 - real_of_int (ni_bw_used n) / real_of_int (ni_bw_limit n)) * (6 / 10)
                        + (if ni_children_count n > 0 then 5 / 10 else 1) * (4 / 10)
                      else 5 / 10);
          stability = (if ni_loss_rate n > 5 / 100 then 3 / 10
                       else if ni_loss_rate n > 1 / 100 then 6 / 10 else 8 / 10);
          ipv6 = (if ni_public_ipv6 n \<noteq> [] then 1 else 0);
          topology = min 1 ((if ni_cascade_enabled n \<and> \<not> ni_cascade_upstream n then 3 / 10 else 0)
                       + (if same_region \<and> same_isp then 5 / 10 else if same_region then 2 / 10 else 0)
                       + (if ni_public_ipv6 n \<noteq> [] then 1 / 10 else 0))
      in min 1 (25 / 100 * locality + 20 / 100 * isp + 15 / 100 * capacity + 15 / 100 * stability
           + 10 / 100 * ipv6 + 15 / 100 * topology))"

text \<open>\<open>math.Round\<close>, here of a number that is not negative.\<close>

definition go_round :: "real \<Rightarrow> real" where
  "go_round x = real_of_int \<lfloor>x + 1 / 2\<rfloor>"

definition build_candidate :: "node_info \<Rightarrow> int \<Rightarrow> node_info \<Rightarrow> candidate_upstream option" where
  "build_candidate n tier requester =
     (let load_score = (if ni_bw_limit n > 0 then real_of_int (ni_bw_used n) / real_of_int (ni_bw_limit n) else 0);
          bw_remaining = (if ni_bw_limit n > 0
            then real_of_int (ni_bw_limit n) * (30 / 100) / 125000 - real_of_int (ni_cascade_egress_bw n) / 125000
            else 9);
          max_children = \<lfloor>bw_remaining / 4\<rfloor>
      in if load_score > 70 / 100 then None
         else if bw_remaining < 2 then None
         else if max_children < 1 then None
         else Some \<lparr>cu_node_id = ni_node_id n, cu_url = build_cascade_endpoint_url n, cu_region = ni_region n,
           cu_isp = ni_isp n, cu_tier = tier,
           cu_score_hint = mesh_node_score_v2 n (ni_region requester) (ni_isp requester) * 100,
           cu_max_children = max_children, cu_current_children = ni_children_count n,
           cu_bw_remaining_mbps = go_round (bw_remaining * 100) / 100, cu_allow_cascade = True,
           cu_has_ipv6 = (ni_public_ipv6 n \<noteq> []), cu_ipv6_url = build_ipv6_cascade_url n\<rparr>)"

definition check_migration_advice :: "node_store \<Rightarrow> node_info \<Rightarrow> candidate_upstream list
    \<Rightarrow> migration_advice option" where
  "check_migration_advice nodes requester candidates =
     (if ni_current_upstream requester = [] then None
      else case nodes (ni_current_upstream requester) of
          None \<Rightarrow> Some \<lparr>should_switch = True, preferred_node = [], ma_reason = ''upstream_offline''\<rparr>
        | Some upstream \<Rightarrow>
            (if ni_bw_limit upstream > 0
                \<and> real_of_int (ni_bw_used upstream) / real_of_int (ni_bw_limit upstream) > 8 / 10
             then (case candidates of
                     [] \<Rightarrow> None
                   | c # cs \<Rightarrow> Some \<lparr>should_switch = True, preferred_node = cu_node_id c,
                                ma_reason = ''parent_overloaded''\<rparr>)
             else None))"

text \<open>What a request finds: how the table is iterated, who is cooling, how equal scores are sorted.\<close>

record controller_env =
  ce_now :: nat
  ce_order :: "node_store \<Rightarrow> node_info list"
  ce_cooling :: "string \<Rightarrow> bool"
  ce_sort :: "candidate_upstream list \<Rightarrow> candidate_upstream list"

definition sorts_by_hint :: "(candidate_upstream list \<Rightarrow> candidate_upstream list) \<Rightarrow> bool" where
  "sorts_by_hint f \<longleftrightarrow> (\<forall>cs. mset (f cs) = mset cs \<and> sorted_wrt (\<lambda>c d. cu_score_hint d \<le> cu_score_hint c) (f cs))"

definition map_order :: "(node_store \<Rightarrow> node_info list) \<Rightarrow> bool" where
  "map_order f \<longleftrightarrow> (\<forall>nodes. finite (dom nodes) \<longrightarrow> iterates (f nodes) nodes)"

record controller_config =
  cc_reg_token :: string
  cc_origin_addr :: string

record controller =
  ct_nodes :: node_store
  ct_epoch :: u64

definition mesh_candidates :: "controller_env \<Rightarrow> node_store \<Rightarrow> string \<Rightarrow> node_info \<Rightarrow> candidate_upstream list" where
  "mesh_candidates env nodes requester_id requester =
     take 3 (ce_sort env (List.map_filter
       (\<lambda>n. if ni_node_id n = requester_id then None
            else if \<not> ni_cascade_enabled n then None
            else if compute_tier n \<ge> compute_tier requester then None
            else build_candidate n (compute_tier n) requester)
       (get_healthy_nodes (ce_now env) (ce_cooling env) (ce_order env nodes))))"

definition build_mesh_map_response :: "controller_config \<Rightarrow> controller_env \<Rightarrow> string \<Rightarrow> controller
    \<Rightarrow> mesh_map_response option \<times> controller" where
  "build_mesh_map_response cc env requester_id ct =
     (case ct_nodes ct requester_id of
        None \<Rightarrow> (None, ct)
      | Some requester \<Rightarrow>
          (let candidates = mesh_candidates env (ct_nodes ct) requester_id requester;
               epoch = ct_epoch ct + 1
           in (Some \<lparr>mesh_epoch = epoch, self_node_id = requester_id, mm_self_tier = compute_tier requester,
                 candidate_upstreams = candidates,
                 mm_origin_fallback = Some \<lparr>of_url = trim_end_char (cc_origin_addr cc) (CHR ''/'')
                     @ ''/live/'' @ STREAM_KEY @ ''.flv'', of_priority = 999\<rparr>,
                 mm_policy = Some mesh_policy_default,
                 mm_migration_advice = check_migration_advice (ct_nodes ct) requester candidates\<rparr>,
               ct\<lparr>ct_epoch := epoch\<rparr>)))"

section \<open>The handlers\<close>

text \<open>An unsigned number above the range of \<open>int64\<close> does not decode.\<close>

definition fits_int64 :: "u64 \<Rightarrow> bool" where
  "fits_int64 x \<longleftrightarrow> unat x < 2 ^ 63"

definition register_binds :: "register_payload \<Rightarrow> bool" where
  "register_binds req \<longleftrightarrow> rp_node_id req \<noteq> [] \<and> rp_public_ip req \<noteq> [] \<and> rp_port req \<noteq> 0
     \<and> rp_region req \<noteq> [] \<and> rp_isp req \<noteq> [] \<and> rp_token req \<noteq> [] \<and> fits_int64 (rp_bw_limit req)"

definition controller_register :: "controller_config \<Rightarrow> nat \<Rightarrow> register_payload \<Rightarrow> controller
    \<Rightarrow> nat \<times> controller" where
  "controller_register cc now req ct =
     (if \<not> register_binds req then (400, ct)
      else if rp_token req \<noteq> cc_reg_token cc then (403, ct)
      else (200, ct\<lparr>ct_nodes := register_node now req (ct_nodes ct)\<rparr>))"

text \<open>The token of the header \<open>Authorization: Bearer\<close>, which is what the agent sends.\<close>

definition validate_agent_token :: "controller_config \<Rightarrow> string \<Rightarrow> bool" where
  "validate_agent_token cc bearer \<longleftrightarrow> cc_reg_token cc \<noteq> [] \<and> str_trim bearer = cc_reg_token cc"

definition heartbeat_binds :: "heartbeat_payload \<Rightarrow> bool" where
  "heartbeat_binds hb \<longleftrightarrow> hb_node_id hb \<noteq> [] \<and> fits_int64 (hb_bw_used hb) \<and> fits_int64 (hb_bw_limit hb)
     \<and> hb_online_users hb < 2 ^ 63"

definition controller_heartbeat :: "controller_config \<Rightarrow> controller_env \<Rightarrow> string \<Rightarrow> heartbeat_payload
    \<Rightarrow> controller \<Rightarrow> heartbeat_response \<times> controller" where
  "controller_heartbeat cc env bearer hb ct =
     (if \<not> validate_agent_token cc bearer then (HeartbeatAnswer 403 None, ct)
      else if \<not> heartbeat_binds hb then (HeartbeatAnswer 400 None, ct)
      else case update_heartbeat (ce_now env) hb (ct_nodes ct) of
          None \<Rightarrow> (HeartbeatAnswer 404 None, ct)
        | Some nodes \<Rightarrow>
            (case build_mesh_map_response cc env (hb_node_id hb) (ct\<lparr>ct_nodes := nodes\<rparr>) of
               (mesh, ct') \<Rightarrow> (HeartbeatAnswer 200 mesh, ct')))"

section \<open>Facts\<close>

lemma map_filter_mem: "y \<in> set (List.map_filter f xs) \<longleftrightarrow> (\<exists>x \<in> set xs. f x = Some y)"
  by (auto simp: List.map_filter_def image_iff)

lemma iterates_ran: "iterates vs m \<Longrightarrow> set vs = ran m"
  by (force simp: iterates_def ran_def dom_def image_iff)

text \<open>What is offered: only nodes of the table that are healthy and of the tier above.\<close>

lemma mesh_candidate:
  assumes "sorts_by_hint (ce_sort env)" "map_order (ce_order env)" "finite (dom nodes)"
    and "c \<in> set (mesh_candidates env nodes i r)"
  obtains n where "n \<in> ran nodes" "ni_node_id n \<noteq> i" "compute_tier r = 2" "compute_tier n = 1"
    "is_node_healthy (ce_now env) n" "\<not> ce_cooling env (ni_node_id n)" "build_candidate n 1 r = Some c"
proof -
  let ?f = "\<lambda>n. if ni_node_id n = i then None else if \<not> ni_cascade_enabled n then None
    else if compute_tier n \<ge> compute_tier r then None else build_candidate n (compute_tier n) r"
  let ?hs = "get_healthy_nodes (ce_now env) (ce_cooling env) (ce_order env nodes)"
  have "mset (ce_sort env (List.map_filter ?f ?hs)) = mset (List.map_filter ?f ?hs)"
    using assms(1) by (simp add: sorts_by_hint_def)
  then have sorted: "set (ce_sort env (List.map_filter ?f ?hs)) = set (List.map_filter ?f ?hs)"
    by (rule mset_eq_setD)
  have "c \<in> set (ce_sort env (List.map_filter ?f ?hs))"
    using assms(4) unfolding mesh_candidates_def by (rule in_set_takeD)
  then have "c \<in> set (List.map_filter ?f ?hs)" by (simp only: sorted)
  then obtain n where n: "n \<in> set ?hs" "?f n = Some c" by (auto simp: map_filter_mem)
  have "iterates (ce_order env nodes) nodes" using assms(2,3) by (simp add: map_order_def)
  then have "set (ce_order env nodes) = ran nodes" by (rule iterates_ran)
  with n(1) have h: "n \<in> ran nodes" "is_node_healthy (ce_now env) n" "\<not> ce_cooling env (ni_node_id n)"
    by (simp_all add: get_healthy_nodes_def)
  from n(2) have t: "ni_node_id n \<noteq> i" "compute_tier n < compute_tier r" "build_candidate n (compute_tier n) r = Some c"
    by (simp_all split: if_splits)
  have "compute_tier n \<in> {1, 2}" "compute_tier r \<in> {1, 2}" by (simp_all add: compute_tier_def)
  with t(2) have "compute_tier n = 1" "compute_tier r = 2" by auto
  with h t show ?thesis by (intro that [of n]) simp_all
qed

lemma candidate_fields:
  assumes "build_candidate n t r = Some c"
  shows "cu_node_id c = ni_node_id n" "cu_tier c = t" "cu_current_children c = ni_children_count n"
    "cu_allow_cascade c" "cu_url c = build_cascade_endpoint_url n" "1 \<le> cu_max_children c"
  using assms by (auto simp: build_candidate_def Let_def split: if_splits)

lemma register_node_apply:
  "register_node now req nodes j = (if j = rp_node_id req then Some (case nodes j of
      Some n \<Rightarrow> register_existing now req n | None \<Rightarrow> register_new now req) else nodes j)"
  by (simp add: register_node_def)

lemma store_dom:
  "finite (dom nodes) \<Longrightarrow> finite (dom (register_node now req nodes))"
  "finite (dom nodes) \<Longrightarrow> update_heartbeat now hb nodes = Some nodes' \<Longrightarrow> finite (dom nodes')"
  "finite (dom nodes) \<Longrightarrow> finite (dom (remove_node i nodes))"
  "finite (dom nodes) \<Longrightarrow> finite (dom (remove_stale_nodes now timeout nodes))"
  "finite (dom nodes) \<Longrightarrow> finite (dom (set_node_status i st nodes))"
proof -
  show "finite (dom nodes) \<Longrightarrow> finite (dom (remove_stale_nodes now timeout nodes))"
    by (rule finite_subset [of _ "dom nodes"]) (auto simp: remove_stale_nodes_def split: option.splits if_splits)
qed (auto simp: register_node_def update_heartbeat_def remove_node_def set_node_status_def split: option.splits)

end
