(* ===== verification/Cascade_Network.thy ===== *)
theory Cascade_Network
  imports Controller "HOL-Library.List_Lexorder"
begin

text \<open>
  The network: a controller (Controller) and any number of agents (Agent), each known by its
  node id. Agents start and restart with a configuration, register, send heartbeats, hear the
  answers, any time later, and create relays; the controller's operator removes nodes and
  sets their status. Who pulls from whom then follows. The steps are those of the two
  programs; requests and answers may be lost.
\<close>

section \<open>An order of upstreams\<close>

text \<open>
  The contract of a layering: who may pull from whom goes down in rank. Whatever links are
  made under it, they have no cycle and chains no longer than the rank.
\<close>

locale upstream_order =
  fixes allowed :: "'a \<Rightarrow> 'a \<Rightarrow> bool" and rank :: "'a \<Rightarrow> nat"
  assumes rank_less: "allowed i j \<Longrightarrow> rank j < rank i"
begin

lemma chain_rank: "(i, j) \<in> R ^^ n \<Longrightarrow> R \<subseteq> {(i, j). allowed i j} \<Longrightarrow> rank j + n \<le> rank i"
proof (induction n arbitrary: j)
  case (Suc n)
  from Suc.prems(1) obtain k where k: "(i, k) \<in> R ^^ n" "(k, j) \<in> R" by auto
  from k(2) Suc.prems(2) have "rank j < rank k" by (auto intro: rank_less)
  with Suc.IH [OF k(1) Suc.prems(2)] show ?case by simp
qed simp

lemma links_acyclic:
  assumes "R \<subseteq> {(i, j). allowed i j}" shows "acyclic R"
proof -
  have "wf (inv_image {(a, b). a < b} rank)" by (intro wf_inv_image wf_less)
  moreover have "R\<inverse> \<subseteq> inv_image {(a, b). a < b} rank"
  proof
    fix x assume "x \<in> R\<inverse>"
    then obtain i j where "x = (j, i)" "(i, j) \<in> R" by auto
    moreover from this(2) assms have "allowed i j" by blast
    ultimately show "x \<in> inv_image {(a, b). a < b} rank" by (simp add: rank_less)
  qed
  ultimately have "wf (R\<inverse>)" by (rule wf_subset)
  then have "acyclic (R\<inverse>)" by (rule wf_acyclic)
  then show ?thesis by (simp only: acyclic_converse)
qed

end

section \<open>Nodes and the controller\<close>

text \<open>
  A node: the agent, whether it is about to register (once when it starts, and when it hears
  that the controller does not know it), the answer to its last heartbeat while it is on the
  way, and from which node each of its FLV streams is pulled, where it is the upstream that
  was selected when the relay was made.
\<close>

record net_node =
  nn_agent :: agent
  nn_registers :: bool
  nn_answer :: "heartbeat_response option"
  nn_sources :: "(string, string) map"

record network =
  nw_ctl :: controller
  nw_nodes :: "(string, net_node) map"

datatype delivery = Delivered | BodyLost | AnswerLost | RequestLost

record ask =
  ask_head :: "string \<Rightarrow> nat option"
  ask_version :: string
  ask_relays :: "stream_relay list"
  ask_pullers :: "flv_puller list"
  ask_env :: controller_env
  ask_delivery :: delivery

datatype net_action =
    NetStart config
  | NetAgent string agent_op
  | NetRegister string nat bool
  | NetAsk string ask
  | NetHear string nat lock_view
  | NetRemove string
  | NetStale nat nat
  | NetStatus string node_status

definition is_mesh_update :: "agent_op \<Rightarrow> bool" where
  "is_mesh_update x = (case x of
     SelectorOp op \<Rightarrow> (case op of OpMeshMap now lk resp \<Rightarrow> True | _ \<Rightarrow> False) | _ \<Rightarrow> False)"

definition sources_after :: "agent_op \<Rightarrow> agent \<Rightarrow> (string, string) map \<Rightarrow> (string, string) map" where
  "sources_after x st src =
     (case x of
        FlvRequest key \<Rightarrow>
          (case (ag_flv_relays st key, sel_current_path (ag_selector st)) of
             (None, Some path) \<Rightarrow> src(key \<mapsto> cp_upstream_node_id path)
           | _ \<Rightarrow> src)
      | _ \<Rightarrow> src)"

definition net_ask :: "controller_config \<Rightarrow> ask \<Rightarrow> agent \<Rightarrow> controller \<Rightarrow> heartbeat_response \<times> controller" where
  "net_ask cc q st ct =
     (let hb = snd (heartbeat_request (ask_head q) (ask_version q) (ask_relays q) (ask_pullers q) st);
          (resp, ct') = controller_heartbeat cc (ask_env q) (cfg_reg_token (ag_config st)) hb ct
      in case ask_delivery q of
           RequestLost \<Rightarrow> (HeartbeatFailed, ct)
         | AnswerLost \<Rightarrow> (HeartbeatFailed, ct')
         | BodyLost \<Rightarrow> (case resp of HeartbeatAnswer status m \<Rightarrow> (HeartbeatAnswer status None, ct')
                        | HeartbeatFailed \<Rightarrow> (HeartbeatFailed, ct'))
         | Delivered \<Rightarrow> (resp, ct'))"

text \<open>
  One step. A node whose process aborts is gone (until it starts again). The mesh map of an
  agent changes only by what it hears; after a 404 it registers, which is a step of its own.
\<close>

definition net_apply :: "controller_config \<Rightarrow> net_action \<Rightarrow> network \<Rightarrow> network option" where
  "net_apply cc a s =
     (case a of
        NetStart c \<Rightarrow> Some (s\<lparr>nw_nodes := (nw_nodes s)(cfg_node_id c \<mapsto>
          \<lparr>nn_agent = agent_new c, nn_registers = True, nn_answer = None, nn_sources = Map.empty\<rparr>)\<rparr>)
      | NetAgent i x \<Rightarrow>
          (case nw_nodes s i of
             None \<Rightarrow> None
           | Some n \<Rightarrow>
               (if is_mesh_update x then None
                else Some (s\<lparr>nw_nodes := (nw_nodes s)(i :=
                  map_option (\<lambda>st. n\<lparr>nn_agent := st, nn_sources := sources_after x (nn_agent n) (nn_sources n)\<rparr>)
                    (agent_step x (nn_agent n)))\<rparr>)))
      | NetRegister i now arrives \<Rightarrow>
          (case nw_nodes s i of
             None \<Rightarrow> None
           | Some n \<Rightarrow>
               (if \<not> nn_registers n then None
                else Some (s\<lparr>nw_ctl := (if arrives then snd (controller_register cc now
                    (snd (register_request (ag_config (nn_agent n)))) (nw_ctl s)) else nw_ctl s),
                  nw_nodes := (nw_nodes s)(i \<mapsto> n\<lparr>nn_registers := False\<rparr>)\<rparr>)))
      | NetAsk i q \<Rightarrow>
          (case nw_nodes s i of
             None \<Rightarrow> None
           | Some n \<Rightarrow>
               (if nn_answer n \<noteq> None then None
                else case net_ask cc q (nn_agent n) (nw_ctl s) of
                  (resp, ct) \<Rightarrow> Some (s\<lparr>nw_ctl := ct, nw_nodes := (nw_nodes s)(i \<mapsto> n\<lparr>nn_answer := Some resp\<rparr>)\<rparr>)))
      | NetHear i now lk \<Rightarrow>
          (case nw_nodes s i of
             None \<Rightarrow> None
           | Some n \<Rightarrow>
               (case nn_answer n of
                  None \<Rightarrow> None
                | Some resp \<Rightarrow> Some (s\<lparr>nw_nodes := (nw_nodes s)(i :=
                    map_option (\<lambda>(again, st). n\<lparr>nn_agent := st, nn_registers := nn_registers n \<or> again,
                      nn_answer := None\<rparr>)
                      (handle_heartbeat now lk resp (nn_agent n)))\<rparr>)))
      | NetRemove i \<Rightarrow> Some (s\<lparr>nw_ctl := (nw_ctl s)\<lparr>ct_nodes := remove_node i (ct_nodes (nw_ctl s))\<rparr>\<rparr>)
      | NetStale now timeout \<Rightarrow>
          Some (s\<lparr>nw_ctl := (nw_ctl s)\<lparr>ct_nodes := remove_stale_nodes now timeout (ct_nodes (nw_ctl s))\<rparr>\<rparr>)
      | NetStatus i status \<Rightarrow>
          Some (s\<lparr>nw_ctl := (nw_ctl s)\<lparr>ct_nodes := set_node_status i status (ct_nodes (nw_ctl s))\<rparr>\<rparr>))"

definition net_init :: network where
  "net_init = \<lparr>nw_ctl = \<lparr>ct_nodes = Map.empty, ct_epoch = 0\<rparr>, nw_nodes = Map.empty\<rparr>"

fun net_run :: "controller_config \<Rightarrow> net_action list \<Rightarrow> network \<Rightarrow> network option" where
  "net_run cc [] s = Some s"
| "net_run cc (a # as) s = (case net_apply cc a s of Some s' \<Rightarrow> net_run cc as s' | None \<Rightarrow> None)"

text \<open>The role of a node: may others pull from it, is it itself configured with an upstream.\<close>

type_synonym role = "bool \<times> bool"

definition config_role :: "config \<Rightarrow> role" where
  "config_role c = (cfg_cascade_enabled c, is_cascade_node c)"

definition role_tier :: "role \<Rightarrow> nat" where
  "role_tier r = (if fst r \<and> \<not> snd r then 1 else 2)"

text \<open>
  The runs considered: the language's maps and sort do what they are documented to do, and
  every node keeps its role whenever it starts.
\<close>

definition net_allowed :: "(string \<Rightarrow> role) \<Rightarrow> net_action \<Rightarrow> bool" where
  "net_allowed roles a = (case a of
     NetStart c \<Rightarrow> config_role c = roles (cfg_node_id c)
   | NetAsk i q \<Rightarrow> sorts_by_hint (ce_sort (ask_env q)) \<and> map_order (ce_order (ask_env q))
   | _ \<Rightarrow> True)"

inductive net_reach :: "controller_config \<Rightarrow> (string \<Rightarrow> role) \<Rightarrow> network \<Rightarrow> bool" for cc roles where
  init: "net_reach cc roles net_init"
| step: "net_reach cc roles s \<Longrightarrow> net_allowed roles a \<Longrightarrow> net_apply cc a s = Some s' \<Longrightarrow> net_reach cc roles s'"

text \<open>A link: the upstream selected now, or the source of a relay made earlier.\<close>

definition pulls_from :: "network \<Rightarrow> string \<Rightarrow> string \<Rightarrow> bool" where
  "pulls_from s i j = (case nw_nodes s i of
     None \<Rightarrow> False
   | Some n \<Rightarrow> j \<in> ran (nn_sources n)
       \<or> (case sel_current_path (ag_selector (nn_agent n)) of Some p \<Rightarrow> cp_upstream_node_id p = j | None \<Rightarrow> False))"

section \<open>Invariants of the network\<close>

text \<open>
  What a property of each node and one of the controller must satisfy to hold in every
  reachable network: every message and every restart keeps them.
\<close>

locale network_laws =
  fixes cc :: controller_config and roles :: "string \<Rightarrow> role"
    and node_ok :: "string \<Rightarrow> net_node \<Rightarrow> bool" and ctl_ok :: "controller \<Rightarrow> bool"
  assumes initial: "ctl_ok \<lparr>ct_nodes = Map.empty, ct_epoch = 0\<rparr>"
    and start: "net_allowed roles (NetStart c) \<Longrightarrow> node_ok (cfg_node_id c)
      \<lparr>nn_agent = agent_new c, nn_registers = True, nn_answer = None, nn_sources = Map.empty\<rparr>"
    and agent: "node_ok i n \<Longrightarrow> \<not> is_mesh_update x \<Longrightarrow> agent_step x (nn_agent n) = Some st \<Longrightarrow>
      node_ok i (n\<lparr>nn_agent := st, nn_sources := sources_after x (nn_agent n) (nn_sources n)\<rparr>)"
    and register: "node_ok i n \<Longrightarrow> ctl_ok ct \<Longrightarrow>
      ctl_ok (snd (controller_register cc now (snd (register_request (ag_config (nn_agent n)))) ct))"
    and registered: "node_ok i n \<Longrightarrow> node_ok i (n\<lparr>nn_registers := False\<rparr>)"
    and ask: "net_allowed roles (NetAsk i q) \<Longrightarrow> node_ok i n \<Longrightarrow> ctl_ok ct \<Longrightarrow>
      net_ask cc q (nn_agent n) ct = (resp, ct') \<Longrightarrow> node_ok i (n\<lparr>nn_answer := Some resp\<rparr>) \<and> ctl_ok ct'"
    and hear: "node_ok i n \<Longrightarrow> nn_answer n = Some resp \<Longrightarrow>
      handle_heartbeat now lk resp (nn_agent n) = Some (again, st) \<Longrightarrow>
      node_ok i (n\<lparr>nn_agent := st, nn_registers := nn_registers n \<or> again, nn_answer := None\<rparr>)"
    and remove: "ctl_ok ct \<Longrightarrow> ctl_ok (ct\<lparr>ct_nodes := remove_node i (ct_nodes ct)\<rparr>)"
    and stale: "ctl_ok ct \<Longrightarrow> ctl_ok (ct\<lparr>ct_nodes := remove_stale_nodes now timeout (ct_nodes ct)\<rparr>)"
    and status: "ctl_ok ct \<Longrightarrow> ctl_ok (ct\<lparr>ct_nodes := set_node_status i node_status (ct_nodes ct)\<rparr>)"
begin

lemma ctl_kept:
  assumes "\<And>i n. nw_nodes s i = Some n \<Longrightarrow> node_ok i n" "ctl_ok (nw_ctl s)" "net_allowed roles a"
    "net_apply cc a s = Some s'"
  shows "ctl_ok (nw_ctl s')"
  using assms(2-4) register [OF assms(1)] ask [OF _ assms(1)]
  by (cases a) (auto simp: net_apply_def remove stale status split: option.splits if_splits prod.splits)

lemma nodes_kept:
  assumes "\<And>i n. nw_nodes s i = Some n \<Longrightarrow> node_ok i n" "ctl_ok (nw_ctl s)" "net_allowed roles a"
    "net_apply cc a s = Some s'" "nw_nodes s' i = Some n"
  shows "node_ok i n"
  using assms ask [OF _ assms(1)]
  by (cases a) (auto simp: net_apply_def start agent registered hear split: option.splits if_splits prod.splits)

lemma reach_ok:
  assumes "net_reach cc roles s"
  shows "ctl_ok (nw_ctl s) \<and> (\<forall>i n. nw_nodes s i = Some n \<longrightarrow> node_ok i n)"
  using assms
proof (induction rule: net_reach.induct)
  case init
  show ?case using initial by (simp add: net_init_def)
next
  case (step s a s')
  then show ?case using ctl_kept nodes_kept by blast
qed

end

section \<open>What an agent chooses among\<close>

definition offers :: "(string \<Rightarrow> bool) \<Rightarrow> mesh_map_response \<Rightarrow> bool" where
  "offers P resp \<longleftrightarrow> (\<forall>c \<in> set (candidate_upstreams resp). P (cu_node_id c))"

definition selector_within :: "(string \<Rightarrow> bool) \<Rightarrow> cascade_selector \<Rightarrow> bool" where
  "selector_within P s \<longleftrightarrow> (\<forall>resp. sel_last_mesh_response s = Some resp \<longrightarrow> offers P resp)
     \<and> (\<forall>p. sel_current_path s = Some p \<longrightarrow> P (cp_upstream_node_id p))"

lemma select_within:
  assumes "offers P resp" "select_from_candidates now lk s (candidate_upstreams resp) = Some p"
  shows "P (cp_upstream_node_id p)"
  using assms(2)
proof (rule select_Some)
  fix i assume "i < length (candidate_upstreams resp)"
    "p = path_of now s (probes_free lk i) (candidate_upstreams resp ! i)"
  with assms(1) show ?thesis by (simp add: offers_def path_of_def Let_def)
qed

lemma emergency_within: "selector_within P s \<Longrightarrow> selector_within P (emergency_switch now lk s)"
  by (auto simp: selector_within_def emergency_switch_def force_reselect_def apply_path_switch_def
      intro: select_within split: option.splits)

lemma update_mesh_map_within:
  assumes "selector_within P s" "offers P resp"
  shows "selector_within P (update_mesh_map now lk resp s)"
  by (cases rule: update_mesh_map_cases [of resp now lk s])
    (use assms in \<open>auto simp: selector_within_def force_reselect_def apply_path_switch_def adopt_policy_def
      intro: select_within\<close>)

lemma selector_step_within:
  assumes "selector_within P s" "\<not> is_mesh_update (SelectorOp x)"
  shows "selector_within P (selector_step x s)"
proof (cases x)
  case (OpMeshMap now lk resp)
  with assms(2) show ?thesis by (simp add: is_mesh_update_def)
next
  case (OpUpstreamFail now lk)
  have "selector_within P (s\<lparr>sel_upstream_consecutive_fails := n\<rparr>)" for n
    using assms(1) by (simp add: selector_within_def)
  with OpUpstreamFail show ?thesis by (simp add: report_upstream_fail_def Let_def emergency_within)
next
  case (OpMeshPing head clk now lk)
  have "selector_within P (s\<lparr>sel_probe_results := m\<rparr>)" for m
    using assms(1) by (simp add: selector_within_def)
  with OpMeshPing assms(1) show ?thesis
    by (auto simp: run_mesh_ping_def Let_def emergency_within split: option.split)
qed (use assms(1) in \<open>simp_all add: selector_within_def report_upstream_ok_def\<close>)

lemma relay_requests_keep:
  "get_or_create_flv_relay key st = Some (p, st') \<Longrightarrow> ag_config st' = ag_config st \<and> ag_selector st' = ag_selector st"
  "ag_config (snd (get_or_create_relay new_key key st)) = ag_config st"
  "ag_selector (snd (get_or_create_relay new_key key st)) = ag_selector st"
proof -
  show "get_or_create_flv_relay key st = Some (p, st') \<Longrightarrow>
    ag_config st' = ag_config st \<and> ag_selector st' = ag_selector st"
    by (drule created_flv) (auto simp: put_flv_def)
qed (simp_all add: get_or_create_relay_def Let_def split: option.split sum.split)

lemma agent_step_keeps:
  assumes "agent_step x st = Some st'"
  shows "ag_config st' = ag_config st" "ag_selector st' = ag_selector st \<or> (\<exists>y. x = SelectorOp y)"
proof (atomize (full), cases x)
  case (SelectorOp y)
  with assms show "ag_config st' = ag_config st \<and> (ag_selector st' = ag_selector st \<or> (\<exists>y. x = SelectorOp y))"
    by (auto simp: Let_def split: if_splits)
next
  case (FlvRequest key)
  with assms show "ag_config st' = ag_config st \<and> (ag_selector st' = ag_selector st \<or> (\<exists>y. x = SelectorOp y))"
    by (auto dest: relay_requests_keep(1))
next
  case (EncRequest key new_key)
  with assms show "ag_config st' = ag_config st \<and> (ag_selector st' = ag_selector st \<or> (\<exists>y. x = SelectorOp y))"
    by (auto simp: relay_requests_keep)
qed (use assms in \<open>auto simp: stop_all_relays_def split: if_splits\<close>)

lemma agent_step_within:
  assumes "selector_within P (ag_selector st)" "\<not> is_mesh_update x" "agent_step x st = Some st'"
  shows "selector_within P (ag_selector st')"
proof (cases "\<exists>y. x = SelectorOp y")
  case True
  then obtain y where "x = SelectorOp y" by blast
  with assms show ?thesis by (auto simp: Let_def selector_step_within split: if_splits)
qed (use assms agent_step_keeps(2) [OF assms(3)] in simp)

section \<open>The invariant of the network\<close>

definition may_pull :: "(string \<Rightarrow> role) \<Rightarrow> string \<Rightarrow> string \<Rightarrow> bool" where
  "may_pull roles i j \<longleftrightarrow> role_tier (roles i) = 2 \<and> role_tier (roles j) = 1"

interpretation tiers: upstream_order "may_pull roles" "\<lambda>i. role_tier (roles i)" for roles
  by unfold_locales (simp add: may_pull_def)

definition controller_inv :: "(string \<Rightarrow> role) \<Rightarrow> controller \<Rightarrow> bool" where
  "controller_inv roles ct \<longleftrightarrow> finite (dom (ct_nodes ct))
     \<and> (\<forall>j n. ct_nodes ct j = Some n \<longrightarrow> ni_node_id n = j
         \<and> (ni_cascade_enabled n, ni_cascade_upstream n) = roles j)"

definition answer_ok :: "(string \<Rightarrow> bool) \<Rightarrow> heartbeat_response \<Rightarrow> bool" where
  "answer_ok P resp \<longleftrightarrow> (\<forall>status m. resp = HeartbeatAnswer status (Some m) \<longrightarrow> offers P m)"

definition node_inv :: "(string \<Rightarrow> role) \<Rightarrow> string \<Rightarrow> net_node \<Rightarrow> bool" where
  "node_inv roles i n \<longleftrightarrow> cfg_node_id (ag_config (nn_agent n)) = i \<and> config_role (ag_config (nn_agent n)) = roles i
     \<and> selector_within (may_pull roles i) (ag_selector (nn_agent n))
     \<and> (\<forall>resp. nn_answer n = Some resp \<longrightarrow> answer_ok (may_pull roles i) resp)
     \<and> (\<forall>j \<in> ran (nn_sources n). may_pull roles i j)"

definition network_inv :: "(string \<Rightarrow> role) \<Rightarrow> network \<Rightarrow> bool" where
  "network_inv roles s \<longleftrightarrow> controller_inv roles (nw_ctl s)
     \<and> (\<forall>i n. nw_nodes s i = Some n \<longrightarrow> node_inv roles i n)"

lemma tier_of_entry: "(ni_cascade_enabled n, ni_cascade_upstream n) = r \<Longrightarrow> compute_tier n = int (role_tier r)"
  by (auto simp: compute_tier_def role_tier_def)

lemma mesh_map_offers:
  assumes "controller_inv roles ct" "sorts_by_hint (ce_sort env)" "map_order (ce_order env)"
    and "build_mesh_map_response cc env i ct = (Some m, ct')"
  shows "offers (may_pull roles i) m" "controller_inv roles ct'"
proof -
  from assms(4) obtain r where r: "ct_nodes ct i = Some r"
    and m: "candidate_upstreams m = mesh_candidates env (ct_nodes ct) i r" and ct': "ct_nodes ct' = ct_nodes ct"
    by (auto simp: build_mesh_map_response_def Let_def split: option.splits)
  show "controller_inv roles ct'" using assms(1) ct' by (simp add: controller_inv_def)
  have fin: "finite (dom (ct_nodes ct))" and entry: "\<And>j n. ct_nodes ct j = Some n \<Longrightarrow>
      ni_node_id n = j \<and> (ni_cascade_enabled n, ni_cascade_upstream n) = roles j"
    using assms(1) by (auto simp: controller_inv_def)
  show "offers (may_pull roles i) m"
    unfolding offers_def m
  proof
    fix c assume "c \<in> set (mesh_candidates env (ct_nodes ct) i r)"
    with assms(2,3) fin obtain n where n: "n \<in> ran (ct_nodes ct)" "compute_tier r = 2" "compute_tier n = 1"
      "build_candidate n 1 r = Some c" by (rule mesh_candidate)
    from n(1) obtain j where j: "ct_nodes ct j = Some n" by (auto simp: ran_def)
    have "cu_node_id c = j" using entry [OF j] candidate_fields(1) [OF n(4)] by simp
    moreover have "role_tier (roles i) = 2" "role_tier (roles j) = 1"
      using n(2,3) tier_of_entry [of r "roles i"] tier_of_entry [of n "roles j"] entry [OF r] entry [OF j] by simp_all
    ultimately show "may_pull roles i (cu_node_id c)" by (simp add: may_pull_def)
  qed
qed

lemma update_heartbeat_inv:
  "controller_inv roles ct \<Longrightarrow> update_heartbeat now hb (ct_nodes ct) = Some nodes \<Longrightarrow>
   controller_inv roles (ct\<lparr>ct_nodes := nodes\<rparr>)"
  by (auto simp: controller_inv_def update_heartbeat_def split: option.splits if_splits)

lemma controller_heartbeat_inv:
  assumes "controller_inv roles ct" "sorts_by_hint (ce_sort env)" "map_order (ce_order env)"
    and "controller_heartbeat cc env bearer hb ct = (resp, ct')"
  shows "answer_ok (may_pull roles (hb_node_id hb)) resp \<and> controller_inv roles ct'"
proof (cases "update_heartbeat (ce_now env) hb (ct_nodes ct)")
  case None
  with assms show ?thesis by (auto simp: controller_heartbeat_def answer_ok_def split: if_splits)
next
  case (Some nodes)
  let ?ct = "ct\<lparr>ct_nodes := nodes\<rparr>"
  have inv: "controller_inv roles ?ct" by (rule update_heartbeat_inv [OF assms(1) Some])
  obtain mesh ct'' where b: "build_mesh_map_response cc env (hb_node_id hb) ?ct = (mesh, ct'')" by force
  show ?thesis
  proof (cases mesh)
    case None
    with b have "ct'' = ?ct" by (auto simp: build_mesh_map_response_def Let_def split: option.splits)
    with assms(1,4) Some b None inv show ?thesis
      by (auto simp: controller_heartbeat_def answer_ok_def split: if_splits)
  next
    case (Some m)
    with b mesh_map_offers [OF inv assms(2,3)] have "offers (may_pull roles (hb_node_id hb)) m"
      "controller_inv roles ct''" by blast+
    with assms(1,4) \<open>update_heartbeat _ _ _ = _\<close> b Some show ?thesis
      by (auto simp: controller_heartbeat_def answer_ok_def split: if_splits)
  qed
qed

lemma net_ask_inv:
  assumes "controller_inv roles ct" "sorts_by_hint (ce_sort (ask_env q))" "map_order (ce_order (ask_env q))"
    and "net_ask cc q st ct = (resp, ct')"
  shows "answer_ok (may_pull roles (cfg_node_id (ag_config st))) resp \<and> controller_inv roles ct'"
proof -
  let ?hb = "snd (heartbeat_request (ask_head q) (ask_version q) (ask_relays q) (ask_pullers q) st)"
  obtain r c where h: "controller_heartbeat cc (ask_env q) (cfg_reg_token (ag_config st)) ?hb ct = (r, c)" by force
  have "hb_node_id ?hb = cfg_node_id (ag_config st)" by (simp add: heartbeat_request_def case_prod_unfold Let_def)
  with controller_heartbeat_inv [OF assms(1-3) h] assms(1,4) h show ?thesis
    by (auto simp: net_ask_def answer_ok_def split: delivery.splits heartbeat_response.splits)
qed

lemma register_node_inv:
  assumes "controller_inv roles ct" "roles (rp_node_id req) = (rp_cascade_enabled req, rp_cascade_upstream req)"
  shows "controller_inv roles (ct\<lparr>ct_nodes := register_node now req (ct_nodes ct)\<rparr>)"
proof -
  have "ni_node_id n = j \<and> (ni_cascade_enabled n, ni_cascade_upstream n) = roles j"
    if "register_node now req (ct_nodes ct) j = Some n" for j n
  proof (cases "j = rp_node_id req")
    case False
    with that assms(1) show ?thesis by (simp add: register_node_apply controller_inv_def)
  next
    case j: True
    show ?thesis
    proof (cases "ct_nodes ct j")
      case None
      with that j assms(2) show ?thesis by (auto simp: register_node_apply register_new_def)
    next
      case (Some e)
      with assms(1) have "ni_node_id e = j \<and> (ni_cascade_enabled e, ni_cascade_upstream e) = roles j"
        by (simp add: controller_inv_def)
      with that j Some show ?thesis by (auto simp: register_node_apply register_existing_def)
    qed
  qed
  with assms(1) show ?thesis by (simp add: controller_inv_def store_dom)
qed

lemma register_inv:
  assumes "controller_inv roles ct" "roles (cfg_node_id c) = config_role c"
  shows "controller_inv roles (snd (controller_register cc now (snd (register_request c)) ct))"
proof -
  let ?req = "snd (register_request c)"
  have "roles (rp_node_id ?req) = (rp_cascade_enabled ?req, rp_cascade_upstream ?req)"
    using assms(2) by (simp add: register_request_def config_role_def)
  from register_node_inv [OF assms(1) this] assms(1) show ?thesis
    unfolding controller_register_def by (simp del: prod.collapse)
qed

lemma removal_inv:
  assumes "controller_inv roles ct"
  shows "controller_inv roles (ct\<lparr>ct_nodes := remove_node i (ct_nodes ct)\<rparr>)"
    "controller_inv roles (ct\<lparr>ct_nodes := remove_stale_nodes now timeout (ct_nodes ct)\<rparr>)"
    "controller_inv roles (ct\<lparr>ct_nodes := set_node_status i st (ct_nodes ct)\<rparr>)"
  using assms
  by (auto simp: controller_inv_def store_dom)
    (auto simp: remove_node_def remove_stale_nodes_def set_node_status_def split: option.splits if_splits)

lemma hear_inv:
  assumes "node_inv roles i n" "nn_answer n = Some resp" "handle_heartbeat now lk resp (nn_agent n) = Some (again, st)"
  shows "node_inv roles i (n\<lparr>nn_agent := st, nn_registers := r, nn_answer := None\<rparr>)"
proof (cases "st = nn_agent n")
  case True
  with assms(1) show ?thesis by (simp add: node_inv_def)
next
  case False
  with assms(3) obtain status m where m: "resp = HeartbeatAnswer status (Some m)"
    "st = (nn_agent n)\<lparr>ag_selector := update_mesh_map now lk m (ag_selector (nn_agent n))\<rparr>"
    by (auto simp: handle_heartbeat_def Let_def split: heartbeat_response.splits option.splits if_splits)
  moreover from assms(1,2) m(1) have "offers (may_pull roles i) m" by (simp add: node_inv_def answer_ok_def)
  ultimately show ?thesis using assms(1) by (simp add: node_inv_def update_mesh_map_within)
qed

lemma agent_op_inv:
  assumes "node_inv roles i n" "\<not> is_mesh_update x" "agent_step x (nn_agent n) = Some st"
  shows "node_inv roles i (n\<lparr>nn_agent := st, nn_sources := sources_after x (nn_agent n) (nn_sources n)\<rparr>)"
proof -
  have "may_pull roles i j" if "j \<in> ran (sources_after x (nn_agent n) (nn_sources n))" for j
  proof (cases "j \<in> ran (nn_sources n)")
    case True
    with assms(1) show ?thesis by (simp add: node_inv_def)
  next
    case False
    with that obtain p where "sel_current_path (ag_selector (nn_agent n)) = Some p" "j = cp_upstream_node_id p"
      by (auto simp: sources_after_def ran_def split: agent_op.splits option.splits if_splits)
    with assms(1) show ?thesis by (simp add: node_inv_def selector_within_def)
  qed
  with assms agent_step_keeps(1) [OF assms(3)] agent_step_within [OF _ assms(2,3)] show ?thesis
    by (simp add: node_inv_def)
qed

lemma selector_new_within: "selector_within P (cascade_selector_new node region isp v6)"
  by (simp add: selector_within_def cascade_selector_new_def)

interpretation tier_laws: network_laws cc roles "node_inv roles" "controller_inv roles"
proof (unfold_locales, goal_cases)
  case (2 c)
  then show ?case by (simp add: net_allowed_def node_inv_def agent_new_def selector_new_within)
next
  case (6 i q n ct resp ct')
  with net_ask_inv [OF 6(3) _ _ 6(4)] show ?case by (simp add: net_allowed_def node_inv_def)
qed (simp_all add: controller_inv_def [of roles "\<lparr>ct_nodes = Map.empty, ct_epoch = 0\<rparr>"] agent_op_inv
    register_inv hear_inv removal_inv, simp_all add: node_inv_def register_inv)

lemma net_reach_inv: "net_reach cc roles s \<Longrightarrow> network_inv roles s"
  using tier_laws.reach_ok by (simp add: network_inv_def)

lemma pulls_allowed:
  assumes "net_reach cc roles s" "pulls_from s i j" shows "may_pull roles i j"
proof -
  from assms(2) obtain n where n: "nw_nodes s i = Some n" "j \<in> ran (nn_sources n)
      \<or> (\<exists>p. sel_current_path (ag_selector (nn_agent n)) = Some p \<and> cp_upstream_node_id p = j)"
    by (auto simp: pulls_from_def split: option.splits)
  from net_reach_inv [OF assms(1)] n(1) have "node_inv roles i n" by (simp add: network_inv_def)
  with n(2) show ?thesis by (auto simp: node_inv_def selector_within_def)
qed

text \<open>
  C28: The network has no loops. While every node keeps its role, at every moment and whatever
  is lost or late, a node pulls only from nodes of the tier above: the links, old and new
  together, have no cycle, no chain of two, and end at nodes that pull from the origin. That is
  the controller's doing: it holds even where the loop guard of the agents is skipped.
\<close>

theorem mesh_has_no_loops:
  assumes "net_reach cc roles s"
  shows "acyclic {(i, j). pulls_from s i j}
    \<and> (\<forall>i j. pulls_from s i j \<longrightarrow> i \<noteq> j \<and> role_tier (roles i) = 2 \<and> role_tier (roles j) = 1
        \<and> \<not> pulls_from s j k)"
proof -
  have "{(i, j). pulls_from s i j} \<subseteq> {(i, j). may_pull roles i j}"
    using pulls_allowed [OF assms] by blast
  then have "acyclic {(i, j). pulls_from s i j}" by (rule tiers.links_acyclic)
  moreover have "i \<noteq> j \<and> role_tier (roles i) = 2 \<and> role_tier (roles j) = 1 \<and> \<not> pulls_from s j k"
    if "pulls_from s i j" for i j
    using pulls_allowed [OF assms that] pulls_allowed [OF assms, of j k] by (auto simp: may_pull_def)
  ultimately show ?thesis by blast
qed

end
