(* ===== verification/Cascade_Roles.thy ===== *)
theory Cascade_Roles
  imports Cascade_Network
begin

text \<open>
  What the network does when the assumptions of Cascade_Network fail or do not help: a node
  that changes its role, which the controller does not notice (\<open>RegisterNode\<close> in
  internal/controller/store.go), and the load of an upstream, which the agents do not report.
\<close>

section \<open>A quiet network\<close>

text \<open>Nodes that differ in their id and in whether others may pull from them.\<close>

definition node_config :: "string \<Rightarrow> bool \<Rightarrow> config" where
  "node_config i e = default_config\<lparr>cfg_node_id := i, cfg_port := 80, cfg_cascade_enabled := e\<rparr>"

definition sample_cc :: controller_config where
  "sample_cc = \<lparr>cc_reg_token = ''change-me'', cc_origin_addr = ''http://origin:8080''\<rparr>"

definition by_name :: "node_store \<Rightarrow> node_info list" where
  "by_name nodes = map (\<lambda>i. the (nodes i)) (sorted_list_of_set (dom nodes))"

definition calm_env :: controller_env where
  "calm_env = \<lparr>ce_now = 0, ce_order = by_name, ce_cooling = (\<lambda>_. False),
     ce_sort = sort_key (\<lambda>c. - cu_score_hint c)\<rparr>"

lemma by_name_order: "map_order by_name"
  unfolding map_order_def iterates_def by_name_def
  by (intro allI impI exI [of _ "sorted_list_of_set (dom _)"] conjI) simp_all

lemma sort_key_sorts: "sorts_by_hint (sort_key (\<lambda>c. - cu_score_hint c))"
proof -
  have "sorted_wrt (\<lambda>c d. cu_score_hint d \<le> cu_score_hint c) (sort_key (\<lambda>c. - cu_score_hint c) cs)"
    for cs :: "candidate_upstream list"
    using sorted_sort_key [of "\<lambda>c. - cu_score_hint c" cs] by (simp add: sorted_map)
  then show ?thesis by (simp add: sorts_by_hint_def)
qed

definition calm_ask :: "flv_puller list \<Rightarrow> ask" where
  "calm_ask pullers = \<lparr>ask_head = (\<lambda>_. None), ask_version = ''0.1.0'', ask_relays = [], ask_pullers = pullers,
     ask_env = calm_env, ask_delivery = Delivered\<rparr>"

definition calm_locks :: lock_view where
  "calm_locks = \<lparr>guard_free = (\<lambda>_. True), probes_free = (\<lambda>_. True)\<rparr>"

text \<open>The entry of such a node: what it registered with, then its status.\<close>

definition entry :: "string \<Rightarrow> bool \<Rightarrow> node_status \<Rightarrow> node_info" where
  "entry i e st = (register_new 0 (snd (register_request (node_config i e))))\<lparr>ni_status := st\<rparr>"

lemma entry_fields [simp]:
  "ni_node_id (entry i e st) = i" "ni_status (entry i e st) = st" "ni_cascade_enabled (entry i e st) = e"
  "ni_cascade_upstream (entry i e st) = False" "ni_current_upstream (entry i e st) = []"
  "ni_last_hb (entry i e st) = 0" "ni_bw_used (entry i e st) = 0" "ni_bw_limit (entry i e st) = 10485760"
  "ni_loss_rate (entry i e st) = 0" "ni_cascade_egress_bw (entry i e st) = 0" "ni_children_count (entry i e st) = 0"
  by (simp_all add: entry_def register_new_def register_request_def node_config_def default_config_def
      is_cascade_node_def default_bw_limit_def)

lemma entry_compute_tier [simp]: "compute_tier (entry i e st) = (if e then 1 else 2)"
  by (simp add: compute_tier_def)

lemma registers:
  assumes "i \<noteq> []"
  shows "controller_register sample_cc 0 (snd (register_request (node_config i e))) ct =
    (200, ct\<lparr>ct_nodes := register_node 0 (snd (register_request (node_config i e))) (ct_nodes ct)\<rparr>)"
  using assms
  by (simp add: controller_register_def register_request_def node_config_def default_config_def sample_cc_def
      register_binds_def DEFAULT_NAME_def fits_int64_def default_bw_limit_def)

lemma register_entry:
  "nodes i = None \<Longrightarrow> register_node 0 (snd (register_request (node_config i e))) nodes = nodes(i \<mapsto> entry i e NodePending)"
  "nodes i = Some (entry i e' st) \<Longrightarrow> st \<noteq> NodeOffline \<Longrightarrow>
     register_node 0 (snd (register_request (node_config i e))) nodes = nodes"
proof -
  show "nodes i = None \<Longrightarrow> register_node 0 (snd (register_request (node_config i e))) nodes = nodes(i \<mapsto> entry i e NodePending)"
    by (simp add: register_node_def entry_def register_new_def register_request_def node_config_def)
  assume a: "nodes i = Some (entry i e' st)" "st \<noteq> NodeOffline"
  have "register_existing 0 (snd (register_request (node_config i e))) (entry i e' st) = entry i e' st"
    using a(2) by (simp add: register_existing_def entry_def register_new_def register_request_def node_config_def
        default_config_def)
  with a show "register_node 0 (snd (register_request (node_config i e))) nodes = nodes"
    by (auto simp: register_node_def register_request_def node_config_def)
qed

lemma heartbeat_entry:
  assumes "nodes i = Some (entry i e st)" "nn = agent_new (node_config i e')"
  shows "update_heartbeat 0 (snd (heartbeat_request (\<lambda>_. None) v [] [] nn)) nodes = Some (nodes(i \<mapsto> entry i e NodeOnline))"
  using assms
  by (simp add: update_heartbeat_def heartbeat_request_def agent_new_def node_config_def entry_def register_new_def
      register_request_def default_config_def json_number_def selector_stats_def cascade_selector_new_def)

section \<open>One node joins another\<close>

text \<open>What \<open>j\<close> is offered as, to a node of the same region.\<close>

definition offered :: "string \<Rightarrow> candidate_upstream" where
  "offered j = \<lparr>cu_node_id = j, cu_url = ''http://127.0.0.1/cascade/'' @ STREAM_KEY @ ''.flv'',
     cu_region = DEFAULT_NAME, cu_isp = DEFAULT_NAME, cu_tier = 1,
     cu_score_hint = mesh_node_score_v2 (entry j True NodeOnline) DEFAULT_NAME DEFAULT_NAME * 100,
     cu_max_children = 6, cu_current_children = 0, cu_bw_remaining_mbps = 2517 / 100,
     cu_allow_cascade = True, cu_has_ipv6 = False, cu_ipv6_url = []\<rparr>"

lemma build_offered: "build_candidate (entry j True NodeOnline) 1 (entry i False st) = Some (offered j)"
proof -
  have "\<lfloor>(10485760 * (30 / 100) / 125000) / 4 :: real\<rfloor> = 6" "\<lfloor>10485760 * (30 / 100) / 125000 * 100 + 1 / 2 :: real\<rfloor> = 2517"
    by (simp_all add: floor_eq_iff)
  then show ?thesis
    by (simp add: build_candidate_def offered_def go_round_def build_cascade_endpoint_url_def
        build_ipv6_cascade_url_def url_scheme_def)
      (simp add: entry_def register_new_def register_request_def node_config_def default_config_def)
qed

lemma offers_pair:
  assumes "nodes = [i \<mapsto> entry i False NodeOnline, j \<mapsto> entry j True NodeOnline]" "i \<noteq> j"
  shows "mesh_candidates calm_env nodes i (entry i False NodeOnline) = [offered j]"
proof -
  have "iterates (by_name nodes) nodes" using by_name_order assms(1) by (simp add: map_order_def)
  then obtain ks where ks: "distinct ks" "set ks = {i, j}" "by_name nodes = map (\<lambda>k. the (nodes k)) ks"
    using assms by (auto simp: iterates_def)
  have "length ks = 2" using distinct_card [OF ks(1)] ks(2) assms(2) by simp
  then obtain x y where "ks = [x, y]" by (auto simp: numeral_2_eq_2 length_Suc_conv)
  with ks(1,2) have "ks = [i, j] \<or> ks = [j, i]" by (auto simp: doubleton_eq_iff)
  with ks(3) assms show ?thesis
    by (auto simp: mesh_candidates_def calm_env_def get_healthy_nodes_def is_node_healthy_def
        List.map_filter_def build_offered)
qed

text \<open>
  A fresh node \<open>i\<close> sends a heartbeat to a controller that knows \<open>i\<close> and \<open>j\<close>, hears the
  answer and is asked for a stream: it pulls it from \<open>j\<close>.
\<close>

definition answer_to :: "u64 \<Rightarrow> string \<Rightarrow> string \<Rightarrow> mesh_map_response" where
  "answer_to epoch i j = \<lparr>mesh_epoch = epoch, self_node_id = i, mm_self_tier = 2, candidate_upstreams = [offered j],
     mm_origin_fallback = Some \<lparr>of_url = ''http://origin:8080/live/'' @ STREAM_KEY @ ''.flv'', of_priority = 999\<rparr>,
     mm_policy = Some mesh_policy_default, mm_migration_advice = None\<rparr>"

definition choice_of :: "string \<Rightarrow> cascade_selector" where
  "choice_of i = cascade_selector_new i DEFAULT_NAME DEFAULT_NAME False"

lemma asks:
  assumes "ct_nodes ct = [i \<mapsto> entry i False st, j \<mapsto> entry j True NodeOnline]" "i \<noteq> j" "i \<noteq> []"
  shows "net_ask sample_cc (calm_ask []) (agent_new (node_config i e)) ct =
    (HeartbeatAnswer 200 (Some (answer_to (ct_epoch ct + 1) i j)),
     ct\<lparr>ct_nodes := [i \<mapsto> entry i False NodeOnline, j \<mapsto> entry j True NodeOnline], ct_epoch := ct_epoch ct + 1\<rparr>)"
proof -
  let ?nn = "agent_new (node_config i e)"
  let ?hb = "snd (heartbeat_request (\<lambda>_. None) ''0.1.0'' [] [] ?nn)"
  let ?nodes = "[i \<mapsto> entry i False NodeOnline, j \<mapsto> entry j True NodeOnline]"
  have "ct_nodes ct i = Some (entry i False st)" using assms(1,2) by simp
  from heartbeat_entry [of "ct_nodes ct", OF this refl] assms(1,2)
  have up: "update_heartbeat 0 ?hb (ct_nodes ct) = Some ?nodes" by (simp add: fun_upd_twist)
  have hb: "hb_node_id ?hb = i" "heartbeat_binds ?hb"
    using assms(3)
    by (simp_all add: heartbeat_request_def heartbeat_binds_def agent_new_def node_config_def default_config_def
        fits_int64_def default_bw_limit_def Let_def)
  have tok: "validate_agent_token sample_cc (cfg_reg_token (ag_config ?nn))"
    by (simp add: validate_agent_token_def sample_cc_def agent_new_def node_config_def default_config_def
        str_trim_def is_ws_def)
  have trim: "trim_end_char ''http://origin:8080'' (CHR ''/'') = ''http://origin:8080''"
    by (simp add: trim_end_char_def)
  have "build_mesh_map_response sample_cc calm_env i (ct\<lparr>ct_nodes := ?nodes\<rparr>) =
      (Some (answer_to (ct_epoch ct + 1) i j), ct\<lparr>ct_nodes := ?nodes, ct_epoch := ct_epoch ct + 1\<rparr>)"
    using offers_pair [OF refl assms(2)] assms(2)
    by (simp add: build_mesh_map_response_def answer_to_def check_migration_advice_def sample_cc_def trim Let_def)
  with up hb tok show ?thesis
    by (simp add: net_ask_def calm_ask_def controller_heartbeat_def Let_def calm_env_def case_prod_unfold)
qed

lemma hears:
  assumes "i \<noteq> j" "log_prefix 8 j \<noteq> None"
  shows "\<exists>sel p. handle_heartbeat 0 calm_locks (HeartbeatAnswer 200 (Some (answer_to epoch i j)))
      (agent_new (node_config i e)) = Some (False, (agent_new (node_config i e))\<lparr>ag_selector := sel\<rparr>)
    \<and> sel_current_path sel = Some p \<and> cp_upstream_node_id p = j
    \<and> cp_upstream_url p = ''http://127.0.0.1/cascade/'' @ STREAM_KEY @ ''.flv''
    \<and> sel_last_mesh_response sel = Some (answer_to epoch i j)"
proof -
  let ?st = "agent_new (node_config i e)"
  let ?sel = "update_mesh_map 0 calm_locks (answer_to epoch i j) (ag_selector ?st)"
  have st: "ag_selector ?st = choice_of i"
    by (simp add: agent_new_def choice_of_def node_config_def default_config_def)
  have el: "eligible True (adopt_policy (answer_to epoch i j) (choice_of i)) (offered j)"
    using assms(1)
    by (simp add: eligible_def offered_def would_create_loop_def adopt_policy_def answer_to_def
        mesh_policy_default_def choice_of_def cascade_selector_new_def loop_guard_new_def)
  then have "select_from_candidates 0 calm_locks (adopt_policy (answer_to epoch i j) (choice_of i)) [offered j] =
      Some (path_of 0 (adopt_policy (answer_to epoch i j) (choice_of i)) True (offered j))"
    by (simp add: select_from_candidates_def calm_locks_def)
  then have "\<exists>p. sel_current_path ?sel = Some p \<and> cp_upstream_node_id p = j
      \<and> cp_upstream_url p = ''http://127.0.0.1/cascade/'' @ STREAM_KEY @ ''.flv''"
    unfolding st
    by (simp add: update_mesh_map_def upstream_offline_def answer_to_def check_hysteresis_def adopt_policy_def
        choice_of_def cascade_selector_new_def apply_path_switch_def path_of_def offered_def Let_def)
  then obtain p where p: "sel_current_path ?sel = Some p" "cp_upstream_node_id p = j"
    "cp_upstream_url p = ''http://127.0.0.1/cascade/'' @ STREAM_KEY @ ''.flv''" by blast
  then have "switch_logged ?sel" using assms(2) by (simp add: switch_logged_def)
  moreover have "sel_last_mesh_response ?sel = Some (answer_to epoch i j)"
    by (simp add: update_mesh_map_def case_prod_unfold Let_def)
  ultimately show ?thesis
    using p by (intro exI [of _ ?sel] exI [of _ p]) (simp add: handle_heartbeat_def Let_def)
qed

lemma live_logged:
  "log_prefix 8 ''live'' \<noteq> None" "log_prefix 20 (''http://127.0.0.1/cascade/'' @ STREAM_KEY @ ''.flv'') \<noteq> None"
  by (simp_all add: log_prefix_def slice_to_def char_boundary_def is_continuation_def)

lemma starts_stream:
  assumes "sel_current_path (ag_selector st) = Some p" "ag_flv_relays st = Map.empty"
    "cp_upstream_url p = ''http://127.0.0.1/cascade/'' @ STREAM_KEY @ ''.flv''"
  shows "\<exists>r. agent_step (FlvRequest ''live'') st = Some (put_flv ''live'' r st) \<and> fp_client_count r = 0"
  using assms live_logged
  by (intro exI [of _ "snd (puller_start (puller_with_backup ''live'' (flv_source ''live'' st)
      (map_option (\<lambda>url. str_replace url STREAM_KEY ''live'') (cfg_backup_origin_url (ag_config st)))
      (cfg_max_clients (ag_config st))))"])
    (auto simp: get_or_create_flv_relay_def put_flv_def current_upstream_url_def Let_def puller_start_def
      puller_with_backup_def)

lemma calm_pull:
  assumes "nw_nodes s i = Some n" "nn_agent n = agent_new (node_config i e)" "nn_answer n = None"
    "nn_sources n = Map.empty"
    "ct_nodes (nw_ctl s) = [i \<mapsto> entry i False st, j \<mapsto> entry j True NodeOnline]" "i \<noteq> j" "i \<noteq> []"
    "log_prefix 8 j \<noteq> None"
  shows "\<exists>s' n'. net_run sample_cc [NetAsk i (calm_ask []), NetHear i 0 calm_locks, NetAgent i (FlvRequest ''live'')] s
        = Some s'
    \<and> nw_nodes s' i = Some n' \<and> (\<forall>k. k \<noteq> i \<longrightarrow> nw_nodes s' k = nw_nodes s k) \<and> nn_sources n' = [''live'' \<mapsto> j] \<and> nn_registers n' = nn_registers n
    \<and> nn_answer n' = None \<and> ag_config (nn_agent n') = node_config i e \<and> ag_relays (nn_agent n') = Map.empty
    \<and> (\<exists>epoch. sel_last_mesh_response (ag_selector (nn_agent n')) = Some (answer_to epoch i j))
    \<and> (\<exists>r. ag_flv_relays (nn_agent n') = [''live'' \<mapsto> r] \<and> fp_client_count r = 0)
    \<and> ct_nodes (nw_ctl s') = [i \<mapsto> entry i False NodeOnline, j \<mapsto> entry j True NodeOnline]"
proof -
  let ?st = "agent_new (node_config i e)"
  let ?e = "ct_epoch (nw_ctl s) + 1"
  from hears [OF assms(6,8), of ?e] obtain sel p where h: "handle_heartbeat 0 calm_locks
      (HeartbeatAnswer 200 (Some (answer_to ?e i j))) ?st = Some (False, ?st\<lparr>ag_selector := sel\<rparr>)"
    "sel_current_path sel = Some p" "cp_upstream_node_id p = j"
    "cp_upstream_url p = ''http://127.0.0.1/cascade/'' @ STREAM_KEY @ ''.flv''"
    "sel_last_mesh_response sel = Some (answer_to ?e i j)" by blast
  have new: "ag_flv_relays ?st = Map.empty" "ag_relays ?st = Map.empty" "ag_config ?st = node_config i e"
    by (simp_all add: agent_new_def)
  from starts_stream [of "?st\<lparr>ag_selector := sel\<rparr>" p] h new obtain r where
    r: "agent_step (FlvRequest ''live'') (?st\<lparr>ag_selector := sel\<rparr>) = Some (put_flv ''live'' r (?st\<lparr>ag_selector := sel\<rparr>))"
      "fp_client_count r = 0"
    by auto
  show ?thesis
    using assms(1-4) asks [OF assms(5-7)] h r new
    by (simp add: net_apply_def sources_after_def is_mesh_update_def put_flv_def del: agent_step.simps) blast
qed

section \<open>Roles that change\<close>

lemma net_run_append:
  "net_run cc (xs @ ys) s = (case net_run cc xs s of Some s' \<Rightarrow> net_run cc ys s' | None \<Rightarrow> None)"
  by (induction xs arbitrary: s) (simp_all split: option.split)

lemma asks_unknown:
  assumes "ag_config st = node_config i e" "i \<noteq> []" "ct_nodes ct i = None" "fp_client_count r = 0"
  shows "net_ask sample_cc (calm_ask [r]) st ct = (HeartbeatAnswer 404 None, ct)"
proof -
  let ?hb = "snd (heartbeat_request (\<lambda>_. None) ''0.1.0'' [] [r] st)"
  have "hb_node_id ?hb = i" "heartbeat_binds ?hb"
    using assms
    by (simp_all add: heartbeat_request_def heartbeat_binds_def node_config_def default_config_def
        fits_int64_def default_bw_limit_def Let_def heartbeat_puller_def puller_client_count_def case_prod_unfold)
  moreover have "validate_agent_token sample_cc (cfg_reg_token (ag_config st))"
    using assms(1)
    by (simp add: validate_agent_token_def sample_cc_def node_config_def default_config_def str_trim_def is_ws_def)
  ultimately show ?thesis
    using assms(3)
    by (simp add: net_ask_def calm_ask_def controller_heartbeat_def Let_def calm_env_def case_prod_unfold
        update_heartbeat_def)
qed

text \<open>Both nodes come up: \<open>a\<close> serves others, \<open>b\<close> does not; then \<open>b\<close> restarts to serve others too.\<close>

definition coming_up :: "net_action list" where
  "coming_up = [NetStart (node_config ''a'' True), NetRegister ''a'' 0 True, NetStatus ''a'' NodeOnline,
     NetStart (node_config ''b'' False), NetRegister ''b'' 0 True,
     NetStart (node_config ''b'' True), NetRegister ''b'' 0 True]"

definition pulling :: "string \<Rightarrow> net_action list" where
  "pulling i = [NetAsk i (calm_ask []), NetHear i 0 calm_locks, NetAgent i (FlvRequest ''live'')]"

text \<open>
  The operator removes \<open>b\<close>, which registers again at its next heartbeat and is approved;
  \<open>a\<close> restarts not to serve others any more, after it was removed too.
\<close>

definition swapping :: "flv_puller \<Rightarrow> net_action list" where
  "swapping r = [NetRemove ''b'', NetAsk ''b'' (calm_ask [r]), NetHear ''b'' 0 calm_locks, NetRegister ''b'' 0 True,
     NetStatus ''b'' NodeOnline, NetStart (node_config ''a'' False), NetRemove ''a'', NetRegister ''a'' 0 True]"

lemma config_id [simp]: "cfg_node_id (node_config i e) = i" by (simp add: node_config_def)

lemma status_entry: "set_node_status i st' (nodes(i \<mapsto> entry i e st)) = nodes(i \<mapsto> entry i e st')"
  by (simp add: set_node_status_def entry_def)

lemma new_config [simp]: "ag_config (agent_new c) = c" by (simp add: agent_new_def)

lemma come_up:
  "\<exists>s n. net_run sample_cc coming_up net_init = Some s
    \<and> ct_nodes (nw_ctl s) = [''a'' \<mapsto> entry ''a'' True NodeOnline, ''b'' \<mapsto> entry ''b'' False NodePending]
    \<and> nw_nodes s ''b'' = Some n \<and> nn_agent n = agent_new (node_config ''b'' True) \<and> nn_answer n = None
    \<and> nn_sources n = Map.empty \<and> \<not> nn_registers n"
  by (simp add: coming_up_def net_apply_def net_init_def registers register_entry status_entry)

lemma swap_roles:
  assumes "ct_nodes (nw_ctl s) = [''b'' \<mapsto> entry ''b'' False NodeOnline, ''a'' \<mapsto> entry ''a'' True NodeOnline]"
    and n: "nw_nodes s ''b'' = Some n" "ag_config (nn_agent n) = node_config ''b'' True" "nn_answer n = None"
    and r: "fp_client_count r = 0"
  shows "\<exists>s' n' m. net_run sample_cc (swapping r) s = Some s'
    \<and> ct_nodes (nw_ctl s') = [''a'' \<mapsto> entry ''a'' False NodePending, ''b'' \<mapsto> entry ''b'' True NodeOnline]
    \<and> nw_nodes s' ''b'' = Some n' \<and> nn_agent n' = nn_agent n \<and> nn_sources n' = nn_sources n
    \<and> nw_nodes s' ''a'' = Some m \<and> nn_agent m = agent_new (node_config ''a'' False) \<and> nn_answer m = None
    \<and> nn_sources m = Map.empty"
proof -
  let ?ct = "(nw_ctl s)\<lparr>ct_nodes := [''a'' \<mapsto> entry ''a'' True NodeOnline]\<rparr>"
  have rm: "remove_node ''b'' [''b'' \<mapsto> entry ''b'' False NodeOnline, ''a'' \<mapsto> entry ''a'' True NodeOnline] =
      [''a'' \<mapsto> entry ''a'' True NodeOnline]"
    "remove_node ''a'' [''a'' \<mapsto> entry ''a'' True NodeOnline, ''b'' \<mapsto> entry ''b'' True NodeOnline] =
      [''b'' \<mapsto> entry ''b'' True NodeOnline]"
    by (simp_all add: remove_node_def fun_upd_twist)
  have ask: "net_ask sample_cc (calm_ask [r]) (nn_agent n) ?ct = (HeartbeatAnswer 404 None, ?ct)"
    by (rule asks_unknown [OF n(2) _ _ r]) simp_all
  have hear: "handle_heartbeat 0 calm_locks (HeartbeatAnswer 404 None) (nn_agent n) = Some (True, nn_agent n)"
    by (simp add: handle_heartbeat_def)
  have swap: "[''b'' \<mapsto> entry ''b'' True NodeOnline, ''a'' \<mapsto> entry ''a'' False NodePending] =
      [''a'' \<mapsto> entry ''a'' False NodePending, ''b'' \<mapsto> entry ''b'' True NodeOnline]"
    by (simp add: fun_upd_twist)
  show ?thesis
    using assms(1) n rm ask hear
    by (simp add: swapping_def net_apply_def registers register_entry status_entry swap)
qed


lemma net_run_reach:
  "net_run cc acts s = Some s' \<Longrightarrow> list_all (net_allowed roles) acts \<Longrightarrow> net_reach cc roles s \<Longrightarrow>
   net_reach cc roles s'"
  by (induction acts arbitrary: s) (auto split: option.splits intro: net_reach.step)

text \<open>The two nodes with their first roles, and \<open>b\<close> pulling.\<close>

lemma link_reached:
  "\<exists>s. net_reach sample_cc (\<lambda>i. (i = ''a'', False)) s \<and> pulls_from s ''b'' ''a''
    \<and> (\<exists>n epoch. nw_nodes s ''b'' = Some n
        \<and> sel_last_mesh_response (ag_selector (nn_agent n)) = Some (answer_to epoch ''b'' ''a''))"
proof -
  let ?up = "[NetStart (node_config ''a'' True), NetRegister ''a'' 0 True, NetStatus ''a'' NodeOnline,
    NetStart (node_config ''b'' False), NetRegister ''b'' 0 True]"
  have short: "log_prefix 8 ''a'' \<noteq> None" by (simp add: log_prefix_def slice_to_def char_boundary_def)
  obtain s1 n1 where s1: "net_run sample_cc ?up net_init = Some s1"
    "ct_nodes (nw_ctl s1) = [''a'' \<mapsto> entry ''a'' True NodeOnline, ''b'' \<mapsto> entry ''b'' False NodePending]"
    "nw_nodes s1 ''b'' = Some n1" "nn_agent n1 = agent_new (node_config ''b'' False)" "nn_answer n1 = None"
    "nn_sources n1 = Map.empty"
    by (simp add: net_apply_def net_init_def registers register_entry status_entry)
  have "ct_nodes (nw_ctl s1) = [''b'' \<mapsto> entry ''b'' False NodePending, ''a'' \<mapsto> entry ''a'' True NodeOnline]"
    unfolding s1(2) by (simp add: fun_upd_twist)
  from calm_pull [OF s1(3-6) this _ _ short] obtain s2 n2 epoch where s2: "net_run sample_cc (pulling ''b'') s1 = Some s2"
    "nw_nodes s2 ''b'' = Some n2" "nn_sources n2 = [''live'' \<mapsto> ''a'']"
    "sel_last_mesh_response (ag_selector (nn_agent n2)) = Some (answer_to epoch ''b'' ''a'')"
    unfolding pulling_def by auto
  have "net_run sample_cc (?up @ pulling ''b'') net_init = Some s2"
    by (simp only: net_run_append s1(1) option.case s2(1))
  moreover have "config_role (node_config i e) = (e, False)" for i e
    by (simp add: config_role_def node_config_def default_config_def is_cascade_node_def)
  then have "list_all (net_allowed (\<lambda>i. (i = ''a'', False))) (?up @ pulling ''b'')"
    by (simp add: pulling_def net_allowed_def calm_ask_def calm_env_def by_name_order sort_key_sorts)
  ultimately have "net_reach sample_cc (\<lambda>i. (i = ''a'', False)) s2" by (rule net_run_reach) (rule net_reach.init)
  moreover have "pulls_from s2 ''b'' ''a''" using s2(2,3) by (simp add: pulls_from_def ran_def)
  ultimately show ?thesis using s2(2,4) by blast
qed

theorem mesh_has_no_loops_witness:
  "\<exists>s. pulls_from s ''b'' ''a'' \<and> acyclic {(i, j). pulls_from s i j} \<and> \<not> pulls_from s ''a'' ''b''"
proof -
  from link_reached obtain s where "net_reach sample_cc (\<lambda>i. (i = ''a'', False)) s" "pulls_from s ''b'' ''a''" by blast
  with mesh_has_no_loops [of sample_cc "\<lambda>i. (i = ''a'', False)" s "''b''"] show ?thesis by blast
qed

section \<open>Load\<close>

text \<open>An entry that shows no load, as every entry of such a network does.\<close>

definition unloaded :: "node_info \<Rightarrow> bool" where
  "unloaded n \<longleftrightarrow> ni_bw_used n = 0 \<and> ni_children_count n = 0 \<and> ni_cascade_egress_bw n = 0 \<and> ni_loss_rate n = 0"

definition unloaded_map :: "mesh_map_response \<Rightarrow> bool" where
  "unloaded_map m \<longleftrightarrow> (\<forall>c \<in> set (candidate_upstreams m). cu_current_children c = 0)
     \<and> (\<forall>adv. mm_migration_advice m = Some adv \<longrightarrow> ma_reason adv = ''upstream_offline'')"

definition answer_unloaded :: "heartbeat_response \<Rightarrow> bool" where
  "answer_unloaded resp \<longleftrightarrow> (\<forall>status m. resp = HeartbeatAnswer status (Some m) \<longrightarrow> unloaded_map m)"

lemma mesh_map_unloaded:
  assumes "\<forall>n \<in> ran (ct_nodes ct). unloaded n" "finite (dom (ct_nodes ct))"
    "sorts_by_hint (ce_sort env)" "map_order (ce_order env)"
    and "build_mesh_map_response cc env i ct = (Some m, ct')"
  shows "unloaded_map m" "ct_nodes ct' = ct_nodes ct"
proof -
  from assms(5) obtain r where m: "candidate_upstreams m = mesh_candidates env (ct_nodes ct) i r"
    "mm_migration_advice m = check_migration_advice (ct_nodes ct) r (mesh_candidates env (ct_nodes ct) i r)"
    and "ct_nodes ct' = ct_nodes ct"
    by (auto simp: build_mesh_map_response_def Let_def split: option.splits)
  then show "ct_nodes ct' = ct_nodes ct" by blast
  have "cu_current_children c = 0" if "c \<in> set (mesh_candidates env (ct_nodes ct) i r)" for c
    using assms(3,4,2) that
  proof (rule mesh_candidate)
    fix n assume "n \<in> ran (ct_nodes ct)" "build_candidate n 1 r = Some c"
    with assms(1) candidate_fields(3) show ?thesis by (auto simp: unloaded_def)
  qed
  moreover have "ma_reason adv = ''upstream_offline''"
    if "check_migration_advice (ct_nodes ct) r cs = Some adv" for adv cs
    using that assms(1)
    by (auto simp: check_migration_advice_def unloaded_def ran_def split: option.splits if_splits)
  ultimately show "unloaded_map m" by (simp add: unloaded_map_def m)
qed

lemma ran_upd: "n \<in> ran (m(i := x)) \<Longrightarrow> n \<in> ran m \<or> x = Some n"
  by (auto simp: ran_def split: if_splits)

lemma entry_unloaded:
  assumes "\<forall>n \<in> ran nodes. unloaded n"
  shows "\<forall>n \<in> ran (register_node now req nodes). unloaded n"
    "\<forall>n \<in> ran (remove_node i nodes). unloaded n"
    "\<forall>n \<in> ran (remove_stale_nodes now timeout nodes). unloaded n"
    "\<forall>n \<in> ran (set_node_status i st nodes). unloaded n"
proof -
  have at: "unloaded n" if "nodes j = Some n" for j n using assms that by (auto simp: ran_def)
  show "\<forall>n \<in> ran (register_node now req nodes). unloaded n"
    using assms at
    by (auto simp: register_node_def register_existing_def register_new_def unloaded_def dest!: ran_upd
        split: option.splits)
  show "\<forall>n \<in> ran (remove_node i nodes). unloaded n"
    using assms by (auto simp: remove_node_def dest!: ran_upd)
  show "\<forall>n \<in> ran (remove_stale_nodes now timeout nodes). unloaded n"
    using at by (auto simp: remove_stale_nodes_def ran_def split: option.splits if_splits)
  show "\<forall>n \<in> ran (set_node_status i st nodes). unloaded n"
    using assms at by (auto simp: set_node_status_def unloaded_def dest!: ran_upd split: option.splits)
qed

text \<open>The agents' heartbeats carry no load.\<close>

lemma heartbeat_unloaded:
  assumes "\<forall>n \<in> ran nodes. unloaded n"
    "update_heartbeat now (snd (heartbeat_request head v rs ps st)) nodes = Some nodes'"
  shows "\<forall>n \<in> ran nodes'. unloaded n"
proof -
  let ?hb = "snd (heartbeat_request head v rs ps st)"
  have "hb_bw_used ?hb = 0" "hb_children_count ?hb = 0" "hb_cascade_egress_bw ?hb = 0" "hb_loss_rate ?hb = Fin 0"
    by (simp_all add: heartbeat_request_def case_prod_unfold Let_def)
  with assms show ?thesis
    by (auto simp: update_heartbeat_def unloaded_def json_number_def dest!: ran_upd split: option.splits)
qed

lemma ask_unloaded:
  assumes "\<forall>n \<in> ran (ct_nodes ct). unloaded n" "finite (dom (ct_nodes ct))"
    "sorts_by_hint (ce_sort (ask_env q))" "map_order (ce_order (ask_env q))" "net_ask cc q st ct = (resp, ct')"
  shows "answer_unloaded resp \<and> (\<forall>n \<in> ran (ct_nodes ct'). unloaded n)"
proof -
  let ?hb = "snd (heartbeat_request (ask_head q) (ask_version q) (ask_relays q) (ask_pullers q) st)"
  obtain r c where h: "controller_heartbeat cc (ask_env q) (cfg_reg_token (ag_config st)) ?hb ct = (r, c)" by force
  have "answer_unloaded r \<and> (\<forall>n \<in> ran (ct_nodes c). unloaded n)"
  proof (cases "update_heartbeat (ce_now (ask_env q)) ?hb (ct_nodes ct)")
    case None
    with h assms(1) show ?thesis by (auto simp: controller_heartbeat_def answer_unloaded_def split: if_splits)
  next
    case (Some nodes)
    let ?ct = "ct\<lparr>ct_nodes := nodes\<rparr>"
    have u: "\<forall>n \<in> ran (ct_nodes ?ct). unloaded n" using heartbeat_unloaded [OF assms(1) Some] by simp
    have f: "finite (dom (ct_nodes ?ct))" using store_dom(2) [OF assms(2) Some] by simp
    obtain mesh ct'' where b: "build_mesh_map_response cc (ask_env q) (hb_node_id ?hb) ?ct = (mesh, ct'')" by force
    have "(\<forall>m. mesh = Some m \<longrightarrow> unloaded_map m) \<and> (\<forall>n \<in> ran (ct_nodes ct''). unloaded n)"
    proof (cases mesh)
      case None
      with b u show ?thesis by (auto simp: build_mesh_map_response_def Let_def split: option.splits)
    next
      case (Some m)
      with b mesh_map_unloaded [OF u f assms(3,4)] u show ?thesis by force
    qed
    with h assms(1) Some b show ?thesis
      by (auto simp: controller_heartbeat_def answer_unloaded_def split: if_splits)
  qed
  with assms(1,5) h show ?thesis
    by (auto simp: net_ask_def answer_unloaded_def split: delivery.splits heartbeat_response.splits)
qed

lemma net_ask_dom:
  assumes "finite (dom (ct_nodes ct))" "net_ask cc q st ct = (resp, ct')"
  shows "finite (dom (ct_nodes ct'))"
  using assms store_dom(2) [OF assms(1)]
  by (auto simp: net_ask_def controller_heartbeat_def build_mesh_map_response_def Let_def
      split: delivery.splits heartbeat_response.splits option.splits if_splits prod.splits)

lemma step_keeps_map:
  "\<not> is_mesh_update (SelectorOp x) \<Longrightarrow> sel_last_mesh_response (selector_step x s) = sel_last_mesh_response s"
  by (cases x) (auto simp: is_mesh_update_def report_upstream_ok_def report_upstream_fail_def emergency_switch_def
      force_reselect_def apply_path_switch_def run_mesh_ping_def Let_def split: option.split)

lemma agent_keeps_map:
  assumes "\<not> is_mesh_update x" "agent_step x st = Some st'"
  shows "sel_last_mesh_response (ag_selector st') = sel_last_mesh_response (ag_selector st)"
proof (cases "\<exists>y. x = SelectorOp y")
  case True
  then obtain y where "x = SelectorOp y" by blast
  with assms show ?thesis by (auto simp: Let_def step_keeps_map split: if_splits)
qed (use agent_step_keeps(2) [OF assms(2)] in auto)

lemma heard_map:
  "handle_heartbeat now lk resp st = Some (again, st') \<Longrightarrow>
   sel_last_mesh_response (ag_selector st') = sel_last_mesh_response (ag_selector st)
   \<or> (\<exists>status m. resp = HeartbeatAnswer status (Some m) \<and> sel_last_mesh_response (ag_selector st') = Some m)"
  by (auto simp: handle_heartbeat_def Let_def update_mesh_map_def case_prod_unfold
      split: heartbeat_response.splits option.splits if_splits)

definition node_unloaded :: "net_node \<Rightarrow> bool" where
  "node_unloaded n \<longleftrightarrow> (\<forall>resp. nn_answer n = Some resp \<longrightarrow> answer_unloaded resp)
     \<and> (\<forall>m. sel_last_mesh_response (ag_selector (nn_agent n)) = Some m \<longrightarrow> unloaded_map m)"

definition ctl_unloaded :: "controller \<Rightarrow> bool" where
  "ctl_unloaded ct \<longleftrightarrow> finite (dom (ct_nodes ct)) \<and> (\<forall>n \<in> ran (ct_nodes ct). unloaded n)"

interpretation load_laws: network_laws cc roles "\<lambda>_. node_unloaded" ctl_unloaded
proof (unfold_locales, goal_cases)
  case (2 c)
  show ?case by (simp add: node_unloaded_def agent_new_def cascade_selector_new_def)
next
  case (4 i n ct now)
  let ?nodes = "register_node now (snd (register_request (ag_config (nn_agent n)))) (ct_nodes ct)"
  from 4(2) have "\<forall>k \<in> ran ?nodes. unloaded k" by (intro entry_unloaded(1)) (simp add: ctl_unloaded_def)
  with 4(2) show ?case by (auto simp: ctl_unloaded_def controller_register_def store_dom(1))
next
  case (6 i q n ct resp ct')
  with ask_unloaded [OF _ _ _ _ 6(4)] net_ask_dom [OF _ 6(4)] show ?case
    by (simp add: net_allowed_def ctl_unloaded_def node_unloaded_def)
next
  case (7 i n resp now lk again st)
  with heard_map [OF 7(3)] show ?case by (auto simp: node_unloaded_def answer_unloaded_def)
next
  case (8 ct i)
  then show ?case using entry_unloaded(2) [of "ct_nodes ct" i] by (simp add: ctl_unloaded_def store_dom(3))
next
  case (9 ct now timeout)
  then show ?case using entry_unloaded(3) [of "ct_nodes ct" now timeout] by (simp add: ctl_unloaded_def store_dom(4))
next
  case (10 ct i st)
  then show ?case using entry_unloaded(4) [of "ct_nodes ct" i st] by (simp add: ctl_unloaded_def store_dom(5))
qed (simp_all add: ctl_unloaded_def node_unloaded_def agent_keeps_map)

lemma net_reach_unloaded: "net_reach cc roles s \<Longrightarrow> nw_nodes s i = Some n \<Longrightarrow> node_unloaded n"
  using load_laws.reach_ok by blast



end
