(* ===== verification/Cascade_Source.thy ===== *)
theory Cascade_Source
  imports Cascade_Network
begin

text \<open>
  From the mesh map to the request the upstream gets: the URL template the controller offers
  (mesh.go, \<open>buildCascadeEndpointURL\<close>), the agent's substitution of the stream key (main.rs,
  \<open>get_or_create_flv_relay\<close>) and the other agent's reading of the request head (main.rs,
  \<open>handle_http_flv_connection\<close>) fit together.
\<close>

section \<open>The template\<close>

lemma replace_once:
  assumes "c \<notin> set a" "c \<notin> set b"
  shows "str_replace (a @ (c # p) @ b) (c # p) r = a @ r @ b"
proof -
  have "\<not> str_contains b (c # p)" using assms(2) by (induction b) (auto simp: prefix_Cons)
  with assms(1) show ?thesis by (induction a) (auto simp: replace_absent)
qed

lemma digit_char_plain: "n < 10 \<Longrightarrow> digit_char n \<noteq> CHR ''{''"
  using digit_value_char [of n] by (auto simp: digit_value_def)

lemma nat_str_plain: "CHR ''{'' \<notin> set (nat_str n)"
proof (induction n rule: nat_str.induct)
  case (1 n)
  then show ?case using digit_char_plain [of n] digit_char_plain [of "n mod 10"]
    by (auto simp: nat_str.simps [of n])
qed

lemma endpoint_template:
  assumes "CHR ''{'' \<notin> set (ni_public_ipv6 n)" "CHR ''{'' \<notin> set (ni_public_ip n)"
  shows "\<exists>host. CHR ''{'' \<notin> set host
    \<and> build_cascade_endpoint_url n = (host @ ''/cascade/'') @ STREAM_KEY @ ''.flv''"
  using assms by (auto simp: build_cascade_endpoint_url_def url_scheme_def Let_def nat_str_plain)

lemma template_filled:
  assumes "CHR ''{'' \<notin> set a" "CHR ''{'' \<notin> set b"
  shows "str_replace (a @ STREAM_KEY @ b) STREAM_KEY key = a @ key @ b"
  using replace_once [OF assms, of "''stream_key}''" key] by (simp add: STREAM_KEY_def)

section \<open>The request\<close>

text \<open>
  An agent that follows an offer of the controller asks for the path \<open>/cascade/<key>.flv\<close>
  of the offered host, and the upstream takes exactly that key from the request and treats it
  as a cascade pull, whatever headers come with it.
\<close>

theorem offered_source_names_stream:
  assumes "build_candidate n tier r = Some c" "current_upstream_url (ag_selector st) = Some (cu_url c)"
    and "CHR ''{'' \<notin> set (ni_public_ipv6 n)" "CHR ''{'' \<notin> set (ni_public_ip n)"
    and "\<forall>x \<in> set key. \<not> is_ws x" "\<not> suffix ''.flv'' key" "\<not> prefix ''/cascade/'' key" "key \<noteq> []"
    and "\<forall>h \<in> set hs. \<not> is_blank_line h"
  shows "\<exists>host. flv_source key st = host @ ''/cascade/'' @ key @ ''.flv''
    \<and> flv_request_head (Some (''GET /cascade/'' @ key @ ''.flv HTTP/1.1'' @ [CR, NL]) # map Some hs @ Some [CR, NL] # rest)
      = Some (Stream key True)"
proof -
  from endpoint_template [OF assms(3,4)] obtain host where
    h: "CHR ''{'' \<notin> set host" "cu_url c = (host @ ''/cascade/'') @ STREAM_KEY @ ''.flv''"
    using candidate_fields(5) [OF assms(1)] by auto
  have "flv_source key st = (host @ ''/cascade/'') @ key @ ''.flv''"
    using assms(2) h template_filled [of "host @ ''/cascade/''" "''.flv''" key] by (simp add: flv_source_def)
  moreover have "str_contains (''GET /cascade/'' @ key @ ''.flv HTTP/1.1'' @ [CR, NL]) ''/cascade/''" by simp
  ultimately show ?thesis
    using request_head_lines [OF assms(9)] stream_key_cascade [OF assms(5-7)] assms(8)
    by (intro exI [of _ host]) simp
qed

end
