(* ===== verification/Unit_Tests_Media.thy ===== *)
theory Unit_Tests_Media
  imports Packet_Drop Protocol Playlist Backoff Rust_Str
begin

text \<open>
  The crate's own unit tests, the \<open>mod tests\<close> of relay/gop_cache.rs, relay/packet_drop.rs,
  relay/flv_output.rs, relay/flv.rs, protocol/mod.rs, relay/mod.rs and relay/backoff.rs, on the
  definitions of this development: each test is a definition, true when every assertion of
  the test holds, with the constants of the source. That the model passes them ties it to the
  behaviour its authors checked.
\<close>

section \<open>The GOP cache\<close>

definition gop_video_tag :: "u8 \<Rightarrow> u8 \<Rightarrow> u8 \<Rightarrow> string \<Rightarrow> flv_tag" where
  "gop_video_tag frame_type codec_id avc_packet_type d =
     \<lparr>tag_type = Video, timestamp_ms = 0,
      tag_data = [push_bit 4 frame_type OR codec_id, avc_packet_type] @ str_bytes d, tag_origin_ts = 0\<rparr>"

definition gop_audio_tag :: "u8 \<Rightarrow> u8 \<Rightarrow> string \<Rightarrow> flv_tag" where
  "gop_audio_tag sound_format aac_packet_type d =
     \<lparr>tag_type = Audio, timestamp_ms = 0,
      tag_data = [push_bit 4 sound_format OR 0x0F, aac_packet_type] @ str_bytes d, tag_origin_ts = 0\<rparr>"

definition script_tag :: flv_tag where
  "script_tag = \<lparr>tag_type = Script, timestamp_ms = 0, tag_data = str_bytes ''onMetaData'', tag_origin_ts = 0\<rparr>"

definition add_tags :: "flv_tag list \<Rightarrow> gop_cache \<Rightarrow> gop_cache" where
  "add_tags tags c = fold gop_add_tag tags c"

definition test_parse_video_frame_types :: bool where
  "test_parse_video_frame_types \<longleftrightarrow>
     parse_video_frame_type (gop_video_tag 1 7 1 ''idr_data'') = VKeyframe
     \<and> parse_video_frame_type (gop_video_tag 2 7 1 ''p_data'') = VInterFrame
     \<and> parse_video_frame_type (gop_video_tag 1 7 0 ''sps_pps'') = VSeqHeader"

definition test_parse_audio_frame_types :: bool where
  "test_parse_audio_frame_types \<longleftrightarrow>
     parse_audio_frame_type (gop_audio_tag 10 0 ''aac_config'') = ASeqHeader
     \<and> parse_audio_frame_type (gop_audio_tag 10 1 ''aac_frame'') = ARawData
     \<and> parse_audio_frame_type (gop_audio_tag 2 0 ''mp3_data'') = AOther"

definition test_gop_cache_basic :: bool where
  "test_gop_cache_basic \<longleftrightarrow>
     (let c1 = gop_add_tag script_tag (gop_cache_new gop_cache_config_default);
          c2 = gop_add_tag (gop_audio_tag 10 0 ''config'') c1;
          c3 = gop_add_tag (gop_video_tag 1 7 0 ''sps_pps'') c2;
          c4 = gop_add_tag (gop_video_tag 1 7 1 ''idr1'') c3;
          c5 = add_tags [gop_video_tag 2 7 1 ''p1'', gop_audio_tag 10 1 ''aac1''] c4;
          c6 = gop_add_tag (gop_video_tag 1 7 1 ''idr2'') c5;
          c7 = gop_add_tag (gop_video_tag 2 7 1 ''p2'') c6;
          tags = get_startup_tags c7
      in gc_metadata c1 \<noteq> None \<and> aac_seq_header c2 \<noteq> None \<and> video_seq_header c3 \<noteq> None
         \<and> current_gop c4 \<noteq> None \<and> length (gop_ring c6) = 1 \<and> current_gop c6 \<noteq> None
         \<and> length tags \<ge> 7
         \<and> tag_type (tags ! 0) = Script \<and> tag_type (tags ! 1) = Audio \<and> tag_type (tags ! 2) = Video)"

definition test_gop_cache_ring_eviction :: bool where
  "test_gop_cache_ring_eviction \<longleftrightarrow>
     (let group = [gop_video_tag 1 7 1 ''idr'', gop_video_tag 2 7 1 ''p''];
          c = add_tags (group @ group @ group) (gop_cache_new \<lparr>gop_count = 2, max_frames_per_gop = 4096\<rparr>)
      in length (gop_ring (finalize_current_gop c)) = 2)"

definition test_gop_cache_empty :: bool where
  "test_gop_cache_empty \<longleftrightarrow>
     (let c = gop_cache_new gop_cache_config_default in gop_cache_is_empty c \<and> get_startup_tags c = [])"

definition test_gop_cache_no_keyframe_drops_frames :: bool where
  "test_gop_cache_no_keyframe_drops_frames \<longleftrightarrow>
     (let c1 = gop_add_tag (gop_video_tag 2 7 1 ''orphan_p'') (gop_cache_new gop_cache_config_default);
          c2 = gop_add_tag (gop_audio_tag 10 1 ''orphan_aac'') c1;
          c3 = add_tags [script_tag, gop_video_tag 1 7 0 ''sps_pps'', gop_audio_tag 10 0 ''aac_config''] c2
      in gop_cache_is_empty c1 \<and> gop_cache_is_empty c2
         \<and> gc_metadata c3 \<noteq> None \<and> video_seq_header c3 \<noteq> None \<and> aac_seq_header c3 \<noteq> None)"

definition test_gop_cache_stats :: bool where
  "test_gop_cache_stats \<longleftrightarrow>
     (let c = add_tags [script_tag, gop_video_tag 1 7 0 ''sps_pps'', gop_audio_tag 10 0 ''config'',
                gop_video_tag 1 7 1 ''idr'', gop_video_tag 2 7 1 ''p1'', gop_audio_tag 10 1 ''aac1'']
                (gop_cache_new gop_cache_config_default);
          stats = gop_stats c
      in has_metadata stats \<and> has_video_seq_header stats \<and> has_aac_seq_header stats \<and> st_total_tags stats = 6)"

lemma gop_cache_tests:
  "test_parse_video_frame_types" "test_parse_audio_frame_types" "test_gop_cache_basic"
  "test_gop_cache_ring_eviction" "test_gop_cache_empty" "test_gop_cache_no_keyframe_drops_frames"
  "test_gop_cache_stats"
  by code_simp+

section \<open>Packet dropping\<close>

definition drop_video_tag :: "u8 \<Rightarrow> u8 \<Rightarrow> u8 \<Rightarrow> flv_tag" where
  "drop_video_tag frame_type codec_id avc_packet_type =
     \<lparr>tag_type = Video, timestamp_ms = 0,
      tag_data = [push_bit 4 frame_type OR codec_id, avc_packet_type, 0xAA], tag_origin_ts = 0\<rparr>"

definition drop_audio_tag :: "u8 \<Rightarrow> u8 \<Rightarrow> flv_tag" where
  "drop_audio_tag sound_format aac_packet_type =
     \<lparr>tag_type = Audio, timestamp_ms = 0,
      tag_data = [push_bit 4 sound_format OR 0x0F, aac_packet_type, 0xBB], tag_origin_ts = 0\<rparr>"

definition test_priority_keyframe_never_dropped :: bool where
  "test_priority_keyframe_never_dropped \<longleftrightarrow>
     \<not> should_drop (drop_video_tag 1 7 1) 100 drop_policy_default
     \<and> \<not> should_drop (drop_video_tag 1 7 0) 100 drop_policy_default"

definition test_priority_pframe_dropped_on_any_pressure :: bool where
  "test_priority_pframe_dropped_on_any_pressure \<longleftrightarrow>
     (let pframe = drop_video_tag 2 7 1
      in \<not> should_drop pframe 0 drop_policy_default \<and> should_drop pframe 1 drop_policy_default
         \<and> should_drop pframe 100 drop_policy_default)"

definition test_priority_audio_not_dropped_by_default :: bool where
  "test_priority_audio_not_dropped_by_default \<longleftrightarrow>
     (let aac_raw = drop_audio_tag 10 1
      in \<not> should_drop aac_raw 1 drop_policy_default \<and> \<not> should_drop aac_raw 100 drop_policy_default)"

definition test_priority_audio_dropped_when_enabled :: bool where
  "test_priority_audio_dropped_when_enabled \<longleftrightarrow>
     (let aac_raw = drop_audio_tag 10 1; policy = drop_policy_default\<lparr>drop_audio_enabled := True\<rparr>
      in \<not> should_drop aac_raw 10 policy \<and> should_drop aac_raw 51 policy)"

definition test_metadata_never_dropped :: bool where
  "test_metadata_never_dropped \<longleftrightarrow> \<not> should_drop script_tag 1000 drop_policy_default"

definition test_backpressure_tracker :: bool where
  "test_backpressure_tracker \<longleftrightarrow>
     (let pframe = drop_video_tag 2 7 1; keyframe = drop_video_tag 1 7 1;
          (d1, t1) = tracker_should_drop tracker_with_default_policy pframe;
          (d2, t2) = tracker_should_drop (report_lag 5 t1) pframe;
          (d3, t3) = tracker_should_drop t2 keyframe;
          (d4, t4) = tracker_should_drop ((relieve_pressure ^^ 5) t3) pframe;
          stats = tracker_stats t4
      in \<not> d1 \<and> d2 \<and> \<not> d3 \<and> \<not> d4 \<and> bs_total_drops stats = 1 \<and> bs_drop_rate stats > 0)"

definition test_severe_pressure_detection :: bool where
  "test_severe_pressure_detection \<longleftrightarrow>
     (let t = tracker_new (drop_policy_default\<lparr>medium_pressure_threshold := 50\<rparr>);
          t1 = report_lag 30 t
      in \<not> is_severe_pressure t1 \<and> is_severe_pressure (report_lag 51 t1))"

definition test_aac_seq_header_never_dropped :: bool where
  "test_aac_seq_header_never_dropped \<longleftrightarrow>
     \<not> should_drop (drop_audio_tag 10 0) 100 (drop_policy_default\<lparr>drop_audio_enabled := True\<rparr>)"

lemma packet_drop_tests:
  "test_priority_keyframe_never_dropped" "test_priority_pframe_dropped_on_any_pressure"
  "test_priority_audio_not_dropped_by_default" "test_priority_audio_dropped_when_enabled"
  "test_metadata_never_dropped" "test_severe_pressure_detection" "test_aac_seq_header_never_dropped"
  by code_simp+

lemma backpressure_test: "test_backpressure_tracker"
  by code_simp

section \<open>FLV\<close>

definition test_flv_header :: bool where
  "test_flv_header \<longleftrightarrow>
     (let header = build_flv_header
      in length header = 13 \<and> take 3 header = str_bytes ''FLV'' \<and> header ! 3 = 1 \<and> header ! 4 = 5
         \<and> get_u32 (subslice 5 9 header) = 9 \<and> get_u32 (subslice 9 13 header) = 0)"

definition test_flv_tag_wire_video :: bool where
  "test_flv_tag_wire_video \<longleftrightarrow>
     (let tag = \<lparr>tag_type = Video, timestamp_ms = 1234, tag_data = str_bytes ''fake_video_data'', tag_origin_ts = 0\<rparr>;
          wire = build_flv_tag_wire tag
      in wire ! 0 = 0x09
         \<and> get_u24 (wire ! 1) (wire ! 2) (wire ! 3) = 15
         \<and> get_flv_timestamp (wire ! 4) (wire ! 5) (wire ! 6) (wire ! 7) = 1234
         \<and> wire ! 8 = 0 \<and> wire ! 9 = 0 \<and> wire ! 10 = 0
         \<and> subslice 11 26 wire = str_bytes ''fake_video_data''
         \<and> get_u32 (subslice 26 30 wire) = 26)"

definition test_flv_tag_wire_large_timestamp :: bool where
  "test_flv_tag_wire_large_timestamp \<longleftrightarrow>
     (let ts = 0x01001234 :: u32;
          wire = build_flv_tag_wire \<lparr>tag_type = Audio, timestamp_ms = ts, tag_data = str_bytes ''audio'', tag_origin_ts = 0\<rparr>
      in get_u24 (wire ! 4) (wire ! 5) (wire ! 6) = ts AND 0xFFFFFF
         \<and> (ucast (wire ! 7) :: u32) = drop_bit 24 ts AND 0xFF)"

definition test_flv_header_parse :: bool where
  "test_flv_header_parse \<longleftrightarrow>
     (let header = [0x46, 0x4C, 0x56, 0x01, 0x05, 0x00, 0x00, 0x00, 0x09] :: bytes
      in take 3 header = str_bytes ''FLV'' \<and> header ! 3 = 1 \<and> header ! 4 = 5)"

definition test_flv_tag_header_parse :: bool where
  "test_flv_tag_header_parse \<longleftrightarrow>
     (let h = [0x09] @ [0x00, 0x00, 0x64] @ [0x00, 0x04, 0xD2] @ [0x00] @ [0x00, 0x00, 0x00] :: bytes
      in flv_tag_type_try_from (h ! 0) = Inr Video
         \<and> get_u24 (h ! 1) (h ! 2) (h ! 3) = 100
         \<and> get_flv_timestamp (h ! 4) (h ! 5) (h ! 6) (h ! 7) = 1234)"

lemma flv_tests:
  "test_flv_header" "test_flv_tag_wire_video" "test_flv_tag_wire_large_timestamp" "test_flv_header_parse"
  "test_flv_tag_header_parse"
  by code_simp+

section \<open>Frames\<close>

text \<open>\<open>unwrap().unwrap()\<close>: the test fails on an error and on an incomplete frame.\<close>

definition test_frame_encode_decode_v3 :: bool where
  "test_frame_encode_decode_v3 \<longleftrightarrow>
     (let original = frame_new Data 42 (str_bytes ''hello world'');
          encoded = frame_encode original
      in encoded ! 2 = PROTOCOL_VERSION
         \<and> (case frame_decode encoded of
              Inr (Some (decoded, consumed)) \<Rightarrow> consumed = length encoded \<and> fr_version decoded = PROTOCOL_VERSION
                \<and> fr_type decoded = Data \<and> fr_seq decoded = 42 \<and> fr_payload decoded = str_bytes ''hello world''
            | _ \<Rightarrow> False))"

definition test_frame_with_origin_ts :: bool where
  "test_frame_with_origin_ts \<longleftrightarrow>
     (let encoded = frame_encode (frame_new_with_ts Data 1 1700000000000 (str_bytes ''test''))
      in case frame_decode encoded of
           Inr (Some (decoded, n)) \<Rightarrow> fr_origin_ts decoded = 1700000000000 | _ \<Rightarrow> False)"

definition test_frame_decoder_incremental :: bool where
  "test_frame_decoder_incremental \<longleftrightarrow>
     (let combined = frame_encode (frame_new Data 1 (str_bytes ''first''))
            @ frame_encode (frame_new Data 2 (str_bytes ''second''));
          d0 = fold (\<lambda>b d. decoder_feed d [b]) combined decoder_new;
          (r1, d1) = decoder_decode d0;
          (r2, d2) = decoder_decode d1;
          (r3, d3) = decoder_decode d2
      in (case r1 of Inr (Some f) \<Rightarrow> fr_seq f = 1 | _ \<Rightarrow> False)
         \<and> (case r2 of Inr (Some f) \<Rightarrow> fr_seq f = 2 | _ \<Rightarrow> False)
         \<and> r3 = Inr None)"

definition test_heartbeat_frame :: bool where
  "test_heartbeat_frame \<longleftrightarrow>
     (let f = frame_heartbeat 99 in fr_type f = Heartbeat \<and> fr_seq f = 99 \<and> fr_payload f = [])"

definition test_invalid_magic :: bool where
  "test_invalid_magic \<longleftrightarrow>
     (case frame_decode [0xFF, 0xFF, 0x03, 0x01, 0x00, 0, 0, 0, 0, 0, 0, 0, 0, 0, 0, 0, 0, 0, 0, 0, 0] of
        Inl e \<Rightarrow> True | Inr r \<Rightarrow> False)"

lemma decode_own:
  assumes "fr_version f = PROTOCOL_VERSION" "length (fr_payload f) \<le> 100"
  shows "frame_decode (frame_encode f @ rest) = Inr (Some (f, length (frame_encode f)))"
    "frame_decode (frame_encode f) = Inr (Some (f, length (frame_encode f)))"
  using assms decode_encode [of f rest] decode_encode [of f "[]"]
  by (simp_all add: PROTOCOL_VERSION_def MAX_FRAME_SIZE_def)

lemma fed_bytewise: "fd_buffer (fold (\<lambda>b d. decoder_feed d [b]) bs d) = fd_buffer d @ bs"
  by (induction bs arbitrary: d) (simp_all add: decoder_feed_def)

lemma frame_tests:
  "test_frame_encode_decode_v3" "test_frame_with_origin_ts" "test_frame_decoder_incremental"
  "test_heartbeat_frame" "test_invalid_magic"
proof -
  have small: "length (str_bytes t) \<le> 100" if "length t \<le> 100" for t using that by (simp add: str_bytes_def)
  show "test_frame_encode_decode_v3"
    by (simp add: test_frame_encode_decode_v3_def Let_def decode_own small frame_new_def)
      (simp add: frame_encode_def MAGIC_def)
  show "test_frame_with_origin_ts"
    by (simp add: test_frame_with_origin_ts_def Let_def decode_own small frame_new_with_ts_def)
  show "test_frame_decoder_incremental"
    by (simp add: test_frame_decoder_incremental_def Let_def decoder_decode_def fed_bytewise decoder_new_def
        decode_own small frame_new_def) (simp add: frame_decode_def HEADER_SIZE_def)
  show "test_heartbeat_frame" by (simp add: test_heartbeat_frame_def frame_heartbeat_def frame_new_def)
  show "test_invalid_magic" by (simp add: test_invalid_magic_def frame_decode_def protocol_consts)
qed

section \<open>The playlist\<close>

definition test_parse_m3u8 :: bool where
  "test_parse_m3u8 \<longleftrightarrow>
     (case parse_m3u8
        (concat (map (\<lambda>l. l @ [NL])
          [''#EXTM3U'', ''#EXT-X-VERSION:3'', ''#EXT-X-TARGETDURATION:2'', ''#EXT-X-MEDIA-SEQUENCE:100'',
           ''#EXTINF:2.000,'', ''stream-100.ts'', ''#EXTINF:2.000,'', ''stream-101.ts'',
           ''#EXTINF:2.000,'', ''stream-102.ts'']))
        ''http://origin/live/test/stream.m3u8'' of
        None \<Rightarrow> False
      | Some parsed \<Rightarrow>
          target_duration parsed = Fin 2 \<and> media_sequence parsed = 100 \<and> length (m3u8_segments parsed) = 3
          \<and> seg_seq (m3u8_segments parsed ! 0) = 100 \<and> seg_duration (m3u8_segments parsed ! 0) = Fin 2
          \<and> seg_url (m3u8_segments parsed ! 0) = ''http://origin/live/test/stream-100.ts'')"

section \<open>Backoff\<close>

text \<open>The seed of the generator is that of the process, so any.\<close>

definition test_token_bucket_immediate :: "u64 \<Rightarrow> bool" where
  "test_token_bucket_immediate seed \<longleftrightarrow>
     fst (tb_consume 0 1000 (token_bucket_new 1000000, seed)) = Some 0"

definition test_token_bucket_overflow :: "u64 \<Rightarrow> bool" where
  "test_token_bucket_overflow seed \<longleftrightarrow>
     (case fst (tb_consume 0 1000 (token_bucket_new 100, seed)) of
        Some wait \<Rightarrow> \<lfloor>wait * 1000\<rfloor> > 0 | None \<Rightarrow> False)"

definition test_backoff_increasing :: "u64 \<Rightarrow> bool" where
  "test_backoff_increasing seed \<longleftrightarrow>
     (let (d1, b1) = backoff_next (backoff_new 1 60, seed);
          (d2, b2) = backoff_next b1;
          (d3, b3) = backoff_next b2
      in case (d1, d2, d3) of
           (Some d1, Some d2, Some d3) \<Rightarrow> d2 > d1 \<and> d3 > d2
         | _ \<Rightarrow> False)"

definition test_backoff_reset :: "u64 \<Rightarrow> bool" where
  "test_backoff_reset seed \<longleftrightarrow>
     (let (d1, b1) = backoff_next (backoff_new 1 60, seed);
          (d2, (b2, s)) = backoff_next b1
      in backoff_attempt b2 = 2 \<and> backoff_attempt (backoff_reset b2) = 0)"

lemma backoff_two:
  "backoff_next (backoff_new 1 60, seed) = (Some (jittered 1 seed), (backoff_new 1 60)\<lparr>bo_attempt := 1\<rparr>, xorshift64 seed)"
  "backoff_next ((backoff_new 1 60)\<lparr>bo_attempt := 1\<rparr>, seed') =
     (Some (jittered 2 seed'), (backoff_new 1 60)\<lparr>bo_attempt := 2\<rparr>, xorshift64 seed')"
  "backoff_next ((backoff_new 1 60)\<lparr>bo_attempt := 2\<rparr>, seed') =
     (Some (jittered 4 seed'), (backoff_new 1 60)\<lparr>bo_attempt := 3\<rparr>, xorshift64 seed')"
proof -
  have ok: "backoff_ok ((backoff_new 1 60)\<lparr>bo_attempt := n\<rparr>)" for n
    by (simp add: backoff_ok_def backoff_new_def)
  have new: "(backoff_new 1 60)\<lparr>bo_attempt := 0\<rparr> = backoff_new 1 60" by (simp add: backoff_new_def)
  show "backoff_next (backoff_new 1 60, seed) = (Some (jittered 1 seed), (backoff_new 1 60)\<lparr>bo_attempt := 1\<rparr>, xorshift64 seed)"
    using backoff_next_eq [OF ok [of 0], of seed] by (simp add: new backoff_base_def backoff_new_def)
  show "backoff_next ((backoff_new 1 60)\<lparr>bo_attempt := 1\<rparr>, seed') =
     (Some (jittered 2 seed'), (backoff_new 1 60)\<lparr>bo_attempt := 2\<rparr>, xorshift64 seed')"
    using backoff_next_eq [OF ok [of 1], of seed'] by (simp add: backoff_base_def backoff_new_def)
  show "backoff_next ((backoff_new 1 60)\<lparr>bo_attempt := 2\<rparr>, seed') =
     (Some (jittered 4 seed'), (backoff_new 1 60)\<lparr>bo_attempt := 3\<rparr>, xorshift64 seed')"
    using backoff_next_eq [OF ok [of 2], of seed'] by (simp add: backoff_base_def backoff_new_def)
qed

lemma backoff_tests: "test_backoff_increasing seed" "test_backoff_reset seed"
proof -
  show "test_backoff_reset seed"
    by (simp add: test_backoff_reset_def backoff_two backoff_attempt_def backoff_reset_def)
  have "jittered 1 s < jittered 2 t" "jittered 2 s < jittered 4 t" for s t
    using jittered_bounds(2) [of 1 s] jittered_bounds(1) [of 2 t] jittered_bounds(2) [of 2 s] jittered_bounds(1) [of 4 t]
    by simp_all
  then show "test_backoff_increasing seed"
    by (simp add: test_backoff_increasing_def backoff_two)
qed

lemma token_bucket_tests: "test_token_bucket_immediate seed" "test_token_bucket_overflow seed"
proof -
  have nums: "u64_as_f64 1000 = Fin 1000" "u64_as_f64 100 = Fin 100" "u64_as_f64 1000000 = Fin 1000000"
    by (simp_all add: u64_as_f64_def)
  show "test_token_bucket_immediate seed"
    by (simp add: test_token_bucket_immediate_def tb_consume_def tb_refill_def token_bucket_new_def nums)
  define w where "w = 9 + 9 * (prng_real seed * (15 / 100) * 2 - 15 / 100)"
  have w: "7 \<le> w" "w \<le> 11" using prng_real_bounds [of seed] by (simp_all add: w_def)
  have "tb_consume 0 1000 (token_bucket_new 100, seed) =
      (duration_from_secs_f64 (Fin (max w 0)), (token_bucket_new 100)\<lparr>tb_tokens := Fin 0\<rparr>, xorshift64 seed)"
    by (simp add: tb_consume_def tb_refill_def token_bucket_new_def nums pseudo_random_eq w_def)
  then show "test_token_bucket_overflow seed" using w by (simp add: test_token_bucket_overflow_def max_def)
qed

section \<open>The test of the playlist\<close>

lemma parse_two: "parse_f64 ''2.000'' = Some (Fin 2)" "parse_f64 [] = None"
proof -
  have "split_sign ''2.000'' = (False, ''2.000'')" "str_lower ''2.000'' = ''2.000''"
    "takeWhile is_digit ''2.000'' = ''2''" "dropWhile is_digit ''2.000'' = ''.000''"
    "takeWhile is_digit ''000'' = ''000''" "dropWhile is_digit ''000'' = []"
    by code_simp+
  moreover have "digits_from 0 ''2000'' = Some 2000" by (simp add: digit_value_def)
  ultimately show "parse_f64 ''2.000'' = Some (Fin 2)"
    by (simp add: parse_f64_def parse_exponent_def power_int_minus)
qed (simp add: parse_f64_def split_sign_def str_lower_def)

text \<open>The target duration: the digit is lost to the slice, and the default happens to be 2.\<close>

lemma target_line: "m3u8_line b ''#EXT-X-TARGETDURATION:2'' st = Some st"
proof -
  have "str_trim ''#EXT-X-TARGETDURATION:2'' = ''#EXT-X-TARGETDURATION:2''"
    "str_starts_with ''#EXT-X-TARGETDURATION:2'' TARGETDURATION"
    "slice_from 23 ''#EXT-X-TARGETDURATION:2'' = Some []"
    by code_simp+
  then show ?thesis by (simp add: m3u8_line_def parse_two)
qed

lemma extinf_line: "m3u8_line b ''#EXTINF:2.000,'' st = Some (st\<lparr>ms_current_duration := Fin 2\<rparr>)"
proof -
  have "str_trim ''#EXTINF:2.000,'' = ''#EXTINF:2.000,''" "\<not> str_starts_with ''#EXTINF:2.000,'' TARGETDURATION"
    "\<not> str_starts_with ''#EXTINF:2.000,'' MEDIA_SEQUENCE" "str_starts_with ''#EXTINF:2.000,'' EXTINF"
    "slice_from 8 ''#EXTINF:2.000,'' = Some ''2.000,''" "trim_end_char ''2.000,'' (CHR '','') = ''2.000''"
    by code_simp+
  then show ?thesis by (simp add: m3u8_line_def parse_two)
qed

lemma other_lines:
  "m3u8_line b ''#EXTM3U'' st = Some st" "m3u8_line b ''#EXT-X-VERSION:3'' st = Some st"
  "m3u8_line b ''#EXT-X-MEDIA-SEQUENCE:100'' st =
     Some (st\<lparr>ms_info := (ms_info st)\<lparr>media_sequence := 100\<rparr>, ms_seq_counter := 100\<rparr>)"
proof -
  show "m3u8_line b ''#EXTM3U'' st = Some st" "m3u8_line b ''#EXT-X-VERSION:3'' st = Some st" by code_simp+
  have "str_trim ''#EXT-X-MEDIA-SEQUENCE:100'' = ''#EXT-X-MEDIA-SEQUENCE:100''"
    "\<not> str_starts_with ''#EXT-X-MEDIA-SEQUENCE:100'' TARGETDURATION"
    "str_starts_with ''#EXT-X-MEDIA-SEQUENCE:100'' MEDIA_SEQUENCE"
    "slice_from 22 ''#EXT-X-MEDIA-SEQUENCE:100'' = Some ''100''"
    by code_simp+
  moreover have "parse_u64 ''100'' = Some 100"
    by (simp add: parse_u64_def parse_nat_def digit_value_def)
  ultimately show "m3u8_line b ''#EXT-X-MEDIA-SEQUENCE:100'' st =
     Some (st\<lparr>ms_info := (ms_info st)\<lparr>media_sequence := 100\<rparr>, ms_seq_counter := 100\<rparr>)"
    by (simp add: m3u8_line_def)
qed

lemma uri_line:
  assumes "good_uri u"
  shows "m3u8_line b u st = Some (st\<lparr>ms_info := (ms_info st)\<lparr>m3u8_segments := m3u8_segments (ms_info st) @
      [\<lparr>seg_url = resolve_url b u, seg_duration = ms_current_duration st, seg_seq = ms_seq_counter st\<rparr>]\<rparr>,
    ms_seq_counter := ms_seq_counter st + 1, ms_current_duration := Fin 0\<rparr>)"
proof -
  have "str_trim u = u" using assms by (simp add: good_uri_def)
  then show ?thesis by (simp add: m3u8_line_uri [OF good_uri_line [OF assms]])
qed

lemma playlist_test: "test_parse_m3u8"
proof -
  let ?ls = "[''#EXTM3U'', ''#EXT-X-VERSION:3'', ''#EXT-X-TARGETDURATION:2'', ''#EXT-X-MEDIA-SEQUENCE:100'',
    ''#EXTINF:2.000,'', ''stream-100.ts'', ''#EXTINF:2.000,'', ''stream-101.ts'', ''#EXTINF:2.000,'', ''stream-102.ts'']"
  have lines: "str_lines (concat (map (\<lambda>l. l @ [NL]) ?ls)) = ?ls"
    unfolding unlines_def [symmetric]
    by (rule str_lines_unlines) (simp add: plain_line_def is_ws_def)
  have good: "good_uri ''stream-100.ts''" "good_uri ''stream-101.ts''" "good_uri ''stream-102.ts''"
    by (simp_all add: good_uri_def plain_line_def is_ws_def)
  have url: "resolve_url ''http://origin/live/test/stream.m3u8'' ''stream-100.ts'' = ''http://origin/live/test/stream-100.ts''"
    by code_simp
  show ?thesis
    unfolding test_parse_m3u8_def parse_m3u8_def lines
    by (simp add: target_line extinf_line other_lines uri_line [OF good(1)] uri_line [OF good(2)] uri_line [OF good(3)]
        m3u8_start_def url)
qed


end
