(* ===== verification/Transport.thy ===== *)
theory Transport
  imports Protocol Crypto Write_Once
begin

text \<open>
  The pluggable transports, agent-rust/src/transport/registry.rs: the registry of
  factories and the plain WebSocket connection that carries protocol frames. The
  WebSocket library is outside: \<open>connect_async\<close> and the result of a \<open>send\<close> are arguments,
  and what \<open>receiver.next()\<close> yields is the connection's list of incoming events. An event
  list that has run out means that \<open>next()\<close> is still waiting.
\<close>

section \<open>Types\<close>

datatype transport_error =
    ConnectionFailed string
  | SendFailed string
  | RecvFailed string
  | NotConnected
  | UnsupportedTransport string
  | RegistrationFailed string
  | TimedOut string
  | TlsHandshakeFailed string

fun transport_error_str :: "transport_error \<Rightarrow> string" where
  "transport_error_str (ConnectionFailed s) = ''connection failed: '' @ s"
| "transport_error_str (SendFailed s) = ''send failed: '' @ s"
| "transport_error_str (RecvFailed s) = ''recv failed: '' @ s"
| "transport_error_str NotConnected = ''not connected''"
| "transport_error_str (UnsupportedTransport s) = ''unsupported transport: '' @ s"
| "transport_error_str (RegistrationFailed s) = ''registration failed: '' @ s"
| "transport_error_str (TimedOut s) = ''timeout: '' @ s"
| "transport_error_str (TlsHandshakeFailed s) = ''TLS handshake failed: '' @ s"

datatype transport_type = PlainWS | Reality | Hysteria2 | GRPC

fun transport_type_str :: "transport_type \<Rightarrow> string" where
  "transport_type_str PlainWS = ''plain-ws''"
| "transport_type_str Reality = ''reality''"
| "transport_type_str Hysteria2 = ''hysteria2''"
| "transport_type_str GRPC = ''grpc''"

definition transport_type_from_str :: "string \<Rightarrow> transport_type option" where
  "transport_type_from_str s =
     (if s = ''plain-ws'' \<or> s = ''ws'' then Some PlainWS
      else if s = ''reality'' then Some Reality
      else if s = ''hysteria2'' then Some Hysteria2
      else if s = ''grpc'' then Some GRPC
      else None)"

record transport_config =
  tc_transport_type :: transport_type
  tc_address :: string
  tc_path :: string
  tc_tls_enabled :: bool
  tc_reality_private_key :: "string option"
  tc_reality_short_id :: "string option"
  tc_reality_server_names :: "string list option"
  tc_reality_public_key :: "string option"

section \<open>The switch command\<close>

text \<open>
  The command by which a controller would switch the transport of an agent; \<open>serde_json\<close> is an
  argument, of which the crate relies on reading back what it wrote.
\<close>

record transport_switch_command =
  tsc_target_transport :: transport_type
  tsc_config :: transport_config
  tsc_deadline_secs :: u32
  tsc_reason :: string

record switch_json =
  sj_to_string :: "transport_switch_command \<Rightarrow> string option"
  sj_from_str :: "string \<Rightarrow> string + transport_switch_command"

definition switch_to_json :: "switch_json \<Rightarrow> transport_switch_command \<Rightarrow> string" where
  "switch_to_json J cmd = (case sj_to_string J cmd of Some s \<Rightarrow> s | None \<Rightarrow> [])"

definition switch_from_json :: "switch_json \<Rightarrow> string \<Rightarrow> string + transport_switch_command" where
  "switch_from_json J json = sj_from_str J json"

definition json_roundtrips :: "switch_json \<Rightarrow> bool" where
  "json_roundtrips J \<longleftrightarrow> (\<forall>cmd. \<exists>s. sj_to_string J cmd = Some s \<and> sj_from_str J s = Inr cmd)"

lemma switch_json_roundtrip: "json_roundtrips J \<Longrightarrow> switch_from_json J (switch_to_json J cmd) = Inr cmd"
  unfolding json_roundtrips_def switch_from_json_def switch_to_json_def by (auto dest: spec [of _ cmd])

section \<open>The registry\<close>

text \<open>A factory is a trait object: its methods as the fields of a record.\<close>

record 'conn transport_factory =
  tf_transport_type :: transport_type
  tf_dial :: "transport_config \<Rightarrow> transport_error + 'conn"
  tf_requires_security_layer :: bool
  tf_default_port :: nat

type_synonym 'conn transport_registry = "transport_type \<Rightarrow> 'conn transport_factory option"

definition registry_new :: "'conn transport_registry" where
  "registry_new = (\<lambda>_. None)"

definition registry_register :: "'conn transport_factory \<Rightarrow> 'conn transport_registry
    \<Rightarrow> (transport_error + unit) \<times> 'conn transport_registry" where
  "registry_register factory r =
     (let tt = tf_transport_type factory
      in if r tt \<noteq> None
         then (Inl (RegistrationFailed (''transport type '' @ transport_type_str tt
                 @ '' already registered'')), r)
         else (Inr (), r(tt := Some factory)))"

definition registry_get :: "'conn transport_registry \<Rightarrow> transport_type \<Rightarrow> 'conn transport_factory option" where
  "registry_get r tt = r tt"

definition list_registered :: "'conn transport_registry \<Rightarrow> transport_type set" where
  "list_registered r = {tt. r tt \<noteq> None}"

definition registry_dial :: "'conn transport_registry \<Rightarrow> transport_config \<Rightarrow> transport_error + 'conn" where
  "registry_dial r config =
     (case registry_get r (tc_transport_type config) of
        None \<Rightarrow> Inl (UnsupportedTransport (transport_type_str (tc_transport_type config) @ '' not registered''))
      | Some factory \<Rightarrow> tf_dial factory config)"

section \<open>The plain WebSocket connection\<close>

datatype ws_message = WsText string | WsBinary bytes | WsPing bytes | WsPong bytes | WsClose

datatype ws_event = WsMsg ws_message | WsError string | WsEnd

record plain_ws_conn =
  pw_sent :: "ws_message list"
  pw_incoming :: "ws_event list"
  pw_connected :: bool

text \<open>\<open>Display\<close> of the frame decoder's errors; \<open>{:#04x}\<close> is \<open>0x\<close> and two digits.\<close>

definition hex04 :: "u8 \<Rightarrow> string" where
  "hex04 b = ''0x'' @ hex_encode [b]"

fun protocol_error_str :: "protocol_error \<Rightarrow> string" where
  "protocol_error_str (InvalidMagic a b) =
     ''invalid magic bytes: expected HT, got '' @ hex04 a @ '' '' @ hex04 b"
| "protocol_error_str (UnsupportedVersion a b) =
     ''unsupported protocol version: '' @ nat_str (unat a) @ '', expected '' @ nat_str (unat b)"
| "protocol_error_str (InvalidFrameType a) = ''invalid frame type: '' @ nat_str (unat a)"
| "protocol_error_str (PayloadTooLarge n) = ''payload too large: '' @ nat_str n @ '' bytes''"
| "protocol_error_str (IncompleteFrame n h) =
     ''incomplete frame: need '' @ nat_str n @ '' bytes, have '' @ nat_str h"
| "protocol_error_str (Io e) = ''IO error: '' @ e"

definition ws_url :: "transport_config \<Rightarrow> string" where
  "ws_url config = (if tc_tls_enabled config then ''wss'' else ''ws'') @ ''://''
     @ tc_address config @ tc_path config"

text \<open>\<open>connect_async\<close>: what the handshake with that URL gives, an error or the peer's events.\<close>

definition conn_connect :: "(string \<Rightarrow> string + ws_event list) \<Rightarrow> transport_config
    \<Rightarrow> transport_error + plain_ws_conn" where
  "conn_connect connect_async config =
     (case connect_async (ws_url config) of
        Inl e \<Rightarrow> Inl (ConnectionFailed (''WS connect to '' @ ws_url config @ '': '' @ e))
      | Inr events \<Rightarrow> Inr \<lparr>pw_sent = [], pw_incoming = events, pw_connected = True\<rparr>)"

definition plain_ws_factory :: "(string \<Rightarrow> string + ws_event list) \<Rightarrow> plain_ws_conn transport_factory" where
  "plain_ws_factory connect_async = \<lparr>tf_transport_type = PlainWS, tf_dial = conn_connect connect_async,
     tf_requires_security_layer = False, tf_default_port = 80\<rparr>"

text \<open>\<open>ws_result\<close>: the error of the library's \<open>send\<close>, if any.\<close>

definition send_frame :: "string option \<Rightarrow> frame \<Rightarrow> plain_ws_conn
    \<Rightarrow> (transport_error + unit) \<times> plain_ws_conn" where
  "send_frame ws_result f c =
     (if \<not> pw_connected c then (Inl NotConnected, c)
      else case ws_result of
        None \<Rightarrow> (Inr (), c\<lparr>pw_sent := pw_sent c @ [WsBinary (frame_encode f)]\<rparr>)
      | Some e \<Rightarrow> (Inl (SendFailed (''WS send: '' @ e)), c\<lparr>pw_connected := False\<rparr>))"

text \<open>The loop: the result, the flag and the events left, or \<open>None\<close> while it waits.\<close>

fun recv_loop :: "ws_event list \<Rightarrow> ((transport_error + frame option) \<times> bool \<times> ws_event list) option" where
  "recv_loop [] = None"
| "recv_loop (WsMsg (WsBinary data) # es) =
     (case frame_decode data of
        Inr (Some (f, _)) \<Rightarrow> Some (Inr (Some f), True, es)
      | Inr None \<Rightarrow> recv_loop es
      | Inl e \<Rightarrow> Some (Inl (RecvFailed (''frame decode: '' @ protocol_error_str e)), True, es))"
| "recv_loop (WsMsg WsClose # es) = Some (Inr None, False, es)"
| "recv_loop (WsMsg _ # es) = recv_loop es"
| "recv_loop (WsError e # es) = Some (Inl (RecvFailed (''WS recv: '' @ e)), False, es)"
| "recv_loop (WsEnd # es) = Some (Inr None, False, es)"

definition recv_frame :: "plain_ws_conn \<Rightarrow> (transport_error + frame option) option \<times> plain_ws_conn" where
  "recv_frame c =
     (if \<not> pw_connected c then (Some (Inl NotConnected), c)
      else case recv_loop (pw_incoming c) of
        None \<Rightarrow> (None, c\<lparr>pw_incoming := []\<rparr>)
      | Some (res, conn, es) \<Rightarrow> (Some res, c\<lparr>pw_incoming := es, pw_connected := conn\<rparr>))"

definition conn_close :: "string option \<Rightarrow> plain_ws_conn \<Rightarrow> (transport_error + unit) \<times> plain_ws_conn" where
  "conn_close ws_result c =
     (if \<not> pw_connected c then (Inr (), c)
      else (Inr (), c\<lparr>pw_sent := pw_sent c @ (if ws_result = None then [WsClose] else []),
                      pw_connected := False\<rparr>))"

definition conn_transport_type :: "plain_ws_conn \<Rightarrow> transport_type" where
  "conn_transport_type c = PlainWS"

definition conn_is_connected :: "plain_ws_conn \<Rightarrow> bool" where
  "conn_is_connected c = pw_connected c"

text \<open>\<open>get_or_init\<close>: the first call builds the registry with the plain WebSocket factory.\<close>

definition global_registry :: "(string \<Rightarrow> string + ws_event list) \<Rightarrow> plain_ws_conn transport_registry option
    \<Rightarrow> plain_ws_conn transport_registry" where
  "global_registry connect_async g =
     (case g of Some r \<Rightarrow> r
      | None \<Rightarrow> snd (registry_register (plain_ws_factory connect_async) registry_new))"

definition dial_transport :: "(string \<Rightarrow> string + ws_event list) \<Rightarrow> plain_ws_conn transport_registry option
    \<Rightarrow> transport_config \<Rightarrow> transport_error + plain_ws_conn" where
  "dial_transport connect_async g config = registry_dial (global_registry connect_async g) config"

section \<open>The registry is written once\<close>

interpretation registry: write_once registry_get "\<lambda>f r. snd (registry_register f r)"
  "\<lambda>f. Some (tf_transport_type f)" "\<lambda>f r. Some f"
  by unfold_locales (auto simp: registry_get_def registry_register_def Let_def)

section \<open>Sequences of sends and receives\<close>

fun send_all :: "frame list \<Rightarrow> plain_ws_conn \<Rightarrow> (transport_error + unit) list \<times> plain_ws_conn" where
  "send_all [] c = ([], c)"
| "send_all (f # fs) c =
     (case send_frame None f c of (r, c1) \<Rightarrow> (case send_all fs c1 of (rs, c2) \<Rightarrow> (r # rs, c2)))"

fun recv_all :: "nat \<Rightarrow> plain_ws_conn \<Rightarrow> (transport_error + frame option) option list \<times> plain_ws_conn" where
  "recv_all 0 c = ([], c)"
| "recv_all (Suc n) c =
     (case recv_frame c of (r, c1) \<Rightarrow> (case recv_all n c1 of (rs, c2) \<Rightarrow> (r # rs, c2)))"

lemma send_all_sent:
  "pw_connected c \<Longrightarrow> send_all fs c =
     (replicate (length fs) (Inr ()), c\<lparr>pw_sent := pw_sent c @ map (\<lambda>f. WsBinary (frame_encode f)) fs\<rparr>)"
  by (induction fs arbitrary: c) (simp_all add: send_frame_def)

text \<open>Messages the receive loop passes over.\<close>

fun passed_over :: "ws_message \<Rightarrow> bool" where
  "passed_over (WsText _) = True"
| "passed_over (WsPing _) = True"
| "passed_over (WsPong _) = True"
| "passed_over _ = False"

lemma recv_loop_skip: "\<forall>m \<in> set ms. passed_over m \<Longrightarrow> recv_loop (map WsMsg ms @ es) = recv_loop es"
proof (induction ms)
  case (Cons m ms)
  then show ?case by (cases m) simp_all
qed simp

lemma recv_loop_frame:
  "sendable f \<Longrightarrow> recv_loop (WsMsg (WsBinary (frame_encode f @ x)) # es) = Some (Inr (Some f), True, es)"
  using sendable_nx [of f "()" x] by (simp add: frame_nx_iff)

text \<open>Fewer bytes than a frame are never a frame.\<close>

lemma partial_frame:
  assumes "sendable f" "k < length (frame_encode f)"
  shows "frame_decode (take k (frame_encode f)) = Inr None"
proof (rule ccontr)
  let ?b = "take k (frame_encode f)"
  assume "frame_decode ?b \<noteq> Inr None"
  from frame_decode_stable [OF this, of "drop k (frame_encode f)"]
  have "frame_decode ?b = frame_decode (frame_encode f)" by simp
  also have "\<dots> = Inr (Some (f, length (frame_encode f)))"
    using sendable_nx [OF assms(1), of "()" "[]"] by (simp add: frame_nx_iff)
  finally have "length (frame_encode f) \<le> length ?b" by (rule frame_decode_bounds(2))
  with assms(2) show False by simp
qed

text \<open>The peer's events: each frame as one message, other messages in between.\<close>

fun carries :: "ws_message list \<Rightarrow> frame list \<Rightarrow> bool" where
  "carries [] fs \<longleftrightarrow> fs = []"
| "carries (WsBinary d # ms) fs \<longleftrightarrow> (\<exists>f gs. fs = f # gs \<and> d = frame_encode f \<and> carries ms gs)"
| "carries (m # ms) fs \<longleftrightarrow> passed_over m \<and> carries ms fs"

lemma carries_frames: "carries (map (\<lambda>f. WsBinary (frame_encode f)) fs) fs"
  by (induction fs) simp_all

lemma carries_Nil: "carries ms [] \<Longrightarrow> \<forall>m \<in> set ms. passed_over m"
  by (induction ms "[] :: frame list" rule: carries.induct) simp_all

lemma carries_Cons:
  "carries ms (f # fs) \<Longrightarrow>
   \<exists>us vs. ms = us @ WsBinary (frame_encode f) # vs \<and> (\<forall>m \<in> set us. passed_over m) \<and> carries vs fs"
proof (induction ms)
  case (Cons m ms)
  show ?case
  proof (cases "passed_over m")
    case True
    then have "carries ms (f # fs)" using Cons.prems by (cases m) auto
    then obtain us vs where "ms = us @ WsBinary (frame_encode f) # vs" "\<forall>m \<in> set us. passed_over m"
      "carries vs fs" using Cons.IH by blast
    with True show ?thesis by (intro exI [of _ "m # us"] exI [of _ vs]) simp
  next
    case False
    with Cons.prems have "m = WsBinary (frame_encode f)" "carries ms fs" by (cases m; auto)+
    then show ?thesis by (intro exI [of _ "[]"] exI [of _ ms]) simp
  qed
qed simp

lemma recv_all_frames:
  "pw_connected c \<Longrightarrow> \<forall>f \<in> set fs. sendable f \<Longrightarrow> carries ms fs \<Longrightarrow> pw_incoming c = map WsMsg ms @ es \<Longrightarrow>
   \<exists>us. (\<forall>m \<in> set us. passed_over m) \<and>
     recv_all (length fs) c = (map (\<lambda>f. Some (Inr (Some f))) fs, c\<lparr>pw_incoming := map WsMsg us @ es\<rparr>)"
proof (induction fs arbitrary: c ms)
  case Nil
  then show ?case by (intro exI [of _ ms]) (simp add: carries_Nil)
next
  case (Cons f fs)
  from carries_Cons [OF Cons.prems(3)] obtain us vs
    where ms: "ms = us @ WsBinary (frame_encode f) # vs" "\<forall>m \<in> set us. passed_over m" "carries vs fs"
    by blast
  have "recv_loop (pw_incoming c) = Some (Inr (Some f), True, map WsMsg vs @ es)"
    using recv_loop_frame [of f "[]"] Cons.prems(2) ms
    by (simp add: Cons.prems(4) recv_loop_skip)
  then have r: "recv_frame c = (Some (Inr (Some f)), c\<lparr>pw_incoming := map WsMsg vs @ es\<rparr>)"
    using Cons.prems(1) by (simp add: recv_frame_def)
  from Cons.IH [of "c\<lparr>pw_incoming := map WsMsg vs @ es\<rparr>" vs] Cons.prems ms(3)
  show ?case by (auto simp: r)
qed

section \<open>Properties\<close>



text \<open>
  But it depends on the peer's message boundaries, which the incremental decoder does
  not. A message that holds only part of a frame is dropped, although the code means to
  read on, and of a message that holds more than a frame only the first frame is
  returned; \<open>FrameDecoder\<close>, fed the same bytes, returns every frame.
\<close>

theorem recv_frame_needs_message_boundaries:
  assumes "sendable f" "sendable g" "0 < k" "k < length (frame_encode f)"
  shows "recv_loop (WsMsg (WsBinary (take k (frame_encode f))) # es) = recv_loop es
    \<and> recv_loop (WsMsg (WsBinary (frame_encode f @ frame_encode g)) # es) = Some (Inr (Some f), True, es)
    \<and> frames_of (fst (decoder_run decoder_new
        [Feed (take k (frame_encode f)), Decode, Feed (drop k (frame_encode f) @ frame_encode g),
         Decode, Decode])) = [f, g]"
proof (intro conjI)
  show "recv_loop (WsMsg (WsBinary (take k (frame_encode f))) # es) = recv_loop es"
    by (simp add: partial_frame [OF assms(1,4)])
  show "recv_loop (WsMsg (WsBinary (frame_encode f @ frame_encode g)) # es) = Some (Inr (Some f), True, es)"
    by (rule recv_loop_frame [OF assms(1)])
  have f: "frame_decode (frame_encode f @ frame_encode g) = Inr (Some (f, length (frame_encode f)))"
    using sendable_nx [OF assms(1), of "()"] by (simp add: frame_nx_iff)
  have g: "frame_decode (frame_encode g) = Inr (Some (g, length (frame_encode g)))"
    using sendable_nx [OF assms(2), of "()" "[]"] by (simp add: frame_nx_iff)
  have t: "take k (frame_encode f) @ drop k (frame_encode f) @ frame_encode g
      = frame_encode f @ frame_encode g" by (metis append.assoc append_take_drop_id)
  show "frames_of (fst (decoder_run decoder_new
      [Feed (take k (frame_encode f)), Decode, Feed (drop k (frame_encode f) @ frame_encode g),
       Decode, Decode])) = [f, g]"
    by (simp add: decoder_new_def decoder_feed_def decoder_decode_def partial_frame [OF assms(1,4)] t f g)
qed

theorem recv_frame_needs_message_boundaries_witness:
  "recv_loop [WsMsg (WsBinary (take 9 (frame_encode (frame_heartbeat 7)))),
      WsMsg (WsBinary (drop 9 (frame_encode (frame_heartbeat 7)))), WsMsg WsClose]
    = recv_loop [WsMsg (WsBinary (drop 9 (frame_encode (frame_heartbeat 7)))), WsMsg WsClose]"
  using recv_frame_needs_message_boundaries [of "frame_heartbeat 7" "frame_heartbeat 8" 9]
  by (simp add: sendable_def frame_heartbeat_def frame_new_def protocol_consts length_frame_encode)

text \<open>
  The registry. Whatever is registered in whatever order, the first factory of a type
  is the one that stays: dialling a registered type calls that factory, later
  registrations of the type fail and change nothing, and an unregistered type is refused.
\<close>

theorem registry_first_factory_stays:
  assumes "\<forall>h \<in> set before. tf_transport_type h \<noteq> tf_transport_type f"
    and "tf_transport_type h = tf_transport_type f"
    and "tc_transport_type config = tf_transport_type f"
  shows "registry_dial (fold (\<lambda>h r. snd (registry_register h r)) (before @ f # after) registry_new) config
      = tf_dial f config
    \<and> (let r = fold (\<lambda>h r. snd (registry_register h r)) (before @ f # after) registry_new
       in snd (registry_register h r) = r \<and> isl (fst (registry_register h r)))
    \<and> registry_dial (fold (\<lambda>h r. snd (registry_register h r)) before registry_new) config
      = Inl (UnsupportedTransport (transport_type_str (tf_transport_type f) @ '' not registered''))"
proof -
  let ?reg = "\<lambda>h (r :: 'a transport_registry). snd (registry_register h r)"
  have new: "registry_get registry_new t = None" for t :: transport_type
    by (simp add: registry_get_def registry_new_def)
  have "registry_get (fold ?reg (before @ f # after) registry_new) (tf_transport_type f) = Some f"
    using assms(1) by (intro registry.first_decides) (simp_all add: new)
  moreover have "registry_get (fold ?reg before registry_new) (tf_transport_type f) = None"
    using registry.untouched [of before "tf_transport_type f" registry_new] assms(1) by (simp add: new)
  ultimately show ?thesis
    using assms(2,3) by (simp add: registry_dial_def registry_register_def registry_get_def Let_def)
qed

theorem registry_first_factory_stays_witness:
  "registry_dial (fold (\<lambda>h r. snd (registry_register h r))
      [plain_ws_factory (\<lambda>url. Inl ''refused''), plain_ws_factory (\<lambda>url. Inr [])] registry_new)
      \<lparr>tc_transport_type = PlainWS, tc_address = ''a:1'', tc_path = ''/w'', tc_tls_enabled = False,
       tc_reality_private_key = None, tc_reality_short_id = None, tc_reality_server_names = None,
       tc_reality_public_key = None\<rparr>
    = Inl (ConnectionFailed ''WS connect to ws://a:1/w: refused'')"
proof -
  let ?f = "plain_ws_factory (\<lambda>url. Inl ''refused'')"
  let ?g = "plain_ws_factory (\<lambda>url. Inr [])"
  let ?c = "\<lparr>tc_transport_type = PlainWS, tc_address = ''a:1'', tc_path = ''/w'', tc_tls_enabled = False,
       tc_reality_private_key = None, tc_reality_short_id = None, tc_reality_server_names = None,
       tc_reality_public_key = None\<rparr>"
  have "registry_dial (fold (\<lambda>h r. snd (registry_register h r)) ([] @ ?f # [?g]) registry_new) ?c
      = tf_dial ?f ?c"
    by (rule registry_first_factory_stays [where h = ?g, THEN conjunct1])
      (simp_all add: plain_ws_factory_def)
  then show ?thesis by (simp add: plain_ws_factory_def conn_connect_def ws_url_def)
qed

end
