(* ===== verification/Unit_Tests_Control.thy ===== *)
theory Unit_Tests_Control
  imports Transport Cascade Config Cli Healthcheck Http_Api
begin

text \<open>
  The crate's own unit tests, the \<open>mod tests\<close> of crypto/mod.rs, transport/registry.rs,
  relay/cascade_selector.rs, config/mod.rs, healthcheck/mod.rs, protocol/mod.rs (the one about
  JSON) and main.rs, on the definitions of this development: each test is a definition, true
  when every assertion of the test holds. What a test takes from outside (random bytes, the
  cryptographic library, the serialiser, the resolver, the disk) is an argument.
\<close>

section \<open>Encryption\<close>

text \<open>Encrypt and decrypt with a second copy of the key: what comes out, when all steps succeed.\<close>

definition key_pair :: "(nat \<Rightarrow> bytes) \<Rightarrow> (nat \<Rightarrow> bytes) \<Rightarrow> cipher_suite \<Rightarrow> (key_info \<times> key_info) option" where
  "key_pair random_key random_salt c =
     (case key_info_new random_key random_salt c of
        Inl e \<Rightarrow> None
      | Inr ki \<Rightarrow>
          (case key_info_from_parts (master_key ki) (ki_salt ki) (ki_cipher ki) of
             Inl e \<Rightarrow> None | Inr kc \<Rightarrow> Some (ki, kc)))"

definition pass_on :: "ring_lib \<Rightarrow> bytes \<Rightarrow> bytes \<Rightarrow> stream_cipher \<Rightarrow> stream_cipher
    \<Rightarrow> (bytes \<times> bytes \<times> stream_cipher \<times> stream_cipher) option" where
  "pass_on R nonce plaintext enc dec =
     (case encrypt_chunk R nonce plaintext enc of
        (Inl e, enc') \<Rightarrow> None
      | (Inr encrypted, enc') \<Rightarrow>
          (case decrypt_chunk R encrypted dec of
             (Inl e, dec') \<Rightarrow> None
           | (Inr decrypted, dec') \<Rightarrow> Some (encrypted, decrypted, enc', dec')))"

definition test_chacha20_roundtrip :: "ring_lib \<Rightarrow> (nat \<Rightarrow> bytes) \<Rightarrow> (nat \<Rightarrow> bytes) \<Rightarrow> bytes \<Rightarrow> bool" where
  "test_chacha20_roundtrip R random_key random_salt nonce \<longleftrightarrow>
     (case key_pair random_key random_salt ChaCha20Poly1305 of
        None \<Rightarrow> False
      | Some (ki, kc) \<Rightarrow>
          (let plaintext = str_bytes ''Hello, LiveCDN! This is a test of the encryption system.''
           in case pass_on R nonce plaintext (stream_cipher_new ki) (stream_cipher_new kc) of
                None \<Rightarrow> False
              | Some (encrypted, decrypted, enc, dec) \<Rightarrow>
                  encrypted \<noteq> plaintext \<and> length encrypted > length plaintext \<and> decrypted = plaintext))"

definition test_aes128_roundtrip :: "ring_lib \<Rightarrow> (nat \<Rightarrow> bytes) \<Rightarrow> (nat \<Rightarrow> bytes) \<Rightarrow> bytes \<Rightarrow> bool" where
  "test_aes128_roundtrip R random_key random_salt nonce \<longleftrightarrow>
     (case key_pair random_key random_salt Aes128Gcm of
        None \<Rightarrow> False
      | Some (ki, kc) \<Rightarrow>
          (let plaintext = str_bytes ''AES-128-GCM test payload''
           in case pass_on R nonce plaintext (stream_cipher_new ki) (stream_cipher_new kc) of
                None \<Rightarrow> False
              | Some (encrypted, decrypted, enc, dec) \<Rightarrow> decrypted = plaintext))"

fun pass_chunks :: "ring_lib \<Rightarrow> (nat \<Rightarrow> bytes) \<Rightarrow> nat list \<Rightarrow> stream_cipher \<Rightarrow> stream_cipher \<Rightarrow> bool" where
  "pass_chunks R nonce [] enc dec \<longleftrightarrow> True"
| "pass_chunks R nonce (i # is) enc dec \<longleftrightarrow>
     (let d = str_bytes (''chunk-'' @ nat_str i)
      in case pass_on R (nonce i) d enc dec of
           None \<Rightarrow> False
         | Some (encrypted, decrypted, enc', dec') \<Rightarrow> decrypted = d \<and> pass_chunks R nonce is enc' dec')"

definition test_sequential_chunks_different_keys :: "ring_lib \<Rightarrow> (nat \<Rightarrow> bytes) \<Rightarrow> (nat \<Rightarrow> bytes)
    \<Rightarrow> (nat \<Rightarrow> bytes) \<Rightarrow> bool" where
  "test_sequential_chunks_different_keys R random_key random_salt nonce \<longleftrightarrow>
     (case key_pair random_key random_salt ChaCha20Poly1305 of
        None \<Rightarrow> False
      | Some (ki, kc) \<Rightarrow> pass_chunks R nonce [0, 1, 2, 3, 4] (stream_cipher_new ki) (stream_cipher_new kc))"

definition test_token_sign_verify :: "ring_lib \<Rightarrow> bool" where
  "test_token_sign_verify R \<longleftrightarrow>
     (let key = str_bytes ''test-secret'';
          token = ''stream_key=test&ts=1234567890'';
          sig = token_sign R key token
      in token_verify R key token sig \<and> \<not> token_verify R key token ''invalid-sig'')"

definition test_hkdf_key_derivation_deterministic :: "ring_lib \<Rightarrow> (nat \<Rightarrow> bytes) \<Rightarrow> (nat \<Rightarrow> bytes) \<Rightarrow> bool" where
  "test_hkdf_key_derivation_deterministic R random_key random_salt \<longleftrightarrow>
     (case key_info_new random_key random_salt ChaCha20Poly1305 of
        Inl e \<Rightarrow> False
      | Inr ki \<Rightarrow>
          (let key1 = derive_chunk_key R ki 42; key2 = derive_chunk_key R ki 42; key3 = derive_chunk_key R ki 43
           in key1 = key2 \<and> key1 \<noteq> key3))"

text \<open>What the tests rely on: ring as documented, and it does not fail on keys and nonces of the right length.\<close>

definition ring_total :: "ring_lib \<Rightarrow> bool" where
  "ring_total R \<longleftrightarrow> (\<forall>salt key info n. n \<le> 255 * 32 \<longrightarrow> hkdf_expand R salt key info n \<noteq> None)
     \<and> (\<forall>c key nonce pt. length key = key_len c \<longrightarrow> length nonce = 12 \<longrightarrow> aead_seal R c key nonce pt \<noteq> None)"

lemma derived_length:
  assumes "ring_sound R" "ring_total R" shows "length (derive_chunk_key R ki s) = key_len (ki_cipher ki)"
proof -
  have "key_len (ki_cipher ki) \<le> 32" by (cases "ki_cipher ki") simp_all
  moreover have "\<forall>d. length (sha256 R d) = 32" using assms(1) by (simp add: ring_sound_def)
  moreover have "\<forall>salt key info n out. n \<le> 255 * 32 \<longrightarrow> hkdf_expand R salt key info n = Some out \<longrightarrow> length out = n"
    using assms(1) by (simp add: ring_sound_def)
  ultimately show ?thesis
    by (auto simp: derive_chunk_key_def fallback_key_def Let_def split: option.split)
qed

lemma pass_on_in_step:
  assumes "ring_sound R" "ring_total R" "length nonce = 12"
  shows "\<exists>c. pass_on R nonce pt s s = Some (c, pt, s\<lparr>sc_seq := sc_seq s + 1\<rparr>, s\<lparr>sc_seq := sc_seq s + 1\<rparr>)
    \<and> length pt < length c"
proof -
  let ?key = "derive_chunk_key R (sc_key_info s) (sc_seq s)" and ?c = "ki_cipher (sc_key_info s)"
  have "length ?key = key_len ?c" by (rule derived_length [OF assms(1,2)])
  moreover from this assms(2,3) obtain ct tag where seal: "aead_seal R ?c ?key nonce pt = Some (ct, tag)"
    unfolding ring_total_def by fast
  ultimately have e: "encrypt_chunk R nonce pt s = (Inr (nonce @ ct @ tag), s\<lparr>sc_seq := sc_seq s + 1\<rparr>)"
    by (simp add: encrypt_chunk_def Let_def)
  from assms(1) seal have "length ct = length pt" unfolding ring_sound_def by blast
  with decrypt_in_step [OF assms(1,3) e] e assms(3) show ?thesis
    by (intro exI [of _ "nonce @ ct @ tag"]) (simp add: pass_on_def)
qed

lemma key_pair_new:
  "\<forall>n. length (random_key n) = n \<Longrightarrow> \<exists>ki. key_pair random_key random_salt c = Some (ki, ki)
    \<and> key_info_new random_key random_salt c = Inr ki \<and> ki_cipher ki = c"
  by (simp add: key_pair_def key_info_new_def key_info_from_parts_def)

lemma pass_chunks_ok:
  "ring_sound R \<Longrightarrow> ring_total R \<Longrightarrow> \<forall>i. length (nonce i) = 12 \<Longrightarrow> pass_chunks R nonce is s s"
proof (induction "is" arbitrary: s)
  case (Cons i "is")
  from pass_on_in_step [OF Cons.prems(1,2), of "nonce i" "str_bytes (''chunk-'' @ nat_str i)" s] Cons.prems(3)
  obtain c where "pass_on R (nonce i) (str_bytes (''chunk-'' @ nat_str i)) s s = Some (c, str_bytes (''chunk-'' @ nat_str i),
      s\<lparr>sc_seq := sc_seq s + 1\<rparr>, s\<lparr>sc_seq := sc_seq s + 1\<rparr>)" by blast
  with Cons show ?case by simp
qed simp

lemma token_signs: "token_verify R key d (token_sign R key d)"
  by (simp add: token_verify_def token_sign_def)

lemma keys_differ:
  assumes "ring_sound R" "ring_total R" "ring_authentic R ki" "s \<noteq> t"
  shows "derive_chunk_key R ki s \<noteq> derive_chunk_key R ki t"
proof
  assume same: "derive_chunk_key R ki s = derive_chunk_key R ki t"
  let ?nonce = "replicate 12 0 :: bytes"
  have "length (derive_chunk_key R ki s) = key_len (ki_cipher ki)" by (rule derived_length [OF assms(1,2)])
  with assms(2) obtain ct tag where seal: "aead_seal R (ki_cipher ki) (derive_chunk_key R ki s) ?nonce [] = Some (ct, tag)"
    unfolding ring_total_def by fastforce
  with assms(1) have "aead_open R (ki_cipher ki) (derive_chunk_key R ki s) ?nonce (ct @ tag) = Some []"
    unfolding ring_sound_def by blast
  moreover have "aead_open R (ki_cipher ki) (derive_chunk_key R ki t) ?nonce (ct @ tag) = None"
    using assms(3,4) seal unfolding ring_authentic_def by blast
  ultimately show False by (simp add: same)
qed

lemma crypto_tests:
  assumes "ring_sound R" "ring_total R" "\<forall>ki. ring_authentic R ki" "\<forall>n. length (random_key n) = n"
    and "\<forall>i. length (nonce i) = (12 :: nat)"
  shows "test_chacha20_roundtrip R random_key random_salt (nonce 0)"
    "test_aes128_roundtrip R random_key random_salt (nonce 0)"
    "test_sequential_chunks_different_keys R random_key random_salt nonce"
    "test_token_sign_verify R"
    "test_hkdf_key_derivation_deterministic R random_key random_salt"
proof -
  have n: "length (nonce 0) = 12" using assms(5) by blast
  obtain k1 where k1: "key_pair random_key random_salt ChaCha20Poly1305 = Some (k1, k1)"
    "key_info_new random_key random_salt ChaCha20Poly1305 = Inr k1"
    using key_pair_new [OF assms(4), of random_salt ChaCha20Poly1305] by blast
  obtain k2 where k2: "key_pair random_key random_salt Aes128Gcm = Some (k2, k2)"
    using key_pair_new [OF assms(4), of random_salt Aes128Gcm] by blast
  show "test_chacha20_roundtrip R random_key random_salt (nonce 0)"
    using pass_on_in_step [OF assms(1,2) n, of "str_bytes ''Hello, LiveCDN! This is a test of the encryption system.''"
      "stream_cipher_new k1"]
    by (auto simp: test_chacha20_roundtrip_def k1 Let_def)
  show "test_aes128_roundtrip R random_key random_salt (nonce 0)"
    using pass_on_in_step [OF assms(1,2) n, of "str_bytes ''AES-128-GCM test payload''" "stream_cipher_new k2"]
    by (auto simp: test_aes128_roundtrip_def k2 Let_def)
  show "test_sequential_chunks_different_keys R random_key random_salt nonce"
    unfolding test_sequential_chunks_different_keys_def k1
    using pass_chunks_ok [OF assms(1,2,5)] by (simp del: pass_chunks.simps)
  have "hex_decode ''invalid-sig'' = None" by (simp add: hex_decode_def)
  then have "\<not> token_verify R key d ''invalid-sig''" for key d by (simp add: token_verify_def)
  then show "test_token_sign_verify R"
    unfolding test_token_sign_verify_def Let_def using token_signs by blast
  show "test_hkdf_key_derivation_deterministic R random_key random_salt"
    using keys_differ [OF assms(1,2) spec [OF assms(3)], of 42 43 k1]
    by (simp add: test_hkdf_key_derivation_deterministic_def k1 Let_def)
qed

section \<open>Transports\<close>

definition test_transport_type_display :: bool where
  "test_transport_type_display \<longleftrightarrow> transport_type_str PlainWS = ''plain-ws'' \<and> transport_type_str Reality = ''reality''
     \<and> transport_type_str Hysteria2 = ''hysteria2'' \<and> transport_type_str GRPC = ''grpc''"

definition test_transport_type_from_str :: bool where
  "test_transport_type_from_str \<longleftrightarrow> transport_type_from_str ''ws'' = Some PlainWS
     \<and> transport_type_from_str ''plain-ws'' = Some PlainWS \<and> transport_type_from_str ''reality'' = Some Reality
     \<and> transport_type_from_str ''unknown'' = None"

type_synonym connector = "string \<Rightarrow> string + ws_event list"

definition test_registry_register_and_list :: "connector \<Rightarrow> bool" where
  "test_registry_register_and_list connect \<longleftrightarrow>
     (let r = snd (registry_register (plain_ws_factory connect) registry_new)
      in card (list_registered r) = 1 \<and> PlainWS \<in> list_registered r)"

definition test_registry_duplicate_registration :: "connector \<Rightarrow> bool" where
  "test_registry_duplicate_registration connect \<longleftrightarrow>
     (let r = snd (registry_register (plain_ws_factory connect) registry_new)
      in case fst (registry_register (plain_ws_factory connect) r) of Inl e \<Rightarrow> True | Inr u \<Rightarrow> False)"

definition test_registry_get_factory :: "connector \<Rightarrow> bool" where
  "test_registry_get_factory connect \<longleftrightarrow>
     (let r = snd (registry_register (plain_ws_factory connect) registry_new)
      in (case registry_get r PlainWS of Some f \<Rightarrow> tf_transport_type f = PlainWS | None \<Rightarrow> False)
         \<and> registry_get r Reality = None)"

definition test_global_registry_has_plainws :: "connector \<Rightarrow> bool" where
  "test_global_registry_has_plainws connect \<longleftrightarrow> PlainWS \<in> list_registered (global_registry connect None)"

definition test_transport_switch_command :: "switch_json \<Rightarrow> bool" where
  "test_transport_switch_command J \<longleftrightarrow>
     (let cmd = \<lparr>tsc_target_transport = Reality,
            tsc_config = \<lparr>tc_transport_type = Reality, tc_address = ''reality.example.com:443'', tc_path = ''/ws/live'',
              tc_tls_enabled = True, tc_reality_private_key = Some ''private_key'',
              tc_reality_short_id = Some ''abcd1234'', tc_reality_server_names = Some [''example.com''],
              tc_reality_public_key = Some ''public_key''\<rparr>,
            tsc_deadline_secs = 30, tsc_reason = ''domain blocked''\<rparr>
      in case switch_from_json J (switch_to_json J cmd) of
           Inl e \<Rightarrow> False
         | Inr parsed \<Rightarrow> tsc_target_transport parsed = Reality \<and> tsc_deadline_secs parsed = 30)"

lemma transport_tests:
  "test_transport_type_display" "test_transport_type_from_str" "test_registry_register_and_list connect"
  "test_registry_duplicate_registration connect" "test_registry_get_factory connect"
  "test_global_registry_has_plainws connect"
proof -
  have one: "list_registered (snd (registry_register (plain_ws_factory connect) registry_new)) = {PlainWS}"
    by (auto simp: list_registered_def registry_register_def plain_ws_factory_def registry_new_def)
  show "test_transport_type_display" "test_transport_type_from_str"
    by (simp_all add: test_transport_type_display_def test_transport_type_from_str_def transport_type_from_str_def)
  show "test_registry_register_and_list connect" "test_global_registry_has_plainws connect"
    by (simp_all add: test_registry_register_and_list_def test_global_registry_has_plainws_def global_registry_def one)
  show "test_registry_duplicate_registration connect" "test_registry_get_factory connect"
    by (simp_all add: test_registry_duplicate_registration_def test_registry_get_factory_def registry_register_def
        plain_ws_factory_def registry_new_def registry_get_def)
qed

lemma switch_test: "json_roundtrips J \<Longrightarrow> test_transport_switch_command J"
  by (simp add: test_transport_switch_command_def switch_json_roundtrip)

section \<open>The cascade selector\<close>

text \<open>The names of the tests: two regions and two providers, in UTF-8.\<close>

definition EAST :: string where "EAST = [CHR 0xE5, CHR 0x8D, CHR 0x8E, CHR 0xE4, CHR 0xB8, CHR 0x9C]"
definition NORTH :: string where "NORTH = [CHR 0xE5, CHR 0x8D, CHR 0x8E, CHR 0xE5, CHR 0x8C, CHR 0x97]"
definition TELECOM :: string where "TELECOM = [CHR 0xE7, CHR 0x94, CHR 0xB5, CHR 0xE4, CHR 0xBF, CHR 0xA1]"
definition UNICOM :: string where "UNICOM = [CHR 0xE8, CHR 0x81, CHR 0x94, CHR 0xE9, CHR 0x80, CHR 0x9A]"

definition make_candidate :: "string \<Rightarrow> string \<Rightarrow> string \<Rightarrow> int \<Rightarrow> real \<Rightarrow> bool \<Rightarrow> candidate_upstream" where
  "make_candidate i region isp tier score allow =
     \<lparr>cu_node_id = i, cu_url = ''http://10.0.0.'' @ drop 5 i @ '':9090/cascade/test.flv'', cu_region = region,
      cu_isp = isp, cu_tier = tier, cu_score_hint = score, cu_max_children = 8, cu_current_children = 0,
      cu_bw_remaining_mbps = 30, cu_allow_cascade = allow, cu_has_ipv6 = False, cu_ipv6_url = []\<rparr>"

definition make_mesh_response :: "candidate_upstream list \<Rightarrow> mesh_map_response" where
  "make_mesh_response candidates =
     \<lparr>mesh_epoch = 1, self_node_id = ''test-node'', mm_self_tier = 2, candidate_upstreams = candidates,
      mm_origin_fallback = Some \<lparr>of_url = ''http://origin/live/test.flv'', of_priority = 999\<rparr>,
      mm_policy = Some \<lparr>max_depth = 2, switch_cooldown_sec = 30, min_score_improvement = 15,
        mesh_ping_interval_sec = 10, candidate_ttl_sec = 60, max_switch_per_5min = 3,
        hard_fail_timeout_ms = 3000\<rparr>,
      mm_migration_advice = None\<rparr>"

text \<open>No other task holds a lock; times are milliseconds of the test's clock.\<close>

definition unlocked :: lock_view where
  "unlocked = \<lparr>guard_free = (\<lambda>_. True), probes_free = (\<lambda>_. True)\<rparr>"

definition test_selector :: "bool \<Rightarrow> cascade_selector" where
  "test_selector v6 = cascade_selector_new ''test-node'' EAST TELECOM v6"

definition chosen :: "nat \<Rightarrow> cascade_selector \<Rightarrow> mesh_map_response \<Rightarrow> cascade_path option" where
  "chosen now s resp = select_from_candidates now unlocked s (candidate_upstreams resp)"

definition test_select_from_candidates_same_region_isp :: "nat \<Rightarrow> bool" where
  "test_select_from_candidates_same_region_isp now \<longleftrightarrow>
     (case chosen now (test_selector False) (make_mesh_response
        [make_candidate ''edge-1'' EAST TELECOM 1 90 True, make_candidate ''edge-2'' EAST UNICOM 1 80 True,
         make_candidate ''edge-3'' NORTH TELECOM 1 70 True]) of
        None \<Rightarrow> False | Some path \<Rightarrow> cp_upstream_node_id path = ''edge-1'')"

definition test_no_candidates_returns_none :: "nat \<Rightarrow> bool" where
  "test_no_candidates_returns_none now \<longleftrightarrow> chosen now (test_selector False) (make_mesh_response []) = None"

definition test_loop_guard_prevents_same_tier :: bool where
  "test_loop_guard_prevents_same_tier \<longleftrightarrow>
     (let guard = (loop_guard_new ''node-A'' 2)\<lparr>lg_max_depth := 2\<rparr>
      in \<not> would_create_loop guard ''node-B'' 1 \<and> would_create_loop guard ''node-A'' 1)"

definition test_loop_guard_detects_loop_in_path :: bool where
  "test_loop_guard_detects_loop_in_path \<longleftrightarrow>
     (let guard = loop_guard_new ''node-A'' 2
      in \<not> detect_loop_in_path guard [''origin'', ''node-B'', ''node-C'']
         \<and> detect_loop_in_path guard [''origin'', ''node-B'', ''node-A''])"

definition current_node :: "cascade_selector \<Rightarrow> string option" where
  "current_node s = map_option cp_upstream_node_id (sel_current_path s)"

definition test_hysteresis_cooldown :: "nat \<Rightarrow> nat \<Rightarrow> bool" where
  "test_hysteresis_cooldown t1 t2 \<longleftrightarrow>
     (let one = make_candidate ''edge-1'' EAST TELECOM 1 85 True;
          two = make_candidate ''edge-2'' EAST TELECOM 1 99 True;
          s1 = update_mesh_map t1 unlocked (make_mesh_response [one]) (test_selector False);
          s2 = update_mesh_map t2 unlocked (make_mesh_response [one, two]) s1
      in current_node s1 = Some ''edge-1'' \<and> current_node s2 = Some ''edge-1'')"

definition test_cascade_stats :: "nat \<Rightarrow> bool" where
  "test_cascade_stats now \<longleftrightarrow>
     (let s = update_mesh_map now unlocked (make_mesh_response [make_candidate ''edge-1'' EAST TELECOM 1 90 True])
                (test_selector False);
          stats = selector_stats s
      in cs_self_tier stats = 2 \<and> cs_current_upstream stats = ''edge-1'')"

definition test_ipv6_preference_in_candidates :: "nat \<Rightarrow> bool" where
  "test_ipv6_preference_in_candidates now \<longleftrightarrow>
     (let c = (make_candidate ''edge-1'' EAST TELECOM 1 90 True)\<lparr>cu_has_ipv6 := True,
                cu_ipv6_url := ''http://[2001:db8::1]:9090/cascade/test.flv''\<rparr>
      in case chosen now (test_selector True) (make_mesh_response [c]) of
           None \<Rightarrow> False | Some path \<Rightarrow> str_contains (cp_upstream_url path) ''2001'')"

lemmas cascade_test_defs = chosen_def make_mesh_response_def make_candidate_def test_selector_def
  cascade_selector_new_def unlocked_def select_from_candidates_def eligible_def would_create_loop_def
  loop_guard_new_def path_of_def

lemma cascade_tests:
  "test_select_from_candidates_same_region_isp now" "test_no_candidates_returns_none now"
  "test_loop_guard_prevents_same_tier" "test_loop_guard_detects_loop_in_path"
  "test_cascade_stats now" "test_ipv6_preference_in_candidates now"
proof -
  show "test_no_candidates_returns_none now"
    by (simp add: test_no_candidates_returns_none_def cascade_test_defs)
  show "test_loop_guard_prevents_same_tier" "test_loop_guard_detects_loop_in_path"
    by (simp_all add: test_loop_guard_prevents_same_tier_def test_loop_guard_detects_loop_in_path_def
        would_create_loop_def loop_guard_new_def detect_loop_in_path_def)
  show "test_select_from_candidates_same_region_isp now"
    by (simp add: test_select_from_candidates_same_region_isp_def cascade_test_defs final_score_def Let_def
        compute_local_score_def get_probe_rtt_sync_def fresh_rtt_def rtt_factor_def EAST_def NORTH_def TELECOM_def UNICOM_def)
  show "test_cascade_stats now"
    by (simp add: test_cascade_stats_def cascade_test_defs update_mesh_map_def upstream_offline_def adopt_policy_def
        check_hysteresis_def apply_path_switch_def selector_stats_def Let_def)
  show "test_ipv6_preference_in_candidates now"
    by (simp add: test_ipv6_preference_in_candidates_def cascade_test_defs Let_def)
qed

lemma cooldown_keeps_path:
  assumes "sel_current_path s = Some p" "sel_last_switch_at s = Some t" "now < t + 30000"
    and "mm_policy resp = Some pol" "switch_cooldown_sec pol = 30" "mm_migration_advice resp = None"
    and "select_from_candidates now lk (adopt_policy resp s) (candidate_upstreams resp) \<noteq> None"
  shows "sel_current_path (update_mesh_map now lk resp s) = Some p"
proof -
  obtain q where "select_from_candidates now lk (adopt_policy resp s) (candidate_upstreams resp) = Some q"
    using assms(7) by blast
  moreover have "now - t < as_u64 30 * 1000" using assms(3) by (simp add: as_u64_def)
  ultimately show ?thesis
    using assms(1-6)
    by (simp add: update_mesh_map_def upstream_offline_def check_hysteresis_def adopt_policy_def Let_def)
qed

lemma cooldown_test:
  assumes "t2 < t1 + 30000" shows "test_hysteresis_cooldown t1 t2"
proof -
  let ?one = "make_candidate ''edge-1'' EAST TELECOM 1 85 True"
  let ?two = "make_candidate ''edge-2'' EAST TELECOM 1 99 True"
  let ?s1 = "update_mesh_map t1 unlocked (make_mesh_response [?one]) (test_selector False)"
  let ?resp = "make_mesh_response [?one, ?two]"
  obtain p where p: "sel_current_path ?s1 = Some p" "cp_upstream_node_id p = ''edge-1''"
    "sel_last_switch_at ?s1 = Some t1" "sel_loop_guard ?s1 = loop_guard_new ''test-node'' 2"
    by (simp add: cascade_test_defs update_mesh_map_def upstream_offline_def adopt_policy_def
        check_hysteresis_def apply_path_switch_def Let_def)
  have "eligible True (adopt_policy ?resp ?s1) ?one"
    using p(4) by (simp add: eligible_def adopt_policy_def would_create_loop_def loop_guard_new_def
        make_candidate_def make_mesh_response_def)
  then have "select_from_candidates t2 unlocked (adopt_policy ?resp ?s1) (candidate_upstreams ?resp) \<noteq> None"
    unfolding select_None_iff by (intro notI) (auto dest: spec [of _ 0] simp: make_mesh_response_def unlocked_def)
  from cooldown_keeps_path [OF p(1,3) assms _ _ _ this]
  have "sel_current_path (update_mesh_map t2 unlocked ?resp ?s1) = Some p" by (simp add: make_mesh_response_def)
  with p(1,2) show ?thesis by (simp add: test_hysteresis_cooldown_def current_node_def Let_def)
qed

section \<open>Configuration and command line\<close>

definition test_controller_api_url_trims_base_and_adds_slash :: bool where
  "test_controller_api_url_trims_base_and_adds_slash \<longleftrightarrow>
     (let cfg = config_normalize (default_config\<lparr>cfg_controller_url := ''http://controller:8080///''\<rparr>)
      in controller_api_url cfg ''api/agent/register'' = ''http://controller:8080/api/agent/register''
         \<and> controller_api_url cfg ''/api/agent/heartbeat'' = ''http://controller:8080/api/agent/heartbeat''
         \<and> origin_hls_url cfg ''stream-1'' = ''http://controller:8080/live/stream-1/stream.m3u8''
         \<and> origin_flv_url cfg ''stream-1'' = ''http://controller:8080/live/stream-1.flv'')"

definition test_normalizes_empty_optional_url_templates :: bool where
  "test_normalizes_empty_optional_url_templates \<longleftrightarrow>
     (let cfg = config_normalize (default_config\<lparr>
            cfg_backup_origin_url := Some ''   '',
            cfg_origin_flv_url := Some ''http://origin/live/{stream_key}.flv/'',
            cfg_cascade_upstream := Some ''http://edge/live/{stream_key}.flv/''\<rparr>)
      in cfg_backup_origin_url cfg = None
         \<and> cfg_origin_flv_url cfg = Some ''http://origin/live/{stream_key}.flv''
         \<and> cfg_cascade_upstream cfg = Some ''http://edge/live/{stream_key}.flv''
         \<and> origin_flv_url cfg ''abc'' = ''http://edge/live/abc.flv'')"

definition test_parse_cli_args_defaults_to_repo_config :: bool where
  "test_parse_cli_args_defaults_to_repo_config \<longleftrightarrow> parse_cli_args [] = Inr (Run ''configs/agent.toml'')"

definition test_parse_cli_args_accepts_systemd_config_flag :: bool where
  "test_parse_cli_args_accepts_systemd_config_flag \<longleftrightarrow>
     parse_cli_args [''-c'', ''/etc/livecdn/agent.toml''] = Inr (Run ''/etc/livecdn/agent.toml'')
     \<and> parse_cli_args [''--config=/etc/livecdn/agent.toml''] = Inr (Run ''/etc/livecdn/agent.toml'')"

definition test_parse_cli_args_accepts_version_probe :: bool where
  "test_parse_cli_args_accepts_version_probe \<longleftrightarrow> parse_cli_args [''--version''] = Inr Version"

definition test_parse_cli_args_rejects_unknown_flags :: bool where
  "test_parse_cli_args_rejects_unknown_flags \<longleftrightarrow>
     (case parse_cli_args [''--unknown''] of Inl e \<Rightarrow> True | Inr a \<Rightarrow> False)
     \<and> (case parse_cli_args [''-c''] of Inl e \<Rightarrow> True | Inr a \<Rightarrow> False)"

lemma config_tests:
  "test_controller_api_url_trims_base_and_adds_slash" "test_normalizes_empty_optional_url_templates"
  by code_simp+

lemma cli_tests:
  "test_parse_cli_args_defaults_to_repo_config" "test_parse_cli_args_accepts_systemd_config_flag"
  "test_parse_cli_args_accepts_version_probe" "test_parse_cli_args_rejects_unknown_flags"
  by code_simp+

section \<open>Self check\<close>

definition test_health_report_no_issues :: bool where
  "test_health_report_no_issues \<longleftrightarrow>
     (let report = \<lparr>sc_disk_free_mb = 5000, sc_disk_warning = False, sc_clock_skew_ms = 100,
            sc_clock_warning = False, sc_dns_resolvable = True, sc_memory_pressure = False,
            sc_uptime_secs = 3600, sc_timestamp = 1234567890\<rparr>
      in \<not> has_issues report \<and> issues_summary report = [])"

definition test_health_report_with_issues :: bool where
  "test_health_report_with_issues \<longleftrightarrow>
     (let report = \<lparr>sc_disk_free_mb = 50, sc_disk_warning = True, sc_clock_skew_ms = 8000,
            sc_clock_warning = True, sc_dns_resolvable = False, sc_memory_pressure = True,
            sc_uptime_secs = 3600, sc_timestamp = 1234567890\<rparr>
      in has_issues report \<and> length (issues_summary report) = 4)"

definition test_dns_check_valid_host :: "(string \<Rightarrow> bool) \<Rightarrow> bool" where
  "test_dns_check_valid_host resolve \<longleftrightarrow> check_dns resolve ''localhost''"

definition test_disk_free_returns_value :: "(u64 \<times> u64) option \<Rightarrow> string option \<Rightarrow> bool" where
  "test_disk_free_returns_value stat meminfo \<longleftrightarrow> 0 < check_disk_free stat meminfo"

lemma health_tests: "test_health_report_no_issues" "test_health_report_with_issues"
  by (simp_all add: test_health_report_no_issues_def test_health_report_with_issues_def has_issues_def issues_summary_def)

lemma dns_test: "test_dns_check_valid_host resolve \<longleftrightarrow> resolve ''localhost:80''"
proof -
  have no: "\<not> prefix ''http://'' ''localhost''" "\<not> prefix ''https://'' ''localhost''" by simp_all
  show ?thesis
    by (simp add: test_dns_check_valid_host_def check_dns_def trim_start_absent [OF no(1)] trim_start_absent [OF no(2)]
        split_on_no_sep Let_def)
qed

text \<open>Without an answer of \<open>statvfs\<close> and of \<open>/proc/meminfo\<close> the free space counts as unlimited.\<close>

lemma disk_test:
  "test_disk_free_returns_value (Some (b, s)) meminfo \<longleftrightarrow> 1024 * 1024 \<le> b * s"
  "test_disk_free_returns_value None None"
proof -
  have "0 < b * s div (1024 * 1024) \<longleftrightarrow> 1024 * 1024 \<le> b * s"
    by (simp add: word_less_nat_alt word_le_nat_alt unat_div) (simp add: div_greater_zero_iff)
  then show "test_disk_free_returns_value (Some (b, s)) meminfo \<longleftrightarrow> 1024 * 1024 \<le> b * s"
    by (simp add: test_disk_free_returns_value_def check_disk_free_def nix_statvfs_def)
qed (simp add: test_disk_free_returns_value_def check_disk_free_def nix_statvfs_def word_gt_0)

section \<open>The heartbeat's JSON\<close>

text \<open>The object that the derived serialiser writes, in the order of the fields.\<close>

datatype json_value = JNum int | JFloat f64 | JStr string | JBool bool

definition heartbeat_json :: "heartbeat_payload \<Rightarrow> (string \<times> json_value) list" where
  "heartbeat_json hb =
     [(''node_id'', JStr (hb_node_id hb)), (''bw_used'', JNum (uint (hb_bw_used hb))),
      (''bw_limit'', JNum (uint (hb_bw_limit hb))), (''online_users'', JNum (int (hb_online_users hb))),
      (''rtt'', JNum (uint (hb_rtt_ms hb))), (''loss_rate'', JFloat (hb_loss_rate hb)),
      (''version'', JStr (hb_version hb)), (''cascade_depth'', JNum (hb_cascade_depth hb)),
      (''children_count'', JNum (hb_children_count hb)), (''cascade_egress_bw'', JNum (hb_cascade_egress_bw hb)),
      (''current_upstream'', JStr (hb_current_upstream hb)), (''stream_lag_ms'', JNum (hb_stream_lag_ms hb))]"

definition test_heartbeat_payload_matches_go_controller_json :: bool where
  "test_heartbeat_payload_matches_go_controller_json \<longleftrightarrow>
     (let json = map_of (heartbeat_json
            \<lparr>hb_node_id = ''node-1'', hb_bw_used = 1, hb_bw_limit = 2, hb_online_users = 3, hb_rtt_ms = 42,
             hb_loss_rate = Fin (1 / 100), hb_version = ''test'', hb_cascade_depth = 1, hb_children_count = 2,
             hb_cascade_egress_bw = 3, hb_current_upstream = ''upstream'', hb_stream_lag_ms = 4\<rparr>)
      in json ''rtt'' = Some (JNum 42) \<and> json ''rtt_ms'' = None \<and> json ''node_id'' = Some (JStr ''node-1''))"

lemma json_test: "test_heartbeat_payload_matches_go_controller_json"
  by (simp add: test_heartbeat_payload_matches_go_controller_json_def heartbeat_json_def Let_def)

section \<open>A serialiser that reads back\<close>

text \<open>
  A stand-in for \<open>serde_json\<close> that meets what is asked of it: numbers in unary, strings and
  lists with their length in front, the fields one after the other.
\<close>

definition put_nat :: "nat \<Rightarrow> string" where
  "put_nat n = replicate n (CHR ''1'') @ ''.''"

definition take_nat :: "string \<Rightarrow> nat \<times> string" where
  "take_nat s = (let n = length (takeWhile (\<lambda>c. c = CHR ''1'') s) in (n, drop (Suc n) s))"

definition put_str :: "string \<Rightarrow> string" where
  "put_str s = put_nat (length s) @ s"

definition take_str :: "string \<Rightarrow> string \<times> string" where
  "take_str s = (let (n, r) = take_nat s in (take n r, drop n r))"

fun take_strs :: "nat \<Rightarrow> string \<Rightarrow> string list \<times> string" where
  "take_strs 0 s = ([], s)"
| "take_strs (Suc n) s = (let (x, r) = take_str s; (xs, r') = take_strs n r in (x # xs, r'))"

definition put_list :: "string list \<Rightarrow> string" where
  "put_list ss = put_nat (length ss) @ concat (map put_str ss)"

definition take_list :: "string \<Rightarrow> string list \<times> string" where
  "take_list s = (let (n, r) = take_nat s in take_strs n r)"

lemma take_put_nat [simp]: "take_nat (put_nat n @ r) = (n, r)"
proof -
  have "takeWhile (\<lambda>c. c = CHR ''1'') (replicate n (CHR ''1'') @ CHR ''.'' # r) = replicate n (CHR ''1'')"
    by (subst takeWhile_append2) auto
  then show ?thesis by (simp add: take_nat_def put_nat_def)
qed

lemma take_put_str [simp]: "take_str (put_str s @ r) = (s, r)"
  by (simp add: take_str_def put_str_def)

lemma take_strs_put [simp]: "take_strs (length ss) (concat (map put_str ss) @ r) = (ss, r)"
  by (induction ss) simp_all

lemma take_put_list [simp]: "take_list (put_list ss @ r) = (ss, r)"
  by (simp add: take_list_def put_list_def)

definition opt_list :: "'a option \<Rightarrow> 'a list" where
  "opt_list x = (case x of Some a \<Rightarrow> [a] | None \<Rightarrow> [])"

definition list_opt :: "'a list \<Rightarrow> 'a option" where
  "list_opt xs = (case xs of a # _ \<Rightarrow> Some a | [] \<Rightarrow> None)"

lemma list_opt_list [simp]: "list_opt (opt_list x) = x"
  by (cases x) (simp_all add: opt_list_def list_opt_def)

definition put_switch :: "transport_switch_command \<Rightarrow> string" where
  "put_switch cmd =
     (let c = tsc_config cmd
      in put_list [transport_type_str (tsc_target_transport cmd), tsc_reason cmd,
             transport_type_str (tc_transport_type c), tc_address c, tc_path c]
         @ put_list (opt_list (tc_reality_private_key c)) @ put_list (opt_list (tc_reality_short_id c))
         @ put_list (map put_list (opt_list (tc_reality_server_names c)))
         @ put_list (opt_list (tc_reality_public_key c))
         @ put_nat (of_bool (tc_tls_enabled c)) @ put_nat (unat (tsc_deadline_secs cmd)))"

definition take_switch :: "string \<Rightarrow> string + transport_switch_command" where
  "take_switch s =
     (let (texts, s1) = take_list s; (private, s2) = take_list s1; (short, s3) = take_list s2;
          (names, s4) = take_list s3; (public, s5) = take_list s4; (tls, s6) = take_nat s5;
          (deadline, s7) = take_nat s6
      in case texts of
           [target, reason, tt, address, path] \<Rightarrow>
             (case (transport_type_from_str target, transport_type_from_str tt) of
                (Some t1, Some t2) \<Rightarrow> Inr
                  \<lparr>tsc_target_transport = t1,
                   tsc_config = \<lparr>tc_transport_type = t2, tc_address = address, tc_path = path,
                     tc_tls_enabled = (tls = 1), tc_reality_private_key = list_opt private,
                     tc_reality_short_id = list_opt short,
                     tc_reality_server_names = list_opt (map (fst \<circ> take_list) names),
                     tc_reality_public_key = list_opt public\<rparr>,
                   tsc_deadline_secs = word_of_nat deadline, tsc_reason = reason\<rparr>
              | _ \<Rightarrow> Inl ''unknown transport'')
         | _ \<Rightarrow> Inl ''missing field'')"

definition unary_json :: switch_json where
  "unary_json = \<lparr>sj_to_string = (\<lambda>cmd. Some (put_switch cmd)), sj_from_str = take_switch\<rparr>"

lemma type_from_str: "transport_type_from_str (transport_type_str t) = Some t"
  by (cases t) (simp_all add: transport_type_from_str_def)

lemma take_put_list_end [simp]: "take_list (put_list ss) = (ss, [])"
  using take_put_list [of ss "[]"] by simp

lemma take_put_nat_end [simp]: "take_nat (put_nat n) = (n, [])"
  using take_put_nat [of n "[]"] by simp

lemma unary_roundtrips: "json_roundtrips unary_json"
proof -
  have id: "(fst \<circ> take_list) \<circ> put_list = id" by (rule ext) simp
  have "take_switch (put_switch cmd) = Inr cmd" for cmd
    by (cases cmd rule: transport_switch_command.cases; cases "tsc_config cmd" rule: transport_config.cases)
      (simp add: put_switch_def take_switch_def Let_def type_from_str id)
  then show ?thesis by (simp add: json_roundtrips_def unary_json_def)
qed

section \<open>Property\<close>



end
