(* ===== verification/Spec2Isabelle.thy ===== *)
theory Spec2Isabelle
  imports Cascade_Link Flv_System_Props Encrypted_System_Props Background Interop Updater Cascade_Roles
    Cascade_Source Unit_Tests_Media Unit_Tests_Control
begin

text \<open>
  LiveCDN edge agent (agent-rust/): a verification development.

  \<^bold>\<open>The program.\<close> An agent is a node of a live streaming network. It pulls a stream from an
  origin, or from another agent above it in a cascade, when the first viewer asks for it,
  and serves it to viewers in two forms. FLV: the pull task parses an HTTP-FLV body into
  tags, broadcasts them and feeds the GOP cache; HTTP-FLV and WebSocket-FLV connections
  send the start-up tags of that cache and then the broadcast. Encrypted HLS: the pull loop
  fetches a playlist and its segments, encrypts each with a key derived from its number and
  broadcasts it in a protocol frame; encrypted WebSocket connections pass the frames on. A
  controller is told about the node by heartbeats and answers with a map of candidate
  upstreams, from which the cascade selector chooses. Around this: configuration, command
  line, the HTTP endpoints with the pages that disguise the node, a registry of transports,
  a self update and a health check.

  \<^bold>\<open>Theories and code\<close> (file names under agent-rust/src/).
  \<^item> Rust_Base, Rust_Str, Rust_F64: the prelude: words, byte orders, string functions of the
    standard library on byte strings, \<open>f64\<close> and \<open>Duration\<close>.
  \<^item> Framing: the interface of incremental decoders, what feeding them in chunks gives.
    Interpreted by Protocol and by Flv_Pull.
  \<^item> Protocol: protocol/mod.rs, frames and \<open>FrameDecoder\<close>.
  \<^item> Flv_Tag: relay/flv_output.rs and the tag types of relay/flv.rs.
  \<^item> Gop_Cache: relay/gop_cache.rs, with the abstract split of the tag history into GOPs that
    the cache refines.
  \<^item> Packet_Drop: relay/packet_drop.rs, with the interface of a dropping filter.
  \<^item> Flv_Pull, Flv_Puller: \<open>pull_flv_stream\<close>, and the relay and pull task of relay/flv.rs.
  \<^item> Backoff: relay/backoff.rs.
  \<^item> Admission: the interface of a counted set of client slots; interpreted by both relays.
  \<^item> Flv_Session: the FLV connections of main.rs behind their admission.
  \<^item> Crypto: crypto/mod.rs.
  \<^item> Playlist, Stream_Relay: the playlist parser and the relay of relay/mod.rs.
  \<^item> Encrypted_Session: the encrypted WebSocket connection of main.rs, and what its viewer
    can decrypt.
  \<^item> Cascade: relay/cascade_selector.rs.
  \<^item> Config, Cli: config/mod.rs, the command line of main.rs. Startup: from both to the first
    state.
  \<^item> Write_Once: the interface of tables that are only filled; interpreted by the transport
    registry and by the two relay tables of the agent.
  \<^item> Transport: transport/registry.rs.
  \<^item> Http_Request: which connection the first bytes announce, and the head of an HTTP-FLV
    request (main.rs).
  \<^item> Agent: \<open>AppState\<close>, the creation of relays, the connection handlers, and the steps and
    reachable states of a running agent (main.rs). Agent_Conn: whole connections.
    Cascade_Link: two agents in a cascade.
  \<^item> Flv_System: one relay, its pull task and any number of connections, each a state machine
    with one step per await point, interleaved in any order. Flv_System_Props: its invariants,
    its progress, and that every connection refines the sequential session of Flv_Session.
  \<^item> Encrypted_System: one HLS relay, its pull loop with one step per access that others can see,
    and any number of encrypted connections, interleaved. Encrypted_System_Props: that the
    turns of Stream_Relay and the sessions of Encrypted_Session are what these do, and which
    viewers can read the stream.
  \<^item> Http_Api: disguise/mod.rs, the HTTP endpoints, registration and heartbeat (main.rs).
  \<^item> Background: what \<open>main\<close> spawns: registration, heartbeat loop, timers, accept loops.
  \<^item> Updater, Healthcheck: updater/mod.rs and healthcheck/mod.rs.
  \<^item> Interop: the peers outside the crate that read its frames: the codec of
    internal/protocol and the key derivation of internal/crypto (Go), the decryption of
    web/player.html.
  \<^item> Controller: the table of nodes, the handlers of registration and heartbeat and the mesh map
    (internal/controller, Go). Cascade_Network: controller and agents as one system, with the
    interfaces of a layering of upstreams and of an invariant that every message keeps.
    Cascade_Roles: runs of that system in which roles change, and what the controller knows
    of the load. Cascade_Source: the offered URL, its use and the request it leads to.
  \<^item> Unit_Tests_Media, Unit_Tests_Control: the tests of the crate, each a definition that is
    true when its assertions hold.

  A struct is a record with the source's fields (a short prefix keeps field names apart), an
  enum a datatype, a method a function that returns the changed record. A \<open>Result\<close> is a sum,
  a panic is \<open>None\<close> or a constructor of the result; the crate is built with
  \<open>panic = "abort"\<close>, so a panic ends the process.

  \<^bold>\<open>What is shown.\<close> The codecs round-trip and are safe on any bytes (Protocol, Crypto,
  Flv_Pull), and the Go codec agrees with the agent's (Interop). What a viewer receives, from
  the request line to the socket, in both forms (Agent_Conn, Flv_Session, Encrypted_Session),
  and that this is also what a connection does among any interleaving of others, with exact
  client counts and always a next step (Flv_System_Props, Encrypted_System_Props). The GOP
  cache refines the history of the stream, also across reconnects. The cascade selector never selects the node itself
  and keeps its own limits; in the network of controller and agents no loop of upstreams
  arises while nodes keep their roles (Cascade_Network). Admission, caches and rates stay in
  bounds; the tables of the agent are well formed in every reachable state; what each turn of
  the heartbeat does (Background); an update never leaves the node without a program, except
  after two failures. The model passes the crate's own tests. Where the code does not do what
  it means to do, the theorem says what it does: the FLV header that desynchronises the
  parser, alone and in a cascade link; the playlist and join rules that leave an encrypted
  viewer without a readable stream, even the first one if it comes between the caching and
  the broadcast of the first playlist; frames above the limit; slots lost on a write error, and
  slots given back while the sender goes on; viewers left waiting at the end of a stream; keys
  that abort the process; the header loop that never returns; sources that never change; roles
  that the controller does not update, so that two agents can pull from each other; loads
  that no heartbeat carries.

  \<^bold>\<open>Bounds and termination.\<close> Parser loops recurse on the unread bytes (every step consumes at
  least one). The header loop may not end and is a \<open>partial_function\<close>; the inputs on which
  it returns are characterised. Loops over time (pull task, pull loop, heartbeat) are
  modelled by their turns, and a run is a list of turns of any length. No fuel is used.

  \<^bold>\<open>Idealisations.\<close> \<open>f64\<close> is the reals with infinities and NaN, without rounding. Strings are
  UTF-8 byte strings; white space and letter case are those of ASCII. A method that holds a
  lock is one atomic step; the order of steps is arbitrary. The model of the whole agent
  (Agent) takes the handling of a connection over the relay state as one step, which
  Flv_System opens up for the connections of one FLV relay and Encrypted_System for one HLS
  relay. A handler of the controller is one step. \<open>usize\<close> lengths are natural numbers, Go's \<open>int\<close> an integer.

  \<^bold>\<open>Parameters.\<close> The cryptographic functions of ring (with the laws used: sealing is inverted
  by opening under the same key and nonce, lengths, and authenticity), the HTTP client and
  server, WebSocket, JSON, TOML, base64, the clock, sockets (a write succeeds or fails), the
  broadcast channel (what \<open>recv\<close> answers), the file system's failures, name resolution; of
  the controller the order of its maps and its unstable sort.

  \<^bold>\<open>Not modelled.\<close> Of the controller what does not concern the agents' registration and
  cascade: streams, viewer sessions and their scheduling, administration, audit and metrics;
  the older agent in Go; the web pages but for the player's decryption; deployment files and
  the load test. Of the agent: logging (except where a log line can panic), tokio's scheduling,
  the settings of the HTTP client, the JSON message structs and the security layer trait that
  nothing uses.

  \<^bold>\<open>Open.\<close> The rounding of \<open>f64\<close>; the measured delays of the mesh ping as a protocol with the
  peer; several relays of one agent as one interleaved system.
\<close>

end
